(* ===== verification/Kernel_Prelude.thy ===== *)
theory Kernel_Prelude
  imports Main "HOL-Library.While_Combinator" "HOL-Library.Word"
begin

section \<open>Shared vocabulary of the development\<close>

text \<open>
  This theory holds what the component theories share.
  \<^item> \<open>outcome\<close>: how a C function of the sources ends. \<open>Ok x s\<close>: it returns \<open>x\<close> and leaves the
    state \<open>s\<close>; \<open>Panic m\<close>: it stops in \<^verbatim>\<open>panic(m)\<close> (or, in the calculator, in
    \<^verbatim>\<open>execerror(m)\<close>); \<open>Exit c s\<close>: it stops the running task through \<^verbatim>\<open>do_exit(c)\<close>;
    \<open>Hang\<close>: it never returns, because a loop of it runs for ever.
  \<^item> \<open>bindK\<close> runs one call after another, \<open>forK\<close> is a bounded \<^verbatim>\<open>for\<close> loop, and \<open>iterK\<close> is an
    unbounded loop (\<^verbatim>\<open>while\<close>, \<^verbatim>\<open>goto repeat\<close>): its body says \<open>Inl a\<close> to go round again with
    the loop variables \<open>a\<close>, and \<open>Inr b\<close> to leave the loop with the value \<open>b\<close>. A loop that
    never leaves is \<open>Hang\<close>, so loops need no fuel.
  \<^item> \<open>wpK m Q\<close>: if \<open>m\<close> returns, then its result satisfies \<open>Q\<close>; \<open>okK m Q\<close>: \<open>m\<close> returns, and its
    result satisfies \<open>Q\<close>. Their rules are collected in \<open>wp_rules\<close> and \<open>ok_rules\<close>.
\<close>

named_theorems wp_rules \<open>rules for partial correctness of kernel calls\<close>
named_theorems ok_rules \<open>rules for total correctness of kernel calls\<close>

type_synonym u8 = "8 word"
type_synonym u16 = "16 word"
type_synonym u32 = "32 word"

datatype ('a, 's) outcome = Ok 'a 's | Panic string | Exit int 's | Hang

fun bindK :: "('a, 's) outcome \<Rightarrow> ('a \<Rightarrow> 's \<Rightarrow> ('b, 's) outcome) \<Rightarrow> ('b, 's) outcome" where
  "bindK (Ok x s) f = f x s"
| "bindK (Panic m) f = Panic m"
| "bindK (Exit c s) f = Exit c s"
| "bindK Hang f = Hang"

primrec forK :: "'i list \<Rightarrow> ('i \<Rightarrow> 's \<Rightarrow> (unit, 's) outcome) \<Rightarrow> 's \<Rightarrow> (unit, 's) outcome" where
  "forK [] f s = Ok () s"
| "forK (i # is) f s = bindK (f i s) (\<lambda>_ t. forK is f t)"

definition loop_step ::
    "('a \<Rightarrow> 's \<Rightarrow> ('a + 'b, 's) outcome) \<Rightarrow> ('a + 'b, 's) outcome \<Rightarrow> ('a + 'b, 's) outcome" where
  "loop_step body m = bindK m (\<lambda>r s. case r of Inl a \<Rightarrow> body a s | Inr b \<Rightarrow> Ok (Inr b) s)"

fun again :: "('a + 'b, 's) outcome \<Rightarrow> bool" where
  "again (Ok (Inl a) s) = True"
| "again _ = False"

definition leave_loop :: "('a + 'b, 's) outcome \<Rightarrow> ('b, 's) outcome" where
  "leave_loop m = bindK m (\<lambda>r s. case r of Inl a \<Rightarrow> Hang | Inr b \<Rightarrow> Ok b s)"

definition iterK :: "('a \<Rightarrow> 's \<Rightarrow> ('a + 'b, 's) outcome) \<Rightarrow> 'a \<Rightarrow> 's \<Rightarrow> ('b, 's) outcome" where
  "iterK body a s =
     (case while_option again (loop_step body) (body a s) of
        None \<Rightarrow> Hang | Some m \<Rightarrow> leave_loop m)"

fun wpK :: "('a, 's) outcome \<Rightarrow> ('a \<Rightarrow> 's \<Rightarrow> bool) \<Rightarrow> bool" where
  "wpK (Ok x s) Q = Q x s"
| "wpK _ Q = True"

fun okK :: "('a, 's) outcome \<Rightarrow> ('a \<Rightarrow> 's \<Rightarrow> bool) \<Rightarrow> bool" where
  "okK (Ok x s) Q = Q x s"
| "okK _ Q = False"

text \<open>\<open>mapK h m\<close> looks at the states of an outcome through \<open>h\<close>.\<close>

fun mapK :: "('s \<Rightarrow> 't) \<Rightarrow> ('a, 's) outcome \<Rightarrow> ('a, 't) outcome" where
  "mapK h (Ok x s) = Ok x (h s)"
| "mapK h (Panic m) = Panic m"
| "mapK h (Exit c s) = Exit c (h s)"
| "mapK h Hang = Hang"

subsection \<open>Sequencing\<close>

lemma bindK_assoc: "bindK (bindK m f) g = bindK m (\<lambda>x s. bindK (f x s) g)"
  by (cases m) auto

lemma bindK_cong:
  "m = m' \<Longrightarrow> (\<And>x s. m' = Ok x s \<Longrightarrow> f x s = g x s) \<Longrightarrow> bindK m f = bindK m' g"
  by (cases m') auto

lemma bindK_Ok [simp]: "bindK m Ok = m"
  by (cases m) auto

lemma mapK_bindK_Ok: "(\<And>t. h (u t) = h t) \<Longrightarrow> mapK h (bindK m (\<lambda>x t. Ok x (u t))) = mapK h m"
  by (cases m) auto

lemma bindK_eq_Ok_iff:
  "bindK m f = Ok y t \<longleftrightarrow> (\<exists>x s. m = Ok x s \<and> f x s = Ok y t)"
  by (cases m) auto

lemma bindK_Ok_E [elim]:
  assumes "bindK m f = Ok y t"
  obtains x s where "m = Ok x s" and "f x s = Ok y t"
  using assms by (auto simp: bindK_eq_Ok_iff)

lemma wpK_iff: "wpK m Q \<longleftrightarrow> (\<forall>x s. m = Ok x s \<longrightarrow> Q x s)"
  by (cases m) auto

lemma okK_iff: "okK m Q \<longleftrightarrow> (\<exists>x s. m = Ok x s \<and> Q x s)"
  by (cases m) auto

lemma wpK_bind [simp, wp_rules]: "wpK (bindK m f) Q = wpK m (\<lambda>x s. wpK (f x s) Q)"
  by (cases m) auto

lemma okK_bind [simp, ok_rules]: "okK (bindK m f) Q = okK m (\<lambda>x s. okK (f x s) Q)"
  by (cases m) auto

lemma wpK_mono: "wpK m P \<Longrightarrow> (\<And>x s. P x s \<Longrightarrow> Q x s) \<Longrightarrow> wpK m Q"
  by (cases m) auto

lemma okK_mono: "okK m P \<Longrightarrow> (\<And>x s. P x s \<Longrightarrow> Q x s) \<Longrightarrow> okK m Q"
  by (cases m) auto

lemma wpK_D: "wpK m Q \<Longrightarrow> m = Ok x s \<Longrightarrow> Q x s"
  by simp

lemma okK_wpK: "okK m Q \<Longrightarrow> wpK m Q"
  by (cases m) auto

lemma okK_conj_wpK: "okK m P \<Longrightarrow> wpK m Q \<Longrightarrow> okK m (\<lambda>x s. P x s \<and> Q x s)"
  by (cases m) auto

lemma okK_ex: "okK m Q \<Longrightarrow> \<exists>x s. m = Ok x s \<and> Q x s"
  by (simp add: okK_iff)

subsection \<open>Bounded loops\<close>

lemma forK_append: "forK (xs @ ys) f s = bindK (forK xs f s) (\<lambda>_ t. forK ys f t)"
proof (induction xs arbitrary: s)
  case (Cons x xs)
  then show ?case by (cases "f x s") auto
qed simp

lemma wpK_forK:
  assumes "\<And>i s. i \<in> set is \<Longrightarrow> I s \<Longrightarrow> wpK (f i s) (\<lambda>_ t. I t)" and "I s"
  shows "wpK (forK is f s) (\<lambda>_ t. I t)"
  using assms
proof (induction "is" arbitrary: s)
  case (Cons i "is")
  have "wpK (f i s) (\<lambda>_ t. I t)" using Cons.prems by simp
  then show ?case
    using Cons.IH Cons.prems(1) by (auto intro: wpK_mono)
qed simp

lemma okK_forK:
  assumes "\<And>i s. i \<in> set is \<Longrightarrow> I s \<Longrightarrow> okK (f i s) (\<lambda>_ t. I t)" and "I s"
  shows "okK (forK is f s) (\<lambda>_ t. I t)"
  using assms
proof (induction "is" arbitrary: s)
  case (Cons i "is")
  have "okK (f i s) (\<lambda>_ t. I t)" using Cons.prems by simp
  then show ?case
    using Cons.IH Cons.prems(1) by (auto intro: okK_mono)
qed simp

lemma forK_Ok: "(\<And>i s. f i s = Ok () (g i s)) \<Longrightarrow> forK is f s = Ok () (fold g is s)"
  by (induction "is" arbitrary: s) auto

subsection \<open>Unbounded loops\<close>

lemma iterK_unfold [code]:
  "iterK body a s =
     bindK (body a s) (\<lambda>r t. case r of Inl a' \<Rightarrow> iterK body a' t | Inr b \<Rightarrow> Ok b t)"
proof (cases "body a s")
  case (Ok r t)
  show ?thesis
  proof (cases r)
    case (Inl a1)
    with Ok show ?thesis
      by (simp add: iterK_def loop_step_def
          while_option_unfold [of again "loop_step body" "Ok (Inl a1) t"])
  next
    case (Inr b)
    with Ok show ?thesis
      by (simp add: iterK_def leave_loop_def
          while_option_unfold [of again "loop_step body" "Ok (Inr b) t"])
  qed
qed (simp_all add: iterK_def leave_loop_def while_option_unfold [of again "loop_step body"])

lemma iterK_commute:
  assumes step: "\<And>a s. I s \<Longrightarrow> f a (h s) = bindK (g a s) (\<lambda>r t. Ok r (h t))"
    and inv: "\<And>a s. I s \<Longrightarrow> wpK (g a s) (\<lambda>_ t. I t)"
    and start: "I s"
  shows "iterK f a (h s) = bindK (iterK g a s) (\<lambda>r t. Ok r (h t))"
proof -
  let ?h = "\<lambda>m. bindK m (\<lambda>r t. Ok r (h t))"
  let ?P = "\<lambda>m. wpK m (\<lambda>_ t. I t)"
  have pres: "?P (loop_step g m)" if "?P m" "again m" for m
    using that by (cases m rule: again.cases) (auto simp: loop_step_def inv)
  have test: "again m = again (?h m)" for m :: "('a + 'c, 'b) outcome"
    by (cases m rule: again.cases) auto
  have body: "?h (loop_step g m) = loop_step f (?h m)" if "?P m" "again m" for m
    using that by (cases m rule: again.cases) (auto simp: loop_step_def step)
  have "while_option again (loop_step f) (?h (g a s))
      = map_option ?h (while_option again (loop_step g) (g a s))"
    by (rule while_option_commute_invariant [where P = ?P and b = again and b' = again and f = ?h
          and c = "loop_step g" and c' = "loop_step f" and s = "g a s", symmetric];
        (rule pres test body inv [OF start]; assumption)?)
  moreover have "leave_loop (?h m) = ?h (leave_loop m)" for m :: "('a + 'c, 'b) outcome"
    by (cases m) (auto simp: leave_loop_def split: sum.splits)
  ultimately show ?thesis
    by (cases "while_option again (loop_step g) (g a s)")
       (auto simp: iterK_def step [OF start])
qed

lemma wpK_iterK:
  assumes step: "\<And>a s. I a s \<Longrightarrow>
      wpK (body a s) (\<lambda>r t. case r of Inl a' \<Rightarrow> I a' t | Inr b \<Rightarrow> Q b t)"
    and start: "I a s"
  shows "wpK (iterK body a s) Q"
proof -
  let ?J = "\<lambda>m. wpK m (\<lambda>r t. case r of Inl a' \<Rightarrow> I a' t | Inr b \<Rightarrow> Q b t)"
  have pres: "?J (loop_step body m)" if "?J m" and "again m" for m
    using that by (cases m rule: again.cases) (auto simp: loop_step_def intro: step)
  have "?J m" if "while_option again (loop_step body) (body a s) = Some m" for m
    using while_option_rule [where P = ?J, OF _ that] pres step [OF start] by blast
  then show ?thesis
    by (auto simp: iterK_def leave_loop_def split: option.splits sum.splits elim!: wpK_mono)
qed

lemma okK_iterK:
  assumes step: "\<And>a s. I a s \<Longrightarrow>
      okK (body a s) (\<lambda>r t. case r of Inl a' \<Rightarrow> I a' t \<and> (f a' t :: nat) < f a s | Inr b \<Rightarrow> Q b t)"
    and start: "I a s"
  shows "okK (iterK body a s) Q"
  using start
proof (induction "f a s" arbitrary: a s rule: less_induct)
  case less
  from step [OF less.prems] obtain r t where b: "body a s = Ok r t"
    and r: "case r of Inl a' \<Rightarrow> I a' t \<and> f a' t < f a s | Inr b \<Rightarrow> Q b t"
    by (auto simp: okK_iff)
  show ?case
  proof (cases r)
    case (Inl a')
    with r have "okK (iterK body a' t) Q" using less.hyps by simp
    then show ?thesis by (subst iterK_unfold) (simp add: b Inl)
  next
    case (Inr b')
    then show ?thesis using r by (subst iterK_unfold) (simp add: b)
  qed
qed

subsection \<open>Lists and arrays\<close>

lemma fold_inv:
  "(\<And>x s. x \<in> set xs \<Longrightarrow> I s \<Longrightarrow> I (f x s)) \<Longrightarrow> I s \<Longrightarrow> I (fold f xs s)"
  by (induction xs arbitrary: s) auto

lemma fold_frame:
  "(\<And>x s. x \<in> set xs \<Longrightarrow> g (f x s) = g s) \<Longrightarrow> g (fold f xs s) = g s"
  by (induction xs arbitrary: s) auto

subsection \<open>Signed arithmetic of C\<close>

text \<open>Division truncates towards zero, and a \<^verbatim>\<open>long\<close> has 32 bits.\<close>

definition cdiv :: "int \<Rightarrow> int \<Rightarrow> int" where
  "cdiv a b = sgn a * sgn b * (\<bar>a\<bar> div \<bar>b\<bar>)"

definition cmod :: "int \<Rightarrow> int \<Rightarrow> int" where
  "cmod a b = a - b * cdiv a b"

definition s32 :: "int \<Rightarrow> int" where
  "s32 x = sint (word_of_int x :: u32)"

lemma cdiv_pos: "0 \<le> a \<Longrightarrow> 0 < b \<Longrightarrow> cdiv a b = a div b"
  by (cases "a = 0") (auto simp: cdiv_def sgn_if)

lemma cmod_pos: "0 \<le> a \<Longrightarrow> 0 < b \<Longrightarrow> cmod a b = a mod b"
  by (simp add: cmod_def cdiv_pos minus_mult_div_eq_mod)

lemma s32_id [simp]: "- (2 ^ 31) \<le> x \<Longrightarrow> x < 2 ^ 31 \<Longrightarrow> s32 x = x"
  by (simp add: s32_def int_word_sint mod_pos_pos_trivial)

lemma s32_range: "- (2 ^ 31) \<le> s32 x" "s32 x < 2 ^ 31"
  using sint_greater_eq [of "word_of_int x :: u32"] sint_less [of "word_of_int x :: u32"] by (simp_all add: s32_def)

end
