(* ===== verification/Task_Data.thy ===== *)
theory Task_Data
  imports Kernel_Prelude
begin

unbundle bit_operations_syntax

section \<open>The task table and the global variables of the scheduler\<close>

text \<open>
  The data of \<^verbatim>\<open>include/linux/sched.h\<close>, \<^verbatim>\<open>include/signal.h\<close> and of the head of
  \<^verbatim>\<open>kernel/sched.c\<close>.
  \<^item> A C struct is a record whose fields carry a short prefix (\<open>t_\<close> for \<^verbatim>\<open>task_struct\<close>), so that
    common words such as \<open>state\<close> stay free for variables. Signed C integers are \<open>int\<close>; unsigned
    fields and bit masks keep their width as words.
  \<^item> A \<^verbatim>\<open>struct task_struct *\<close> is the slot number of the task in \<^verbatim>\<open>task[]\<close>; a NULL slot is
    \<open>None\<close>. Pointers to in-core inodes and open files are indices of their tables.
  \<^item> \<open>sched_st\<close> holds the global variables. It is extensible: the memory manager, the buffer cache
    and the other components extend it with their own variables, and every operation here works
    on any such extension.
  \<^item> A \<^verbatim>\<open>struct task_struct **\<close> passed to \<^verbatim>\<open>sleep_on\<close> and \<^verbatim>\<open>wake_up\<close> is the address of a
    wait-queue head. \<open>waitq\<close> names those addresses, \<open>wait_head\<close> holds their contents.
  \<^item> \<open>fs_mem\<close> is the user data space that \<^verbatim>\<open>get_fs_*\<close> and \<^verbatim>\<open>put_fs_*\<close> reach through the
    \<^verbatim>\<open>fs\<close> segment, \<open>io_ports\<close> the value last written to each I/O port.
\<close>

record sigaction =
  sa_handler :: u32
  sa_mask :: u32
  sa_flags :: u32
  sa_restorer :: u32

record desc_struct =
  desc_a :: u32
  desc_b :: u32

record tss_struct =
  tss_back_link :: u32
  tss_esp0 :: u32
  tss_ss0 :: u32
  tss_eip :: u32
  tss_eflags :: u32
  tss_eax :: u32
  tss_ecx :: u32
  tss_edx :: u32
  tss_ebx :: u32
  tss_esp :: u32
  tss_ebp :: u32
  tss_esi :: u32
  tss_edi :: u32
  tss_es :: u32
  tss_cs :: u32
  tss_ss :: u32
  tss_ds :: u32
  tss_fs :: u32
  tss_gs :: u32
  tss_ldt :: u32
  tss_trace_bitmap :: u32

record task_struct =
  t_state :: int
  t_counter :: int
  t_priority :: int
  t_signal :: u32
  t_sigaction :: "nat \<Rightarrow> sigaction"
  t_blocked :: u32
  t_exit_code :: int
  t_start_code :: u32
  t_end_code :: u32
  t_end_data :: u32
  t_brk :: u32
  t_start_stack :: u32
  t_pid :: int
  t_father :: int
  t_pgrp :: int
  t_session :: int
  t_leader :: int
  t_uid :: u16
  t_euid :: u16
  t_suid :: u16
  t_gid :: u16
  t_egid :: u16
  t_sgid :: u16
  t_alarm :: int
  t_utime :: int
  t_stime :: int
  t_cutime :: int
  t_cstime :: int
  t_start_time :: int
  t_used_math :: u16
  t_tty :: int
  t_umask :: u16
  t_pwd :: "nat option"
  t_root :: "nat option"
  t_executable :: "nat option"
  t_close_on_exec :: u32
  t_filp :: "nat \<Rightarrow> nat option"
  t_ldt :: "nat \<Rightarrow> desc_struct"
  t_tss :: tss_struct

abbreviation (input) TASK_RUNNING :: int where "TASK_RUNNING \<equiv> 0"
abbreviation (input) TASK_INTERRUPTIBLE :: int where "TASK_INTERRUPTIBLE \<equiv> 1"
abbreviation (input) TASK_UNINTERRUPTIBLE :: int where "TASK_UNINTERRUPTIBLE \<equiv> 2"
abbreviation (input) TASK_ZOMBIE :: int where "TASK_ZOMBIE \<equiv> 3"
abbreviation (input) TASK_STOPPED :: int where "TASK_STOPPED \<equiv> 4"

abbreviation (input) NR_TASKS :: nat where "NR_TASKS \<equiv> 64"
abbreviation (input) HZ :: int where "HZ \<equiv> 100"
abbreviation (input) NR_OPEN :: nat where "NR_OPEN \<equiv> 20"

abbreviation (input) SIGHUP :: nat where "SIGHUP \<equiv> 1"
abbreviation (input) SIGINT :: nat where "SIGINT \<equiv> 2"
abbreviation (input) SIGQUIT :: nat where "SIGQUIT \<equiv> 3"
abbreviation (input) SIGKILL :: nat where "SIGKILL \<equiv> 9"
abbreviation (input) SIGSEGV :: nat where "SIGSEGV \<equiv> 11"
abbreviation (input) SIGPIPE :: nat where "SIGPIPE \<equiv> 13"
abbreviation (input) SIGALRM :: nat where "SIGALRM \<equiv> 14"
abbreviation (input) SIGCHLD :: nat where "SIGCHLD \<equiv> 17"
abbreviation (input) SIGSTOP :: nat where "SIGSTOP \<equiv> 19"

text \<open>\<^verbatim>\<open>_S(nr)\<close>: the bit of signal \<open>nr\<close> in a signal mask, \<^verbatim>\<open>1<<((nr)-1)\<close>.\<close>

definition sig_bit :: "nat \<Rightarrow> u32" where
  "sig_bit nr = push_bit (nr - 1) 1"

definition BLOCKABLE :: u32 where
  "BLOCKABLE = NOT (sig_bit SIGKILL OR sig_bit SIGSTOP)"

datatype waitq =
    WqBuffer nat        \<comment> \<open>\<^verbatim>\<open>&bh->b_wait\<close>\<close>
  | WqBufferWait        \<comment> \<open>\<^verbatim>\<open>&buffer_wait\<close>\<close>
  | WqRequest           \<comment> \<open>\<^verbatim>\<open>&wait_for_request\<close>\<close>
  | WqInode nat         \<comment> \<open>\<^verbatim>\<open>&inode->i_wait\<close>\<close>
  | WqSuper nat         \<comment> \<open>\<^verbatim>\<open>&sb->s_wait\<close>\<close>
  | WqMotor nat         \<comment> \<open>\<^verbatim>\<open>wait_motor+nr\<close>\<close>
  | WqTty nat           \<comment> \<open>\<^verbatim>\<open>&queue->proc_list\<close>, queues numbered as in \<^verbatim>\<open>table_list\<close>\<close>

record timer_list =
  tl_jiffies :: int
  tl_fn :: "nat option"
  tl_next :: "nat option"

record sched_st =
  task :: "nat \<Rightarrow> task_struct option"
  current :: nat
  jiffies :: int
  startup_time :: int
  last_pid :: int
  last_task_used_math :: "nat option"
  wait_head :: "waitq \<Rightarrow> nat option"
  timer_pool :: "nat \<Rightarrow> timer_list"
  next_timer :: "nat option"
  mon_timer :: "nat \<Rightarrow> int"
  moff_timer :: "nat \<Rightarrow> int"
  current_DOR :: u8
  selected :: u8
  beepcount :: int
  io_ports :: "nat \<Rightarrow> u8"
  fs_mem :: "u32 \<Rightarrow> u8"

text \<open>
  \<^verbatim>\<open>INIT_TASK\<close>: the task the machine boots with. \<open>addr\<close> is the address of \<^verbatim>\<open>init_task\<close>, which the
  linker fixes.
\<close>

definition INIT_TASK :: "u32 \<Rightarrow> task_struct" where
  "INIT_TASK addr = \<lparr>
     t_state = 0, t_counter = 15, t_priority = 15,
     t_signal = 0, t_sigaction = (\<lambda>_. \<lparr>sa_handler = 0, sa_mask = 0, sa_flags = 0, sa_restorer = 0\<rparr>),
     t_blocked = 0,
     t_exit_code = 0, t_start_code = 0, t_end_code = 0, t_end_data = 0, t_brk = 0, t_start_stack = 0,
     t_pid = 0, t_father = -1, t_pgrp = 0, t_session = 0, t_leader = 0,
     t_uid = 0, t_euid = 0, t_suid = 0, t_gid = 0, t_egid = 0, t_sgid = 0,
     t_alarm = 0, t_utime = 0, t_stime = 0, t_cutime = 0, t_cstime = 0, t_start_time = 0,
     t_used_math = 0,
     t_tty = -1, t_umask = 18, t_pwd = None, t_root = None, t_executable = None, t_close_on_exec = 0,
     t_filp = (\<lambda>_. None),
     t_ldt = (\<lambda>_. \<lparr>desc_a = 0, desc_b = 0\<rparr>)
       (1 := \<lparr>desc_a = 0x9f, desc_b = 0xc0fa00\<rparr>, 2 := \<lparr>desc_a = 0x9f, desc_b = 0xc0f200\<rparr>),
     t_tss = \<lparr>tss_back_link = 0, tss_esp0 = 4096 + addr, tss_ss0 = 0x10,
       tss_eip = 0, tss_eflags = 0, tss_eax = 0, tss_ecx = 0, tss_edx = 0, tss_ebx = 0,
       tss_esp = 0, tss_ebp = 0, tss_esi = 0, tss_edi = 0,
       tss_es = 0x17, tss_cs = 0x17, tss_ss = 0x17, tss_ds = 0x17, tss_fs = 0x17, tss_gs = 0x17,
       tss_ldt = 40, tss_trace_bitmap = 0x80000000\<rparr>\<rparr>"

text \<open>The initial values of the global variables: one task, everything else zero.\<close>

definition sched_boot :: "u32 \<Rightarrow> sched_st" where
  "sched_boot addr = \<lparr>
     task = [0 \<mapsto> INIT_TASK addr], current = 0, jiffies = 0, startup_time = 0, last_pid = 0,
     last_task_used_math = None, wait_head = (\<lambda>_. None),
     timer_pool = (\<lambda>_. \<lparr>tl_jiffies = 0, tl_fn = None, tl_next = None\<rparr>), next_timer = None,
     mon_timer = (\<lambda>_. 0), moff_timer = (\<lambda>_. 0), current_DOR = 0x0C, selected = 0,
     beepcount = 0, io_ports = (\<lambda>_. 0), fs_mem = (\<lambda>_. 0)\<rparr>"

subsection \<open>Access to the running task\<close>

definition cur :: "'z sched_st_scheme \<Rightarrow> task_struct" where
  "cur s = the (task s (current s))"

definition upd_task :: "nat \<Rightarrow> (task_struct \<Rightarrow> task_struct) \<Rightarrow> 'z sched_st_scheme \<Rightarrow> 'z sched_st_scheme" where
  "upd_task i f s = s\<lparr>task := (task s)(i := map_option f (task s i))\<rparr>"

definition upd_cur :: "(task_struct \<Rightarrow> task_struct) \<Rightarrow> 'z sched_st_scheme \<Rightarrow> 'z sched_st_scheme" where
  "upd_cur f s = upd_task (current s) f s"

definition suser :: "'z sched_st_scheme \<Rightarrow> bool" where
  "suser s \<longleftrightarrow> t_euid (cur s) = 0"

definition CURRENT_TIME :: "'z sched_st_scheme \<Rightarrow> int" where
  "CURRENT_TIME s = startup_time s + jiffies s div HZ"

text \<open>The running task occupies a slot of the table; every operation below starts from here.\<close>

definition cur_ok :: "'z sched_st_scheme \<Rightarrow> bool" where
  "cur_ok s \<longleftrightarrow> current s < NR_TASKS \<and> task s (current s) \<noteq> None"

lemma task_upd_task [simp]:
  "task (upd_task i f s) = (task s)(i := map_option f (task s i))"
  by (simp add: upd_task_def)

lemma current_upd_task [simp]: "current (upd_task i f s) = current s"
  and jiffies_upd_task [simp]: "jiffies (upd_task i f s) = jiffies s"
  and wait_head_upd_task [simp]: "wait_head (upd_task i f s) = wait_head s"
  and fs_mem_upd_task [simp]: "fs_mem (upd_task i f s) = fs_mem s"
  and startup_time_upd_task [simp]: "startup_time (upd_task i f s) = startup_time s"
  by (simp_all add: upd_task_def)

lemma current_upd_cur [simp]: "current (upd_cur f s) = current s"
  and jiffies_upd_cur [simp]: "jiffies (upd_cur f s) = jiffies s"
  and wait_head_upd_cur [simp]: "wait_head (upd_cur f s) = wait_head s"
  and fs_mem_upd_cur [simp]: "fs_mem (upd_cur f s) = fs_mem s"
  by (simp_all add: upd_cur_def)

lemma task_upd_cur: "task (upd_cur f s) = (task s)(current s := map_option f (task s (current s)))"
  by (simp add: upd_cur_def)

lemma cur_upd_cur [simp]: "cur_ok s \<Longrightarrow> cur (upd_cur f s) = f (cur s)"
  by (auto simp: cur_def task_upd_cur cur_ok_def)

lemma cur_ok_upd_cur [simp]: "cur_ok (upd_cur f s) = cur_ok s"
  by (simp add: cur_ok_def task_upd_cur)

lemma cur_ok_upd_task [simp]: "cur_ok (upd_task i f s) = cur_ok s"
  by (simp add: cur_ok_def)

lemma upd_task_other [simp]: "j \<noteq> i \<Longrightarrow> task (upd_task i f s) j = task s j"
  by simp

lemma upd_cur_other [simp]: "j \<noteq> current s \<Longrightarrow> task (upd_cur f s) j = task s j"
  by (simp add: upd_cur_def)

lemma cur_Some: "cur_ok s \<Longrightarrow> task s (current s) = Some (cur s)"
  by (auto simp: cur_ok_def cur_def)

subsection \<open>User space and ports\<close>

definition get_fs_byte :: "u32 \<Rightarrow> 'z sched_st_scheme \<Rightarrow> u8" where
  "get_fs_byte a s = fs_mem s a"

definition put_fs_byte :: "u8 \<Rightarrow> u32 \<Rightarrow> 'z sched_st_scheme \<Rightarrow> 'z sched_st_scheme" where
  "put_fs_byte v a s = s\<lparr>fs_mem := (fs_mem s)(a := v)\<rparr>"

definition get_fs_long :: "u32 \<Rightarrow> 'z sched_st_scheme \<Rightarrow> u32" where
  "get_fs_long a s =
     ucast (fs_mem s a) OR push_bit 8 (ucast (fs_mem s (a + 1)))
       OR push_bit 16 (ucast (fs_mem s (a + 2))) OR push_bit 24 (ucast (fs_mem s (a + 3)))"

definition put_fs_long :: "u32 \<Rightarrow> u32 \<Rightarrow> 'z sched_st_scheme \<Rightarrow> 'z sched_st_scheme" where
  "put_fs_long v a s = s\<lparr>fs_mem := (fs_mem s)
     (a := ucast v, a + 1 := ucast (drop_bit 8 v),
      a + 2 := ucast (drop_bit 16 v), a + 3 := ucast (drop_bit 24 v))\<rparr>"

definition outb :: "u8 \<Rightarrow> nat \<Rightarrow> 'z sched_st_scheme \<Rightarrow> 'z sched_st_scheme" where
  "outb v p s = s\<lparr>io_ports := (io_ports s)(p := v)\<rparr>"

definition inb :: "nat \<Rightarrow> 'z sched_st_scheme \<Rightarrow> u8" where
  "inb p s = io_ports s p"

lemma put_get_fs_byte [simp]: "get_fs_byte a (put_fs_byte v a s) = v"
  by (simp add: get_fs_byte_def put_fs_byte_def)

lemma put_fs_byte_frame [simp]:
  "task (put_fs_byte v a s) = task s" "current (put_fs_byte v a s) = current s"
  "jiffies (put_fs_byte v a s) = jiffies s"
  by (simp_all add: put_fs_byte_def)

lemma put_fs_long_frame [simp]:
  "task (put_fs_long v a s) = task s" "current (put_fs_long v a s) = current s"
  "jiffies (put_fs_long v a s) = jiffies s"
  by (simp_all add: put_fs_long_def)

lemma word_of_bytes:
  "ucast (ucast v :: u8) OR push_bit 8 (ucast (ucast (drop_bit 8 v) :: u8))
     OR push_bit 16 (ucast (ucast (drop_bit 16 v) :: u8))
     OR push_bit 24 (ucast (ucast (drop_bit 24 v) :: u8)) = (v :: u32)"
  apply (rule bit_word_eqI)
  subgoal for n
    by (auto simp: bit_simps; cases "n < 8"; cases "n < 16"; cases "n < 24"; simp)
  done

lemma get_put_fs_long: "get_fs_long a (put_fs_long v a s) = v"
  by (simp add: get_fs_long_def put_fs_long_def word_of_bytes)

end
