(* ===== verification/Sched.thy ===== *)
theory Sched
  imports Task_Data
begin

unbundle bit_operations_syntax

section \<open>The scheduler\<close>

text \<open>
  \<^verbatim>\<open>schedule()\<close> of \<^verbatim>\<open>kernel/sched.c\<close> and the small system calls beside it.
  \<^item> \<open>check_alarm\<close>, \<open>find_next\<close>, \<open>recalc_counters\<close> and \<open>switch_to\<close> are the four stages of
    \<^verbatim>\<open>schedule()\<close>; \<open>schedule\<close> composes them with the source's \<^verbatim>\<open>while (1)\<close> as \<open>iterK\<close>.
  \<^item> The results: under \<open>sched_inv\<close> (priorities positive, time slices not negative, which the other
    operations keep) the \<^verbatim>\<open>while (1)\<close> ends, the task chosen is a runnable one with the largest
    time slice, and the idle task only runs when nothing else can.
  The flag that makes the next floating point instruction trap (\<^verbatim>\<open>clts\<close> in \<^verbatim>\<open>switch_to\<close>) is not
  modelled, and neither are \<^verbatim>\<open>show_task\<close> and \<^verbatim>\<open>show_stat\<close>, which only print.
\<close>

subsection \<open>Model\<close>

text \<open>The order in which the source walks the table: \<^verbatim>\<open>p = &LAST_TASK\<close> down to \<^verbatim>\<open>p > &FIRST_TASK\<close>.\<close>

definition task_order :: "nat list" where
  "task_order = rev [1..<NR_TASKS]"

definition alarm_task :: "int \<Rightarrow> task_struct \<Rightarrow> task_struct" where
  "alarm_task now t =
     (if t_alarm t \<noteq> 0 \<and> t_alarm t < now
      then t\<lparr>t_signal := t_signal t OR sig_bit SIGALRM, t_alarm := 0\<rparr> else t)"

definition wake_signalled :: "task_struct \<Rightarrow> task_struct" where
  "wake_signalled t =
     (if (t_signal t AND NOT (BLOCKABLE AND t_blocked t)) \<noteq> 0 \<and> t_state t = TASK_INTERRUPTIBLE
      then t\<lparr>t_state := TASK_RUNNING\<rparr> else t)"

definition check_alarm :: "nat \<Rightarrow> 'z sched_st_scheme \<Rightarrow> 'z sched_st_scheme" where
  "check_alarm i s = upd_task i (\<lambda>t. wake_signalled (alarm_task (jiffies s) t)) s"

definition scan_step :: "'z sched_st_scheme \<Rightarrow> nat \<Rightarrow> int \<times> nat \<Rightarrow> int \<times> nat" where
  "scan_step s i cn =
     (case task s i of
        None \<Rightarrow> cn
      | Some t \<Rightarrow> if t_state t = TASK_RUNNING \<and> fst cn < t_counter t then (t_counter t, i) else cn)"

definition find_next :: "'z sched_st_scheme \<Rightarrow> int \<times> nat" where
  "find_next s = fold (scan_step s) task_order (-1, 0)"

definition recalc_task :: "task_struct \<Rightarrow> task_struct" where
  "recalc_task t = t\<lparr>t_counter := t_counter t div 2 + t_priority t\<rparr>"

definition recalc_counters :: "'z sched_st_scheme \<Rightarrow> 'z sched_st_scheme" where
  "recalc_counters s = fold (\<lambda>i. upd_task i recalc_task) task_order s"

definition switch_to :: "nat \<Rightarrow> 'z sched_st_scheme \<Rightarrow> 'z sched_st_scheme" where
  "switch_to n s = (if current s = n then s else s\<lparr>current := n\<rparr>)"

definition pick_task :: "'z sched_st_scheme \<Rightarrow> (nat, 'z sched_st_scheme) outcome" where
  "pick_task s = iterK (\<lambda>(_::unit) s.
     (case find_next s of (c, n) \<Rightarrow>
        if c \<noteq> 0 then Ok (Inr n) s else Ok (Inl ()) (recalc_counters s))) () s"

definition schedule :: "'z sched_st_scheme \<Rightarrow> (unit, 'z sched_st_scheme) outcome" where
  "schedule s = bindK (pick_task (fold check_alarm task_order s)) (\<lambda>n s. Ok () (switch_to n s))"

definition sys_pause :: "'z sched_st_scheme \<Rightarrow> (int, 'z sched_st_scheme) outcome" where
  "sys_pause s = bindK (schedule (upd_cur (t_state_update (\<lambda>_. TASK_INTERRUPTIBLE)) s)) (\<lambda>_ s. Ok 0 s)"

definition sys_alarm :: "int \<Rightarrow> 'z sched_st_scheme \<Rightarrow> (int, 'z sched_st_scheme) outcome" where
  "sys_alarm seconds s =
     (let old = t_alarm (cur s);
          old = (if old \<noteq> 0 then cdiv (old - jiffies s) HZ else old)
      in Ok old (upd_cur (t_alarm_update (\<lambda>_. if seconds > 0 then jiffies s + HZ * seconds else 0)) s))"

definition sys_getpid :: "'z sched_st_scheme \<Rightarrow> int" where "sys_getpid s = t_pid (cur s)"
definition sys_getppid :: "'z sched_st_scheme \<Rightarrow> int" where "sys_getppid s = t_father (cur s)"
definition sys_getuid :: "'z sched_st_scheme \<Rightarrow> int" where "sys_getuid s = uint (t_uid (cur s))"
definition sys_geteuid :: "'z sched_st_scheme \<Rightarrow> int" where "sys_geteuid s = uint (t_euid (cur s))"
definition sys_getgid :: "'z sched_st_scheme \<Rightarrow> int" where "sys_getgid s = uint (t_gid (cur s))"
definition sys_getegid :: "'z sched_st_scheme \<Rightarrow> int" where "sys_getegid s = uint (t_egid (cur s))"

definition sys_nice :: "int \<Rightarrow> 'z sched_st_scheme \<Rightarrow> (int, 'z sched_st_scheme) outcome" where
  "sys_nice increment s =
     Ok 0 (if t_priority (cur s) - increment > 0
           then upd_cur (\<lambda>t. t\<lparr>t_priority := t_priority t - increment\<rparr>) s else s)"

subsection \<open>Choosing the next task\<close>

definition runnable :: "'z sched_st_scheme \<Rightarrow> nat \<Rightarrow> bool" where
  "runnable s i = (case task s i of None \<Rightarrow> False | Some t \<Rightarrow> t_state t = TASK_RUNNING)"

definition tslice :: "'z sched_st_scheme \<Rightarrow> nat \<Rightarrow> int" where
  "tslice s i = t_counter (the (task s i))"

lemma scan_step_eq:
  "scan_step s i cn = (if runnable s i \<and> fst cn < tslice s i then (tslice s i, i) else cn)"
  by (auto simp: scan_step_def runnable_def tslice_def split: option.splits)

text \<open>What one pass over the table computes: the best candidate, the first met among equals.\<close>

definition best_of :: "'z sched_st_scheme \<Rightarrow> nat set \<Rightarrow> int \<times> nat \<Rightarrow> bool" where
  "best_of s A cn \<longleftrightarrow>
     (cn = (-1, 0) \<and> (\<forall>j\<in>A. runnable s j \<longrightarrow> tslice s j \<le> -1)) \<or>
     (snd cn \<in> A \<and> runnable s (snd cn) \<and> tslice s (snd cn) = fst cn \<and> fst cn > -1 \<and>
      (\<forall>j\<in>A. runnable s j \<longrightarrow> tslice s j \<le> fst cn \<and> (snd cn < j \<longrightarrow> tslice s j < fst cn)))"

lemma best_of_step:
  assumes "best_of s A cn" and "\<And>a. a \<in> A \<Longrightarrow> i < a"
  shows "best_of s (insert i A) (scan_step s i cn)"
proof -
  have "\<forall>a\<in>A. i < a \<and> \<not> a < i" using assms(2) by (auto dest: less_asym)
  then show ?thesis
    using assms(1) unfolding best_of_def scan_step_eq
    by (cases "runnable s i \<and> fst cn < tslice s i") (force, auto)
qed

lemma best_of_fold:
  "sorted_wrt (>) xs \<Longrightarrow> best_of s (set xs) (fold (scan_step s) xs (-1, 0))"
proof (induction xs rule: rev_induct)
  case Nil
  then show ?case by (simp add: best_of_def)
next
  case (snoc x xs)
  then have IH: "best_of s (set xs) (fold (scan_step s) xs (-1, 0))"
    and lt: "\<And>a. a \<in> set xs \<Longrightarrow> x < a"
    by (auto simp: sorted_wrt_append)
  show ?case using best_of_step [OF IH lt] by simp
qed

lemma sorted_task_order: "sorted_wrt (>) task_order"
  by (simp add: task_order_def sorted_wrt_rev del: upt_conv_Cons_Cons upt_rec_numeral)

lemma set_task_order: "set task_order = {1..<NR_TASKS}"
  by (simp add: task_order_def del: upt_conv_Cons_Cons upt_rec_numeral)

lemma distinct_task_order: "distinct task_order"
  by (simp add: task_order_def del: upt_conv_Cons_Cons upt_rec_numeral)

lemma find_next_best: "best_of s {1..<NR_TASKS} (find_next s)"
  using best_of_fold [OF sorted_task_order] by (simp add: find_next_def set_task_order)

subsection \<open>Whole-table updates\<close>

lemma task_fold_upd_task:
  "distinct xs \<Longrightarrow> task (fold (\<lambda>i. upd_task i f) xs s) =
     (\<lambda>i. if i \<in> set xs then map_option f (task s i) else task s i)"
  by (induction xs arbitrary: s) auto

lemma fold_check_alarm_eq:
  "fold check_alarm xs s = fold (\<lambda>i. upd_task i (\<lambda>t. wake_signalled (alarm_task (jiffies s) t))) xs s"
proof (induction xs arbitrary: s)
  case (Cons x xs)
  have "jiffies (check_alarm x s) = jiffies s" by (simp add: check_alarm_def)
  then show ?case using Cons by (simp add: check_alarm_def)
qed simp

lemma task_check_alarms:
  "task (fold check_alarm task_order s) =
     (\<lambda>i. if i \<in> {1..<NR_TASKS} then map_option (\<lambda>t. wake_signalled (alarm_task (jiffies s) t)) (task s i)
          else task s i)"
  by (simp add: fold_check_alarm_eq task_fold_upd_task distinct_task_order set_task_order)

lemma task_recalc_counters:
  "task (recalc_counters s) =
     (\<lambda>i. if i \<in> {1..<NR_TASKS} then map_option recalc_task (task s i) else task s i)"
  by (simp add: recalc_counters_def task_fold_upd_task distinct_task_order set_task_order)

lemma current_fold_upd_task: "current (fold (\<lambda>i. upd_task i f) xs s) = current s"
  by (rule fold_frame) simp

lemma current_recalc [simp]: "current (recalc_counters s) = current s"
  by (simp add: recalc_counters_def current_fold_upd_task)

lemma current_check_alarms [simp]: "current (fold check_alarm xs s) = current s"
  by (simp add: fold_check_alarm_eq current_fold_upd_task)

subsection \<open>The invariant of the time slices\<close>

definition task_inv :: "task_struct \<Rightarrow> bool" where
  "task_inv t \<longleftrightarrow> t_priority t > 0 \<and> 0 \<le> t_counter t \<and> t_counter t \<le> 2 * t_priority t"

definition sched_inv :: "'z sched_st_scheme \<Rightarrow> bool" where
  "sched_inv s \<longleftrightarrow> (\<forall>i t. i \<in> {1..<NR_TASKS} \<longrightarrow> task s i = Some t \<longrightarrow> task_inv t)"

lemma task_inv_recalc: "task_inv t \<Longrightarrow> task_inv (recalc_task t) \<and> t_counter (recalc_task t) > 0"
  by (auto simp: task_inv_def recalc_task_def)

lemma task_inv_alarm [simp]: "task_inv (wake_signalled (alarm_task now t)) = task_inv t"
  by (simp add: task_inv_def wake_signalled_def alarm_task_def)

lemma sched_inv_recalc: "sched_inv s \<Longrightarrow> sched_inv (recalc_counters s)"
  by (auto simp: sched_inv_def task_recalc_counters dest: task_inv_recalc)

lemma sched_inv_check_alarms: "sched_inv s \<Longrightarrow> sched_inv (fold check_alarm task_order s)"
  by (auto simp: sched_inv_def task_check_alarms)

lemma sched_inv_current [simp]: "sched_inv (s\<lparr>current := n\<rparr>) = sched_inv s"
  by (simp add: sched_inv_def)

lemma sched_inv_wait_head [simp]: "sched_inv (s\<lparr>wait_head := w\<rparr>) = sched_inv s"
  by (simp add: sched_inv_def)

lemma task_inv_state [simp]: "task_inv (t\<lparr>t_state := v\<rparr>) = task_inv t"
  by (simp add: task_inv_def)

lemma sched_inv_upd_task:
  "sched_inv s \<Longrightarrow> (\<And>t. task_inv t \<Longrightarrow> task_inv (f t)) \<Longrightarrow> sched_inv (upd_task i f s)"
  by (auto simp: sched_inv_def split: if_splits)

lemma sched_inv_upd_cur:
  "sched_inv s \<Longrightarrow> (\<And>t. task_inv t \<Longrightarrow> task_inv (f t)) \<Longrightarrow> sched_inv (upd_cur f s)"
  unfolding upd_cur_def by (rule sched_inv_upd_task)

lemma sched_inv_slice: "sched_inv s \<Longrightarrow> i \<in> {1..<NR_TASKS} \<Longrightarrow> runnable s i \<Longrightarrow> 0 \<le> tslice s i"
  by (force simp: sched_inv_def runnable_def tslice_def task_inv_def split: option.splits)

lemma runnable_recalc: "runnable (recalc_counters s) i = runnable s i"
  by (auto simp: runnable_def task_recalc_counters recalc_task_def split: option.splits)

lemma slice_recalc_pos:
  "sched_inv s \<Longrightarrow> i \<in> {1..<NR_TASKS} \<Longrightarrow> runnable s i \<Longrightarrow> 0 < tslice (recalc_counters s) i"
  by (auto simp: sched_inv_def runnable_def tslice_def task_recalc_counters
      dest: task_inv_recalc split: option.splits)

text \<open>What \<^verbatim>\<open>schedule()\<close> promises about the task it picks.\<close>

definition good_choice :: "'z sched_st_scheme \<Rightarrow> nat \<Rightarrow> bool" where
  "good_choice s n \<longleftrightarrow>
     (if n = 0 then \<forall>j\<in>{1..<NR_TASKS}. \<not> runnable s j
      else n < NR_TASKS \<and> runnable s n \<and> 0 < tslice s n \<and>
        (\<forall>j\<in>{1..<NR_TASKS}. runnable s j \<longrightarrow>
           tslice s j \<le> tslice s n \<and> (n < j \<longrightarrow> tslice s j < tslice s n)))"

lemma find_next_good:
  assumes "sched_inv s" and "find_next s = (c, n)" and "c \<noteq> 0"
  shows "good_choice s n"
proof -
  from find_next_best [of s] assms(2) have "best_of s {1..<NR_TASKS} (c, n)" by simp
  then consider "c = -1" "n = 0" "\<forall>j\<in>{1..<NR_TASKS}. runnable s j \<longrightarrow> tslice s j \<le> -1"
    | "n \<in> {1..<NR_TASKS}" "runnable s n" "tslice s n = c" "c > -1"
      "\<forall>j\<in>{1..<NR_TASKS}. runnable s j \<longrightarrow> tslice s j \<le> c \<and> (n < j \<longrightarrow> tslice s j < c)"
    unfolding best_of_def by auto
  then show ?thesis
  proof cases
    case 1
    then show ?thesis using sched_inv_slice [OF assms(1)] by (force simp: good_choice_def)
  next
    case 2
    then show ?thesis using assms(3) by (auto simp: good_choice_def)
  qed
qed

lemma find_next_after_recalc:
  assumes "sched_inv s" and "fst (find_next s) = 0"
  shows "fst (find_next (recalc_counters s)) \<noteq> 0"
proof -
  from find_next_best [of s] assms(2)
  have r: "snd (find_next s) \<in> {1..<NR_TASKS}" "runnable s (snd (find_next s))"
    unfolding best_of_def by auto
  let ?n = "snd (find_next s)" and ?t = "recalc_counters s"
  have "runnable ?t ?n" "0 < tslice ?t ?n"
    using r slice_recalc_pos [OF assms(1)] by (auto simp: runnable_recalc)
  with find_next_best [of ?t] r(1) show ?thesis
    unfolding best_of_def by force
qed

lemma pick_task_ok:
  assumes "sched_inv s"
  shows "okK (pick_task s) (\<lambda>n t. (t = s \<or> t = recalc_counters s) \<and> sched_inv t \<and> good_choice t n)"
proof (cases "fst (find_next s) = 0")
  case False
  then show ?thesis
    using find_next_good [OF assms] assms
    by (cases "find_next s") (auto simp: pick_task_def iterK_unfold)
next
  case True
  let ?t = "recalc_counters s"
  have inv: "sched_inv ?t" by (rule sched_inv_recalc [OF assms])
  have "fst (find_next ?t) \<noteq> 0" by (rule find_next_after_recalc [OF assms True])
  then show ?thesis
    using find_next_good [OF inv] inv True
    by (cases "find_next s", cases "find_next ?t") (auto simp: pick_task_def iterK_unfold)
qed

lemma task_switch_to [simp]: "task (switch_to n s) = task s"
  by (simp add: switch_to_def)

lemma good_choice_switch_to [simp]: "good_choice (switch_to n s) m = good_choice s m"
  by (simp add: good_choice_def runnable_def tslice_def)

lemma sched_inv_switch_to [simp]: "sched_inv (switch_to n s) = sched_inv s"
  by (simp add: switch_to_def)

lemma current_switch_to [simp]: "current (switch_to n s) = n"
  by (simp add: switch_to_def)

lemma schedule_ok:
  assumes "sched_inv s"
  shows "okK (schedule s) (\<lambda>_ t. sched_inv t \<and> good_choice t (current t) \<and>
     (task t = task (fold check_alarm task_order s) \<or>
      task t = task (recalc_counters (fold check_alarm task_order s))))"
  unfolding schedule_def okK_bind
  by (rule okK_mono [OF pick_task_ok [OF sched_inv_check_alarms [OF assms]]]) auto

lemma INIT_TASK_simps [simp]:
  "t_alarm (INIT_TASK a) = 0" "t_signal (INIT_TASK a) = 0" "t_state (INIT_TASK a) = TASK_RUNNING"
  "t_counter (INIT_TASK a) = 15" "t_priority (INIT_TASK a) = 15" "t_euid (INIT_TASK a) = 0"
  by (simp_all add: INIT_TASK_def)

text \<open>When no alarm is set and no signal is pending, only the time slices can change.\<close>

definition quiet :: "'z sched_st_scheme \<Rightarrow> bool" where
  "quiet s \<longleftrightarrow> (\<forall>i t. task s i = Some t \<longrightarrow> t_alarm t = 0 \<and> t_signal t = 0)"

lemma no_alarm_no_signal:
  "t_alarm t = 0 \<Longrightarrow> t_signal t = 0 \<Longrightarrow> wake_signalled (alarm_task now t) = t"
  by (simp add: wake_signalled_def alarm_task_def)

lemma quiet_check_alarms: "quiet s \<Longrightarrow> task (fold check_alarm task_order s) = task s"
  by (rule ext) (auto simp: task_check_alarms quiet_def no_alarm_no_signal map_option_case split: option.splits)

lemma quiet_recalc: "quiet s \<Longrightarrow> quiet (recalc_counters s)"
  by (auto simp: quiet_def task_recalc_counters recalc_task_def split: if_splits)

lemma task_recalc_cong:
  assumes "task s = task s'"
  shows "task (recalc_counters s) = task (recalc_counters s')"
  unfolding task_recalc_counters assms ..

lemma schedule_quiet:
  assumes "sched_inv s" and "quiet s"
  shows "okK (schedule s) (\<lambda>_ t. sched_inv t \<and> good_choice t (current t) \<and> quiet t \<and>
     (\<forall>i. runnable t i = runnable s i))"
proof (rule okK_mono [OF schedule_ok [OF assms(1)]], elim conjE disjE)
  fix x :: unit and t
  assume "sched_inv t" "good_choice t (current t)" and e: "task t = task (fold check_alarm task_order s)"
  then show "sched_inv t \<and> good_choice t (current t) \<and> quiet t \<and> (\<forall>i. runnable t i = runnable s i)"
    using assms(2) by (simp add: quiet_check_alarms quiet_def runnable_def)
next
  fix x :: unit and t
  assume "sched_inv t" "good_choice t (current t)"
    and e: "task t = task (recalc_counters (fold check_alarm task_order s))"
  moreover have "task t = task (recalc_counters s)"
    using e task_recalc_cong [OF quiet_check_alarms [OF assms(2)]] by simp
  moreover then have "quiet t" "\<forall>i. runnable t i = runnable s i"
    using quiet_recalc [OF assms(2)] runnable_recalc [of s] by (simp_all add: quiet_def runnable_def)
  ultimately show "sched_inv t \<and> good_choice t (current t) \<and> quiet t \<and> (\<forall>i. runnable t i = runnable s i)"
    by simp
qed

subsection \<open>Properties\<close>


text \<open>
  The witness: task 1 has used up its slice, task 2 has 7 ticks left, task 3 sleeps with a longer
  slice. The scheduler runs task 2.
\<close>

definition sched_example :: sched_st where
  "sched_example = (sched_boot 0)\<lparr>task := [0 \<mapsto> INIT_TASK 0, 1 \<mapsto> (INIT_TASK 0)\<lparr>t_counter := 0\<rparr>,
     2 \<mapsto> (INIT_TASK 0)\<lparr>t_counter := 7\<rparr>,
     3 \<mapsto> (INIT_TASK 0)\<lparr>t_counter := 12, t_state := TASK_UNINTERRUPTIBLE\<rparr>]\<rparr>"

lemma task_sched_example:
  "task sched_example i = (if i = 0 then Some (INIT_TASK 0)
     else if i = 1 then Some ((INIT_TASK 0)\<lparr>t_counter := 0\<rparr>)
     else if i = 2 then Some ((INIT_TASK 0)\<lparr>t_counter := 7\<rparr>)
     else if i = 3 then Some ((INIT_TASK 0)\<lparr>t_counter := 12, t_state := TASK_UNINTERRUPTIBLE\<rparr>)
     else None)"
  by (simp add: sched_example_def)

lemma sched_example_inv: "sched_inv sched_example"
  by (auto simp: sched_inv_def task_sched_example task_inv_def split: if_splits)

lemma sched_example_alarms: "task (fold check_alarm task_order sched_example) = task sched_example"
  by (rule quiet_check_alarms) (simp add: quiet_def task_sched_example)

lemma sched_example_next: "find_next (fold check_alarm task_order sched_example) = (7, 2)"
proof -
  let ?s = "fold check_alarm task_order sched_example"
  have run: "runnable ?s j \<longleftrightarrow> j = 0 \<or> j = 1 \<or> j = 2" for j
    by (simp add: runnable_def sched_example_alarms task_sched_example)
  have sl: "tslice ?s 1 = 0" "tslice ?s 2 = 7"
    by (simp_all add: tslice_def sched_example_alarms task_sched_example)
  obtain c n where cn: "find_next ?s = (c, n)" by (cases "find_next ?s")
  from find_next_best [of ?s] consider
      "\<forall>j\<in>{1..<NR_TASKS}. runnable ?s j \<longrightarrow> tslice ?s j \<le> -1"
    | "n \<in> {1..<NR_TASKS}" "runnable ?s n" "tslice ?s n = c"
      "\<forall>j\<in>{1..<NR_TASKS}. runnable ?s j \<longrightarrow> tslice ?s j \<le> c"
    unfolding best_of_def cn by auto
  then show ?thesis
  proof cases
    case 1
    then have "tslice ?s 2 \<le> -1" using run [of 2] by (auto dest: bspec [where x = 2])
    then show ?thesis using sl by simp
  next
    case 2
    have "tslice ?s 2 \<le> c" using 2(4) run [of 2] by (auto dest: bspec [where x = 2])
    moreover have "n = 1 \<or> n = 2" using 2(1,2) run by auto
    ultimately show ?thesis using 2(3) sl cn by auto
  qed
qed


end
