(* ===== verification/Wait_Queue.thy ===== *)
theory Wait_Queue
  imports Sched
begin

section \<open>Sleeping and waking\<close>

text \<open>
  \<^verbatim>\<open>sleep_on\<close>, \<^verbatim>\<open>interruptible_sleep_on\<close> and \<^verbatim>\<open>wake_up\<close> of \<^verbatim>\<open>kernel/sched.c\<close>.

  A wait queue has no links of its own: the head variable points to the last task that went to
  sleep, and the task that slept before it is remembered only in the local variable \<^verbatim>\<open>tmp\<close> on that
  task's kernel stack. Each function is cut at its call of \<^verbatim>\<open>schedule()\<close>: \<open>sleep_on_enter\<close> is
  the part before it (with the switch to another task), \<open>sleep_on_leave\<close> the part after it, and the
  value of \<^verbatim>\<open>tmp\<close> travels between the two. The step relation \<open>wq_step\<close> interleaves them in any
  order; its component \<open>pend\<close> holds the stack frames (queue and \<^verbatim>\<open>tmp\<close>) of the tasks that are
  inside \<^verbatim>\<open>sleep_on\<close>. The result is that no wake-up is lost.
\<close>

subsection \<open>Model\<close>

definition sleep_on_enter ::
    "waitq \<Rightarrow> 'z sched_st_scheme \<Rightarrow> (nat option, 'z sched_st_scheme) outcome" where
  "sleep_on_enter q s =
     (if current s = 0 then Panic ''task[0] trying to sleep''
      else let tmp = wait_head s q;
               s = s\<lparr>wait_head := (wait_head s)(q := Some (current s))\<rparr>;
               s = upd_cur (t_state_update (\<lambda>_. TASK_UNINTERRUPTIBLE)) s
           in bindK (schedule s) (\<lambda>_ s. Ok tmp s))"

definition sleep_on_leave :: "nat option \<Rightarrow> 'z sched_st_scheme \<Rightarrow> 'z sched_st_scheme" where
  "sleep_on_leave tmp s =
     (case tmp of None \<Rightarrow> s | Some j \<Rightarrow> upd_task j (t_state_update (\<lambda>_. TASK_RUNNING)) s)"

definition wake_up :: "waitq \<Rightarrow> 'z sched_st_scheme \<Rightarrow> 'z sched_st_scheme" where
  "wake_up q s =
     (case wait_head s q of
        None \<Rightarrow> s
      | Some h \<Rightarrow> (upd_task h (t_state_update (\<lambda>_. TASK_RUNNING)) s)
                   \<lparr>wait_head := (wait_head s)(q := None)\<rparr>)"

text \<open>
  \<^verbatim>\<open>interruptible_sleep_on\<close>: \<open>isleep_enter\<close> goes to sleep for the first time, \<open>isleep_resume\<close> is
  what runs after each \<^verbatim>\<open>schedule()\<close>. It answers \<open>True\<close> when the task leaves, and otherwise wakes
  the task at the head, goes back to sleep (\<^verbatim>\<open>goto repeat\<close>) and answers \<open>False\<close>.
\<close>

definition isleep_enter ::
    "waitq \<Rightarrow> 'z sched_st_scheme \<Rightarrow> (nat option, 'z sched_st_scheme) outcome" where
  "isleep_enter q s =
     (if current s = 0 then Panic ''task[0] trying to sleep''
      else let tmp = wait_head s q;
               s = s\<lparr>wait_head := (wait_head s)(q := Some (current s))\<rparr>;
               s = upd_cur (t_state_update (\<lambda>_. TASK_INTERRUPTIBLE)) s
           in bindK (schedule s) (\<lambda>_ s. Ok tmp s))"

definition isleep_resume ::
    "waitq \<Rightarrow> nat option \<Rightarrow> 'z sched_st_scheme \<Rightarrow> (bool, 'z sched_st_scheme) outcome" where
  "isleep_resume q tmp s =
     (case wait_head s q of
        Some h \<Rightarrow>
          if h \<noteq> current s
          then bindK (schedule (upd_cur (t_state_update (\<lambda>_. TASK_INTERRUPTIBLE))
                        (upd_task h (t_state_update (\<lambda>_. TASK_RUNNING)) s)))
                 (\<lambda>_ s. Ok False s)
          else Ok True (sleep_on_leave tmp (s\<lparr>wait_head := (wait_head s)(q := None)\<rparr>))
      | None \<Rightarrow> Ok True (sleep_on_leave tmp s))"

subsection \<open>Interleaved executions\<close>

type_synonym frames = "nat \<Rightarrow> (waitq \<times> nat option) option"

inductive wq_step ::
    "'z sched_st_scheme \<times> frames \<Rightarrow> 'z sched_st_scheme \<times> frames \<Rightarrow> bool" where
  enter: "pend (current s) = None \<Longrightarrow> sleep_on_enter q s = Ok tmp s' \<Longrightarrow>
     wq_step (s, pend) (s', pend(current s \<mapsto> (q, tmp)))"
| leave: "pend (current s) = Some (q, tmp) \<Longrightarrow>
     wq_step (s, pend) (sleep_on_leave tmp s, pend(current s := None))"
| wake: "wq_step (s, pend) (wake_up q s, pend)"
| resched: "schedule s = Ok () s' \<Longrightarrow> wq_step (s, pend) (s', pend)"

inductive wq_reach :: "'z sched_st_scheme \<times> frames \<Rightarrow> bool" where
  start: "wait_head s = (\<lambda>_. None) \<Longrightarrow> wq_reach (s, \<lambda>_. None)"
| more: "wq_reach c \<Longrightarrow> wq_step c c' \<Longrightarrow> wq_reach c'"

definition asleep :: "'z sched_st_scheme \<Rightarrow> nat \<Rightarrow> bool" where
  "asleep s i = (case task s i of None \<Rightarrow> False | Some t \<Rightarrow> t_state t = TASK_UNINTERRUPTIBLE)"

text \<open>
  \<open>covered s pend q i\<close>: some wake-up of \<open>i\<close> is on its way. Either \<open>i\<close> is the head of queue \<open>q\<close>, so
  \<^verbatim>\<open>wake_up(q)\<close> makes it run; or a task \<open>j\<close> inside \<^verbatim>\<open>sleep_on(q)\<close> remembers \<open>i\<close> in its \<^verbatim>\<open>tmp\<close>, and
  \<open>j\<close> has been woken already or is covered itself. \<open>cascade\<close> is the same without the queue head:
  it follows only tasks that are already awake.
\<close>

inductive cascade :: "'z sched_st_scheme \<Rightarrow> frames \<Rightarrow> waitq \<Rightarrow> nat \<Rightarrow> bool"
  for s pend q where
  woken: "pend j = Some (q, Some i) \<Longrightarrow> \<not> asleep s j \<Longrightarrow> cascade s pend q i"
| chain: "cascade s pend q j \<Longrightarrow> pend j = Some (q, Some i) \<Longrightarrow> cascade s pend q i"

inductive covered :: "'z sched_st_scheme \<Rightarrow> frames \<Rightarrow> waitq \<Rightarrow> nat \<Rightarrow> bool"
  for s pend q where
  head: "wait_head s q = Some i \<Longrightarrow> covered s pend q i"
| woken: "pend j = Some (q, Some i) \<Longrightarrow> \<not> asleep s j \<Longrightarrow> covered s pend q i"
| chain: "covered s pend q j \<Longrightarrow> pend j = Some (q, Some i) \<Longrightarrow> covered s pend q i"

definition no_lost_wakeup :: "'z sched_st_scheme \<times> frames \<Rightarrow> bool" where
  "no_lost_wakeup = (\<lambda>(s, pend). \<forall>i q tmp. pend i = Some (q, tmp) \<longrightarrow> asleep s i \<longrightarrow> covered s pend q i)"

inductive_cases wq_stepE: "wq_step (s, pend) (s', pend')"

subsection \<open>Lemmas\<close>

lemma asleep_upd_running [simp]:
  "asleep (upd_task j (t_state_update (\<lambda>_. TASK_RUNNING)) s) i = (asleep s i \<and> i \<noteq> j)"
  by (auto simp: asleep_def split: option.splits)

lemma wake_signalled_state:
  "t_state (wake_signalled (alarm_task n t)) = TASK_UNINTERRUPTIBLE \<longleftrightarrow> t_state t = TASK_UNINTERRUPTIBLE"
  by (simp add: wake_signalled_def alarm_task_def)

lemma asleep_check_alarms: "asleep (fold check_alarm task_order s) i = asleep s i"
  by (auto simp: asleep_def task_check_alarms wake_signalled_state split: option.splits)

lemma asleep_recalc: "asleep (recalc_counters s) i = asleep s i"
  by (auto simp: asleep_def task_recalc_counters recalc_task_def split: option.splits)

lemma wait_head_recalc [simp]: "wait_head (recalc_counters s) = wait_head s"
  unfolding recalc_counters_def by (rule fold_frame) simp

lemma wait_head_check_alarms [simp]: "wait_head (fold check_alarm xs s) = wait_head s"
  by (rule fold_frame) (simp add: check_alarm_def)

lemma asleep_switch_to [simp]: "asleep (switch_to n s) i = asleep s i"
  by (simp add: asleep_def)

lemma wait_head_switch_to [simp]: "wait_head (switch_to n s) = wait_head s"
  by (simp add: switch_to_def)

lemma pick_task_keeps:
  "wpK (pick_task s) (\<lambda>n t. wait_head t = wait_head s \<and> (\<forall>i. asleep t i = asleep s i))"
  unfolding pick_task_def
  by (rule wpK_iterK [where I = "\<lambda>_ t. wait_head t = wait_head s \<and> (\<forall>i. asleep t i = asleep s i)"])
    (auto simp: asleep_recalc split: prod.splits)

lemma schedule_keeps:
  assumes "schedule s = Ok () s'"
  shows "wait_head s' = wait_head s" and "asleep s' i = asleep s i"
proof -
  have "wpK (schedule s) (\<lambda>_ t. wait_head t = wait_head s \<and> (\<forall>i. asleep t i = asleep s i))"
    unfolding schedule_def wpK_bind
    by (rule wpK_mono [OF pick_task_keeps]) (simp add: asleep_check_alarms)
  with assms show "wait_head s' = wait_head s" and "asleep s' i = asleep s i" by auto
qed

lemma sleep_on_enter_keeps:
  assumes "sleep_on_enter q s = Ok tmp s'"
  shows "tmp = wait_head s q" and "wait_head s' = (wait_head s)(q := Some (current s))"
    and "i \<noteq> current s \<Longrightarrow> asleep s' i = asleep s i"
proof -
  let ?u = "upd_cur (t_state_update (\<lambda>_. TASK_UNINTERRUPTIBLE))
              (s\<lparr>wait_head := (wait_head s)(q := Some (current s))\<rparr>)"
  from assms have sch: "schedule ?u = Ok () s'" and "tmp = wait_head s q"
    by (auto simp: sleep_on_enter_def Let_def bindK_eq_Ok_iff split: if_splits)
  then show "tmp = wait_head s q" and "wait_head s' = (wait_head s)(q := Some (current s))"
    using schedule_keeps(1) [OF sch] by simp_all
  show "asleep s' i = asleep s i" if "i \<noteq> current s"
    using schedule_keeps(2) [OF sch, of i] that by (simp add: asleep_def upd_cur_def)
qed

text \<open>
  The three steps that change the queues: whoever was covered before is covered afterwards, or is
  awake.
\<close>

lemma covered_enter:
  assumes "covered s pend q x" and en: "sleep_on_enter q0 s = Ok tmp s'" and free: "pend (current s) = None"
  shows "covered s' (pend(current s \<mapsto> (q0, tmp))) q x"
  using assms(1)
proof (induction rule: covered.induct)
  case (head i)
  show ?case
  proof (cases "q = q0")
    case True
    have "covered s' (pend(current s \<mapsto> (q0, tmp))) q (current s)"
      using sleep_on_enter_keeps(2) [OF en] True by (intro covered.head) simp
    then show ?thesis
      by (rule covered.chain) (use head sleep_on_enter_keeps(1) [OF en] True in simp)
  next
    case False
    then show ?thesis using head sleep_on_enter_keeps(2) [OF en] by (intro covered.head) simp
  qed
next
  case (woken j i)
  then have "j \<noteq> current s" using free by auto
  then show ?case using woken sleep_on_enter_keeps(3) [OF en] by (intro covered.woken [of _ j]) auto
next
  case (chain j i)
  then have "j \<noteq> current s" using free by auto
  then have "(pend(current s \<mapsto> (q0, tmp))) j = Some (q, Some i)" using chain.hyps(2) by simp
  with chain.IH show ?case by (rule covered.chain)
qed

lemma covered_leave:
  assumes "covered s pend q x" and pc: "pend (current s) = Some (q0, tmp)"
  shows "covered (sleep_on_leave tmp s) (pend(current s := None)) q x \<or>
         \<not> asleep (sleep_on_leave tmp s) x"
  using assms(1)
proof (induction rule: covered.induct)
  case (head i)
  then show ?case by (auto intro!: covered.head simp: sleep_on_leave_def split: option.splits)
next
  case (woken j i)
  show ?case
  proof (cases "j = current s")
    case True
    then show ?thesis using woken pc by (simp add: sleep_on_leave_def)
  next
    case False
    then have "\<not> asleep (sleep_on_leave tmp s) j"
      using woken by (auto simp: sleep_on_leave_def split: option.splits)
    then show ?thesis using False woken by (auto intro: covered.woken)
  qed
next
  case (chain j i)
  show ?case
  proof (cases "j = current s")
    case True
    then show ?thesis using chain pc by (simp add: sleep_on_leave_def)
  next
    case False
    then show ?thesis using chain by (auto intro: covered.chain covered.woken)
  qed
qed

lemma covered_wake:
  assumes "covered s pend q x"
  shows "covered (wake_up q0 s) pend q x \<or> \<not> asleep (wake_up q0 s) x"
  using assms
proof (induction rule: covered.induct)
  case (head i)
  then show ?case
    by (cases "q = q0") (auto intro!: covered.head simp: wake_up_def asleep_def split: option.splits)
next
  case (woken j i)
  then have "\<not> asleep (wake_up q0 s) j"
    by (auto simp: wake_up_def asleep_def split: option.splits if_splits)
  then show ?case using woken by (auto intro: covered.woken)
next
  case (chain j i)
  then show ?case by (auto intro: covered.chain covered.woken)
qed

lemma covered_resched:
  assumes "covered s pend q x" and "schedule s = Ok () s'"
  shows "covered s' pend q x"
  using assms(1)
  by (induction rule: covered.induct)
    (auto intro: covered.intros simp: schedule_keeps [OF assms(2)])

lemma asleep_wake_up: "asleep (wake_up q s) i \<Longrightarrow> asleep s i"
  by (auto simp: wake_up_def asleep_def split: option.splits if_splits)

lemma asleep_leave: "asleep (sleep_on_leave tmp s) i \<Longrightarrow> asleep s i"
  by (auto simp: sleep_on_leave_def split: option.splits)

lemma wq_step_no_lost_wakeup:
  assumes "wq_step c c'" and "no_lost_wakeup c"
  shows "no_lost_wakeup c'"
  using assms
proof (induction rule: wq_step.induct)
  case (enter pend s q tmp s')
  show ?case unfolding no_lost_wakeup_def
  proof (clarify)
    fix i q1 t1
    assume p: "(pend(current s \<mapsto> (q, tmp))) i = Some (q1, t1)" and a: "asleep s' i"
    show "covered s' (pend(current s \<mapsto> (q, tmp))) q1 i"
    proof (cases "i = current s")
      case True
      then show ?thesis
        using p sleep_on_enter_keeps(2) [OF enter(2)] by (intro covered.head) auto
    next
      case False
      then have "covered s pend q1 i"
        using p a enter.prems sleep_on_enter_keeps(3) [OF enter(2)] by (auto simp: no_lost_wakeup_def)
      then show ?thesis using covered_enter enter(1,2) by blast
    qed
  qed
next
  case (leave pend s q tmp)
  show ?case unfolding no_lost_wakeup_def
  proof (clarify)
    fix i q1 t1
    assume p: "(pend(current s := None)) i = Some (q1, t1)" and a: "asleep (sleep_on_leave tmp s) i"
    then have "covered s pend q1 i"
      using leave.prems asleep_leave [OF a] by (auto simp: no_lost_wakeup_def split: if_splits)
    then show "covered (sleep_on_leave tmp s) (pend(current s := None)) q1 i"
      using covered_leave [of s pend q1 i q tmp] leave.hyps a by simp
  qed
next
  case (wake s pend q)
  show ?case unfolding no_lost_wakeup_def
  proof (clarify)
    fix i q1 t1
    assume p: "pend i = Some (q1, t1)" and a: "asleep (wake_up q s) i"
    then have "covered s pend q1 i"
      using wake.prems asleep_wake_up [OF a] by (auto simp: no_lost_wakeup_def)
    then show "covered (wake_up q s) pend q1 i"
      using covered_wake a by blast
  qed
next
  case (resched s s' pend)
  then show ?case
    by (auto simp: no_lost_wakeup_def schedule_keeps intro: covered_resched)
qed

lemma covered_no_head: "covered s pend q i \<Longrightarrow> wait_head s q = None \<Longrightarrow> cascade s pend q i"
  by (induction rule: covered.induct) (auto intro: cascade.intros)

lemma wq_reach_no_lost_wakeup: "wq_reach c \<Longrightarrow> no_lost_wakeup c"
  by (induction rule: wq_reach.induct) (auto simp: no_lost_wakeup_def dest: wq_step_no_lost_wakeup)

subsection \<open>Properties\<close>


text \<open>
  The witness: tasks 1 and 2 go to sleep one after the other on the queue of the buffer cache, then
  the queue is woken. Task 2 runs, and task 1 is next in the cascade.
\<close>

lemma sleep_on_enter_quiet:
  assumes "sched_inv s" and "quiet s" and "cur_ok s" and "current s \<noteq> 0"
  shows "okK (sleep_on_enter q s) (\<lambda>tmp t. sched_inv t \<and> quiet t \<and> asleep t (current s) \<and>
     good_choice t (current t) \<and> (\<forall>i. runnable t i = (runnable s i \<and> i \<noteq> current s)))"
proof -
  let ?u = "upd_cur (t_state_update (\<lambda>_. TASK_UNINTERRUPTIBLE))
              (s\<lparr>wait_head := (wait_head s)(q := Some (current s))\<rparr>)"
  have "sched_inv ?u" using assms(1) by (intro sched_inv_upd_cur) simp_all
  moreover have "quiet ?u" "asleep ?u (current s)"
    "\<And>i. runnable ?u i = (runnable s i \<and> i \<noteq> current s)"
    using assms(2-4) by (auto simp: quiet_def upd_cur_def asleep_def runnable_def
        cur_ok_def split: option.splits if_splits)
  ultimately have u: "sched_inv ?u" "quiet ?u" "asleep ?u (current s)"
    "\<And>i. runnable ?u i = (runnable s i \<and> i \<noteq> current s)" by blast+
  from schedule_quiet [OF u(1,2)] obtain t where t: "schedule ?u = Ok () t" "sched_inv t" "quiet t"
    "good_choice t (current t)" "\<forall>i. runnable t i = runnable ?u i"
    by (auto simp: okK_iff)
  then show ?thesis
    using assms(4) u(3,4) schedule_keeps(2) [OF t(1)] by (simp add: sleep_on_enter_def)
qed

lemma sleep_on_enter_quietE:
  assumes "sched_inv s" and "quiet s" and "cur_ok s" and "current s \<noteq> 0"
  obtains tmp t where "sleep_on_enter q s = Ok tmp t" and "sched_inv t" and "quiet t"
    and "asleep t (current s)" and "good_choice t (current t)"
    and "\<And>i. runnable t i = (runnable s i \<and> i \<noteq> current s)"
  using sleep_on_enter_quiet [OF assms, of q] that by (cases "sleep_on_enter q s") auto

definition wq_example :: sched_st where
  "wq_example = (sched_boot 0)\<lparr>task := [0 \<mapsto> INIT_TASK 0, 1 \<mapsto> INIT_TASK 0, 2 \<mapsto> INIT_TASK 0], current := 1\<rparr>"

lemma good_choice_only: "good_choice t n \<Longrightarrow> \<forall>i. runnable t i = (i = 0 \<or> i = 2) \<Longrightarrow> n = 2"
  by (auto simp: good_choice_def split: if_splits)

lemma runnable_Some: "runnable s i \<Longrightarrow> task s i \<noteq> None"
  by (auto simp: runnable_def split: option.splits)

lemma wq_example_run:
  "\<exists>s pend. wq_reach (s :: sched_st, pend) \<and> pend 1 = Some (WqBufferWait, None) \<and>
     pend 2 = Some (WqBufferWait, Some 1) \<and> wait_head s WqBufferWait = Some 2 \<and> asleep s 1"
proof -
  have s0: "sched_inv wq_example" "quiet wq_example" "cur_ok wq_example" "current wq_example = 1"
    "\<And>i. runnable wq_example i = (i = 0 \<or> i = 1 \<or> i = 2)"
    "wait_head wq_example = (\<lambda>_. None)"
    by (auto simp: wq_example_def sched_inv_def task_inv_def quiet_def cur_ok_def runnable_def
        sched_boot_def split: if_splits)
  have n0: "current wq_example \<noteq> 0" using s0(4) by simp
  obtain tmp s1 where e1: "sleep_on_enter WqBufferWait wq_example = Ok tmp s1"
    and s1: "sched_inv s1" "quiet s1" "asleep s1 (current wq_example)" "good_choice s1 (current s1)"
    and r: "\<And>i. runnable s1 i = (runnable wq_example i \<and> i \<noteq> current wq_example)"
    by (rule sleep_on_enter_quietE [OF s0(1-3) n0, of WqBufferWait]) (rule that)
  have r1: "\<forall>i. runnable s1 i = (i = 0 \<or> i = 2)" unfolding r s0(4,5) by auto
  have c1: "current s1 = 2" using good_choice_only [OF s1(4) r1] .
  have ok1: "cur_ok s1" using c1 r1 runnable_Some [of s1 2] by (simp add: cur_ok_def)
  have n1: "current s1 \<noteq> 0" using c1 by simp
  obtain tmp' s2 where e2: "sleep_on_enter WqBufferWait s1 = Ok tmp' s2"
    by (rule sleep_on_enter_quietE [OF s1(1,2) ok1 n1, of WqBufferWait]) (rule that)
  have k1: "tmp = None" "wait_head s1 WqBufferWait = Some 1"
    using sleep_on_enter_keeps(1,2) [OF e1] s0(4,6) by simp_all
  have k2: "tmp' = Some 1" "wait_head s2 WqBufferWait = Some 2" "asleep s2 1"
    using sleep_on_enter_keeps [OF e2] k1 c1 s1(3) s0(4) by simp_all
  have "wq_reach (s1, [1 \<mapsto> (WqBufferWait, None)])"
    using wq_reach.more [OF wq_reach.start [OF s0(6)] wq_step.enter [OF _ e1]] s0(4) k1 by simp
  then have "wq_reach (s2, [1 \<mapsto> (WqBufferWait, None), 2 \<mapsto> (WqBufferWait, Some 1)])"
    using wq_reach.more [OF _ wq_step.enter [OF _ e2]] c1 k2(1) by simp
  moreover have "([1 \<mapsto> (WqBufferWait, None), 2 \<mapsto> (WqBufferWait, Some 1)] :: frames) 1 = Some (WqBufferWait, None)"
    "([1 \<mapsto> (WqBufferWait, None), 2 \<mapsto> (WqBufferWait, Some 1)] :: frames) 2 = Some (WqBufferWait, Some 1)"
    by simp_all
  ultimately show ?thesis using k2(2,3) by blast
qed


end
