(* ===== verification/Timers.thy ===== *)
theory Timers
  imports Wait_Queue
begin

unbundle bit_operations_syntax

section \<open>Kernel timers and the clock interrupt\<close>

text \<open>
  \<^verbatim>\<open>add_timer\<close>, \<^verbatim>\<open>do_timer\<close> and the floppy motor timers of \<^verbatim>\<open>kernel/sched.c\<close>.

  The pending timers are a singly linked list through the pool \<^verbatim>\<open>timer_list[64]\<close>; each holds its
  delay relative to the timer before it. \<open>timer_chain\<close> abstracts the pointers to a list of slots
  and \<open>timers\<close> to the list of (relative delay, function) pairs. A function pointer is a number, and
  the argument \<open>run\<close> is what calling it does: the functions that the sources register live in the
  floppy driver.
\<close>

subsection \<open>Model\<close>

abbreviation (input) TIME_REQUESTS :: nat where "TIME_REQUESTS \<equiv> 64"

type_synonym 's callbacks = "nat \<Rightarrow> 's \<Rightarrow> (unit, 's) outcome"

definition upd_timer :: "nat \<Rightarrow> (timer_list \<Rightarrow> timer_list) \<Rightarrow> 'z sched_st_scheme \<Rightarrow> 'z sched_st_scheme" where
  "upd_timer p f s = s\<lparr>timer_pool := (timer_pool s)(p := f (timer_pool s p))\<rparr>"

definition free_timer_slot :: "'z sched_st_scheme \<Rightarrow> nat option" where
  "free_timer_slot s = find (\<lambda>p. tl_fn (timer_pool s p) = None) [0..<TIME_REQUESTS]"

text \<open>
  The body of the loop of \<^verbatim>\<open>add_timer\<close>: the new timer \<open>p\<close> and its successor \<open>q\<close> exchange their
  contents, the new one keeping what is left of its delay.
\<close>

definition swap_timers :: "nat \<Rightarrow> nat \<Rightarrow> 'z sched_st_scheme \<Rightarrow> 'z sched_st_scheme" where
  "swap_timers p q s =
     (let tp = timer_pool s p; tq = timer_pool s q
      in s\<lparr>timer_pool := (timer_pool s)
             (p := tp\<lparr>tl_fn := tl_fn tq, tl_jiffies := tl_jiffies tq\<rparr>,
              q := tq\<lparr>tl_fn := tl_fn tp, tl_jiffies := tl_jiffies tp - tl_jiffies tq\<rparr>)\<rparr>)"

definition sink_timer :: "nat \<Rightarrow> 'z sched_st_scheme \<Rightarrow> (unit, 'z sched_st_scheme) outcome" where
  "sink_timer p s = iterK (\<lambda>p s.
     (case tl_next (timer_pool s p) of
        None \<Rightarrow> Ok (Inr ()) s
      | Some q \<Rightarrow>
          if tl_jiffies (timer_pool s q) < tl_jiffies (timer_pool s p)
          then Ok (Inl q) (swap_timers p q s) else Ok (Inr ()) s)) p s"

definition add_timer ::
    "('z sched_st_scheme) callbacks \<Rightarrow> int \<Rightarrow> nat option \<Rightarrow> 'z sched_st_scheme
       \<Rightarrow> (unit, 'z sched_st_scheme) outcome" where
  "add_timer run j fn s =
     (case fn of
        None \<Rightarrow> Ok () s
      | Some f \<Rightarrow>
          if j \<le> 0 then run f s
          else (case free_timer_slot s of
                  None \<Rightarrow> Panic ''No more time requests free''
                | Some p \<Rightarrow>
                    let s = upd_timer p (\<lambda>_. \<lparr>tl_jiffies = j, tl_fn = Some f, tl_next = next_timer s\<rparr>) s;
                        s = s\<lparr>next_timer := Some p\<rparr>
                    in sink_timer p s))"

definition sysbeepstop :: "'z sched_st_scheme \<Rightarrow> 'z sched_st_scheme" where
  "sysbeepstop s = outb (inb 0x61 s AND 0xFC) 0x61 s"

definition sysbeep :: "'z sched_st_scheme \<Rightarrow> 'z sched_st_scheme" where
  "sysbeep s =
     (let s = outb (inb 0x61 s OR 3) 0x61 s; s = outb 0xB6 0x43 s; s = outb 0x37 0x42 s;
          s = outb 0x06 0x42 s
      in s\<lparr>beepcount := HZ div 8\<rparr>)"

abbreviation (input) FD_DOR :: nat where "FD_DOR \<equiv> 0x3f2"

definition ticks_to_floppy_on :: "nat \<Rightarrow> 'z sched_st_scheme \<Rightarrow> (int, 'z sched_st_scheme) outcome" where
  "ticks_to_floppy_on nr s =
     (if nr > 3 then Panic ''floppy_on: nr>3''
      else let mask = push_bit nr (0x10 :: u8);
               s = s\<lparr>moff_timer := (moff_timer s)(nr := 10000)\<rparr>;
               mask = mask OR current_DOR s;
               mask = (if selected s = 0 then (mask AND 0xFC) OR word_of_nat nr else mask);
               s = (if mask \<noteq> current_DOR s
                    then let s = outb mask FD_DOR s;
                             s = (if (mask XOR current_DOR s) AND 0xf0 \<noteq> 0
                                  then s\<lparr>mon_timer := (mon_timer s)(nr := HZ div 2)\<rparr>
                                  else if mon_timer s nr < 2 then s\<lparr>mon_timer := (mon_timer s)(nr := 2)\<rparr>
                                  else s)
                         in s\<lparr>current_DOR := mask\<rparr>
                    else s)
           in Ok (mon_timer s nr) s)"

definition floppy_off :: "nat \<Rightarrow> 'z sched_st_scheme \<Rightarrow> 'z sched_st_scheme" where
  "floppy_off nr s = s\<lparr>moff_timer := (moff_timer s)(nr := 3 * HZ)\<rparr>"

definition floppy_timer_step :: "nat \<Rightarrow> 'z sched_st_scheme \<Rightarrow> 'z sched_st_scheme" where
  "floppy_timer_step i s =
     (let mask = push_bit i (0x10 :: u8) in
      if mask AND current_DOR s = 0 then s
      else if mon_timer s i \<noteq> 0
      then let s = s\<lparr>mon_timer := (mon_timer s)(i := mon_timer s i - 1)\<rparr>
           in if mon_timer s i = 0 then wake_up (WqMotor i) s else s
      else if moff_timer s i = 0
      then let s = s\<lparr>current_DOR := current_DOR s AND NOT mask\<rparr> in outb (current_DOR s) FD_DOR s
      else s\<lparr>moff_timer := (moff_timer s)(i := moff_timer s i - 1)\<rparr>)"

definition do_floppy_timer :: "'z sched_st_scheme \<Rightarrow> 'z sched_st_scheme" where
  "do_floppy_timer s = fold floppy_timer_step [0..<4] s"

text \<open>The \<^verbatim>\<open>while (next_timer && next_timer->jiffies <= 0)\<close> of \<^verbatim>\<open>do_timer\<close>.\<close>

definition fire_timers ::
    "('z sched_st_scheme) callbacks \<Rightarrow> 'z sched_st_scheme \<Rightarrow> (unit, 'z sched_st_scheme) outcome" where
  "fire_timers run s = iterK (\<lambda>(_::unit) s.
     (case next_timer s of
        None \<Rightarrow> Ok (Inr ()) s
      | Some p \<Rightarrow>
          if tl_jiffies (timer_pool s p) \<le> 0
          then let fn = the (tl_fn (timer_pool s p));
                   s = upd_timer p (tl_fn_update (\<lambda>_. None)) s;
                   s = s\<lparr>next_timer := tl_next (timer_pool s p)\<rparr>
               in bindK (run fn s) (\<lambda>_ s. Ok (Inl ()) s)
          else Ok (Inr ()) s)) () s"

definition tick_timers ::
    "('z sched_st_scheme) callbacks \<Rightarrow> 'z sched_st_scheme \<Rightarrow> (unit, 'z sched_st_scheme) outcome" where
  "tick_timers run s =
     (case next_timer s of
        None \<Rightarrow> Ok () s
      | Some p \<Rightarrow> fire_timers run (upd_timer p (\<lambda>t. t\<lparr>tl_jiffies := tl_jiffies t - 1\<rparr>) s))"

definition do_timer ::
    "('z sched_st_scheme) callbacks \<Rightarrow> int \<Rightarrow> 'z sched_st_scheme
       \<Rightarrow> (unit, 'z sched_st_scheme) outcome" where
  "do_timer run cpl s =
     (let s = (if beepcount s \<noteq> 0
               then let s = s\<lparr>beepcount := beepcount s - 1\<rparr>
                    in if beepcount s = 0 then sysbeepstop s else s
               else s);
          s = (if cpl \<noteq> 0 then upd_cur (\<lambda>t. t\<lparr>t_utime := t_utime t + 1\<rparr>) s
               else upd_cur (\<lambda>t. t\<lparr>t_stime := t_stime t + 1\<rparr>) s)
      in bindK (tick_timers run s) (\<lambda>_ s.
           let s = (if current_DOR s AND 0xf0 \<noteq> 0 then do_floppy_timer s else s);
               s = upd_cur (\<lambda>t. t\<lparr>t_counter := t_counter t - 1\<rparr>) s
           in if t_counter (cur s) > 0 then Ok () s
              else let s = upd_cur (t_counter_update (\<lambda>_. 0)) s
                   in if cpl = 0 then Ok () s else schedule s))"

subsection \<open>The list of pending timers\<close>

primrec timer_chain :: "(nat \<Rightarrow> timer_list) \<Rightarrow> nat option \<Rightarrow> nat list \<Rightarrow> bool" where
  "timer_chain pool h [] = (h = None)"
| "timer_chain pool h (p # ps) = (h = Some p \<and> timer_chain pool (tl_next (pool p)) ps)"

definition timer_val :: "timer_list \<Rightarrow> int \<times> nat" where
  "timer_val t = (tl_jiffies t, the (tl_fn t))"

text \<open>
  The state of the timer list: the chain has no repetitions, stays in the pool, holds positive
  delays, and the slots outside it are free.
\<close>

definition timers_are :: "'z sched_st_scheme \<Rightarrow> nat list \<Rightarrow> (int \<times> nat) list \<Rightarrow> bool" where
  "timers_are s ps ts \<longleftrightarrow>
     timer_chain (timer_pool s) (next_timer s) ps \<and> distinct ps \<and> set ps \<subseteq> {..<TIME_REQUESTS} \<and>
     ts = map (\<lambda>p. timer_val (timer_pool s p)) ps \<and>
     (\<forall>p\<in>set ps. tl_fn (timer_pool s p) \<noteq> None) \<and>
     (\<forall>p<TIME_REQUESTS. p \<notin> set ps \<longrightarrow> tl_fn (timer_pool s p) = None)"

lemma timer_chain_cong:
  "(\<And>p. p \<in> set ps \<Longrightarrow> tl_next (pool p) = tl_next (pool' p)) \<Longrightarrow>
     timer_chain pool h ps = timer_chain pool' h ps"
  by (induction ps arbitrary: h) auto

lemma timer_chain_fun_upd [simp]: "p \<notin> set ps \<Longrightarrow> timer_chain (pool(p := t)) h ps = timer_chain pool h ps"
  by (rule timer_chain_cong) auto

text \<open>Insertion on lists of relative delays, as the loop of \<^verbatim>\<open>add_timer\<close> does it.\<close>

fun insert_timer :: "int \<Rightarrow> nat \<Rightarrow> (int \<times> nat) list \<Rightarrow> (int \<times> nat) list" where
  "insert_timer j f [] = [(j, f)]"
| "insert_timer j f ((d, g) # ts) =
     (if d < j then (d, g) # insert_timer (j - d) f ts else (j, f) # (d, g) # ts)"

text \<open>Absolute times: \<open>due t0 ts\<close> is when each timer of the list goes off, counted from \<open>t0\<close>.\<close>

fun due :: "int \<Rightarrow> (int \<times> nat) list \<Rightarrow> (int \<times> nat) list" where
  "due t0 [] = []"
| "due t0 ((d, f) # ts) = (t0 + d, f) # due (t0 + d) ts"

lemma due_shift: "due (t0 + k) ts = map (\<lambda>(t, f). (t + k, f)) (due t0 ts)"
  by (induction t0 ts arbitrary: k rule: due.induct) (auto simp: algebra_simps)

text \<open>
  \<open>moved s ps pool ts\<close>: the pool \<open>pool\<close> differs from that of \<open>s\<close> only in the contents of the slots
  \<open>ps\<close>, whose values are now \<open>ts\<close>; no link has changed.
\<close>

definition moved ::
    "'z sched_st_scheme \<Rightarrow> nat list \<Rightarrow> (nat \<Rightarrow> timer_list) \<Rightarrow> (int \<times> nat) list \<Rightarrow> bool" where
  "moved s ps pool ts \<longleftrightarrow>
     (\<forall>q. tl_next (pool q) = tl_next (timer_pool s q)) \<and>
     (\<forall>q. q \<notin> set ps \<longrightarrow> pool q = timer_pool s q) \<and>
     (\<forall>q\<in>set ps. tl_fn (pool q) \<noteq> None) \<and>
     map (\<lambda>q. timer_val (pool q)) ps = ts"

lemma moved_refl:
  "\<forall>q\<in>set ps. tl_fn (timer_pool s q) \<noteq> None \<Longrightarrow>
     moved s ps (timer_pool s) (map (\<lambda>q. timer_val (timer_pool s q)) ps)"
  by (simp add: moved_def)

lemma swap_timers_simps:
  assumes "p \<noteq> q"
  shows "tl_next (timer_pool (swap_timers p q s) r) = tl_next (timer_pool s r)"
    and "r \<noteq> p \<Longrightarrow> r \<noteq> q \<Longrightarrow> timer_pool (swap_timers p q s) r = timer_pool s r"
    and "tl_jiffies (timer_pool (swap_timers p q s) q) =
           tl_jiffies (timer_pool s p) - tl_jiffies (timer_pool s q)"
    and "tl_fn (timer_pool (swap_timers p q s) q) = tl_fn (timer_pool s p)"
    and "timer_val (timer_pool (swap_timers p q s) p) = timer_val (timer_pool s q)"
    and "tl_fn (timer_pool (swap_timers p q s) p) = tl_fn (timer_pool s q)"
    and "(swap_timers p q s)\<lparr>timer_pool := pool\<rparr> = s\<lparr>timer_pool := pool\<rparr>"
  using assms by (simp_all add: swap_timers_def Let_def timer_val_def)

lemma moved_swap:
  assumes "moved (swap_timers p q s) (q # ps) pool ts" and "distinct (p # q # ps)"
    and "tl_fn (timer_pool s q) \<noteq> None"
  shows "moved s (p # q # ps) pool (timer_val (timer_pool s q) # ts)"
proof -
  have pq: "p \<noteq> q" and p: "p \<notin> set (q # ps)" using assms(2) by auto
  then have "pool p = timer_pool (swap_timers p q s) p" using assms(1) by (simp add: moved_def)
  then show ?thesis
    using assms(1,3) by (auto simp: moved_def swap_timers_simps [OF pq])
qed

lemma fn_after_swap:
  assumes "p \<noteq> q" and "p \<notin> set ps" and "\<forall>r\<in>set (p # q # ps). tl_fn (timer_pool s r) \<noteq> None"
  shows "\<forall>r\<in>set (q # ps). tl_fn (timer_pool (swap_timers p q s) r) \<noteq> None"
proof
  fix r assume "r \<in> set (q # ps)"
  moreover from this have "r \<noteq> p" using assms(1,2) by auto
  ultimately show "tl_fn (timer_pool (swap_timers p q s) r) \<noteq> None"
    using assms(3) by (cases "r = q") (auto simp: swap_timers_simps(2,4) [OF assms(1)])
qed

text \<open>The loop, started at the front slot \<open>p\<close>, inserts the new value into the values behind it.\<close>

lemma sink_timer_spec:
  assumes "timer_chain (timer_pool s) (tl_next (timer_pool s p)) ps" and "distinct (p # ps)"
    and "\<forall>q\<in>set (p # ps). tl_fn (timer_pool s q) \<noteq> None"
  shows "okK (sink_timer p s) (\<lambda>_ t. \<exists>pool. t = s\<lparr>timer_pool := pool\<rparr> \<and>
     moved s (p # ps) pool (insert_timer (tl_jiffies (timer_pool s p)) (the (tl_fn (timer_pool s p)))
         (map (\<lambda>q. timer_val (timer_pool s q)) ps)))"
  using assms
proof (induction ps arbitrary: p s)
  case Nil
  then show ?case
    using moved_refl [of "[p]" s]
    by (auto simp: sink_timer_def iterK_unfold timer_val_def intro!: exI [of _ "timer_pool s"])
next
  case (Cons q ps)
  from Cons.prems(1) have nx: "tl_next (timer_pool s p) = Some q"
    and ch: "timer_chain (timer_pool s) (tl_next (timer_pool s q)) ps" by auto
  show ?case
  proof (cases "tl_jiffies (timer_pool s q) < tl_jiffies (timer_pool s p)")
    case False
    then show ?thesis
      using nx moved_refl [OF Cons.prems(3)]
      by (auto simp: sink_timer_def iterK_unfold timer_val_def intro!: exI [of _ "timer_pool s"])
  next
    case True
    let ?s = "swap_timers p q s"
    have pq: "p \<noteq> q" "p \<notin> set ps" "q \<notin> set ps" using Cons.prems(2) by auto
    note sw = swap_timers_simps [OF pq(1)]
    have step: "sink_timer p s = sink_timer q ?s"
      using nx True unfolding sink_timer_def by (subst iterK_unfold) simp
    have vals: "map (\<lambda>r. timer_val (timer_pool ?s r)) ps = map (\<lambda>r. timer_val (timer_pool s r)) ps"
      using pq by (auto intro!: arg_cong [of _ _ timer_val] sw(2))
    have "timer_chain (timer_pool ?s) (tl_next (timer_pool ?s q)) ps"
      using ch timer_chain_cong [of ps "timer_pool ?s" "timer_pool s"] by (simp add: sw(1))
    moreover have "distinct (q # ps)" using Cons.prems(2) by simp
    ultimately have "okK (sink_timer q ?s) (\<lambda>_ t. \<exists>pool. t = s\<lparr>timer_pool := pool\<rparr> \<and>
       moved ?s (q # ps) pool (insert_timer (tl_jiffies (timer_pool s p) - tl_jiffies (timer_pool s q))
         (the (tl_fn (timer_pool s p))) (map (\<lambda>r. timer_val (timer_pool s r)) ps)))"
      using Cons.IH [of ?s q] fn_after_swap [OF pq(1,2) Cons.prems(3)]
      by (simp add: sw vals del: map_eq_conv)
    moreover have fq: "tl_fn (timer_pool s q) \<noteq> None" using Cons.prems(3) by simp
    ultimately show ?thesis
      unfolding step using True
      by (elim okK_mono) (auto simp: timer_val_def dest!: moved_swap [OF _ Cons.prems(2) fq])
  qed
qed

subsection \<open>Adding a timer\<close>

lemma free_timer_slot_Some:
  assumes "free_timer_slot s = Some p"
  shows "p < TIME_REQUESTS" and "tl_fn (timer_pool s p) = None"
proof -
  from assms have "p \<in> set [0..<TIME_REQUESTS] \<and> tl_fn (timer_pool s p) = None"
    unfolding free_timer_slot_def by (auto simp: find_Some_iff simp del: upt_rec_numeral)
  then show "p < TIME_REQUESTS" and "tl_fn (timer_pool s p) = None" by auto
qed

lemma free_timer_slot_None:
  "free_timer_slot s = None \<Longrightarrow> p < TIME_REQUESTS \<Longrightarrow> tl_fn (timer_pool s p) \<noteq> None"
  unfolding free_timer_slot_def by (auto simp: find_None_iff simp del: upt_rec_numeral)

text \<open>The new slot in front of the chain, before the loop runs.\<close>

lemma link_timer:
  fixes j :: int and f :: nat
  assumes "timers_are s ps ts" and "p < TIME_REQUESTS" and "tl_fn (timer_pool s p) = None"
  defines "u \<equiv> (upd_timer p (\<lambda>_. \<lparr>tl_jiffies = j, tl_fn = Some f, tl_next = next_timer s\<rparr>) s)\<lparr>next_timer := Some p\<rparr>"
  shows "timer_chain (timer_pool u) (tl_next (timer_pool u p)) ps"
    and "\<forall>q\<in>set (p # ps). tl_fn (timer_pool u q) \<noteq> None"
    and "map (\<lambda>q. timer_val (timer_pool u q)) ps = ts"
    and "\<forall>q<TIME_REQUESTS. q \<notin> set (p # ps) \<longrightarrow> tl_fn (timer_pool u q) = None"
    and "timer_pool u p = \<lparr>tl_jiffies = j, tl_fn = Some f, tl_next = next_timer s\<rparr>"
    and "next_timer u = Some p"
proof -
  have p: "p \<notin> set ps" using assms(1,3) unfolding timers_are_def by auto
  then show "timer_chain (timer_pool u) (tl_next (timer_pool u p)) ps"
    and "\<forall>q\<in>set (p # ps). tl_fn (timer_pool u q) \<noteq> None"
    and "map (\<lambda>q. timer_val (timer_pool u q)) ps = ts"
    using assms(1) unfolding timers_are_def u_def by (auto simp: upd_timer_def)
  show "\<forall>q<TIME_REQUESTS. q \<notin> set (p # ps) \<longrightarrow> tl_fn (timer_pool u q) = None"
    using assms(1) unfolding timers_are_def u_def by (auto simp: upd_timer_def)
  show "timer_pool u p = \<lparr>tl_jiffies = j, tl_fn = Some f, tl_next = next_timer s\<rparr>"
    and "next_timer u = Some p"
    by (simp_all add: u_def upd_timer_def)
qed

lemma moved_timers_are:
  assumes "moved u (p # ps) pool ts" and "timer_chain (timer_pool u) (tl_next (timer_pool u p)) ps"
    and "distinct (p # ps)" and "set (p # ps) \<subseteq> {..<TIME_REQUESTS}" and "next_timer u = Some p"
    and "\<forall>q<TIME_REQUESTS. q \<notin> set (p # ps) \<longrightarrow> tl_fn (timer_pool u q) = None"
  shows "timers_are (u\<lparr>timer_pool := pool\<rparr>) (p # ps) ts"
proof -
  have "timer_chain pool (tl_next (pool p)) ps"
    using assms(1,2) timer_chain_cong [of ps pool "timer_pool u"] by (simp add: moved_def)
  then show ?thesis
    using assms(1,3-6) unfolding timers_are_def moved_def by auto
qed

lemma add_timer_refines:
  assumes "timers_are s ps ts" and "j > 0" and "length ps < TIME_REQUESTS"
  shows "okK (add_timer run j (Some f) s) (\<lambda>_ t. \<exists>ps'. timers_are t ps' (insert_timer j f ts))"
proof (cases "free_timer_slot s")
  case None
  have "\<forall>q<TIME_REQUESTS. q \<in> set ps"
    using assms(1) free_timer_slot_None [OF None] unfolding timers_are_def by blast
  then have "{..<TIME_REQUESTS} \<subseteq> set ps" by auto
  then have "TIME_REQUESTS \<le> length ps"
    using card_mono [of "set ps" "{..<TIME_REQUESTS}"] card_length [of ps] by simp
  then show ?thesis using assms(3) by simp
next
  case (Some p)
  let ?u = "(upd_timer p (\<lambda>_. \<lparr>tl_jiffies = j, tl_fn = Some f, tl_next = next_timer s\<rparr>) s)\<lparr>next_timer := Some p\<rparr>"
  note fs = free_timer_slot_Some [OF Some]
  note l = link_timer [OF assms(1) fs, of j f]
  have d: "distinct (p # ps)" using assms(1) fs(2) unfolding timers_are_def by auto
  have sub: "set (p # ps) \<subseteq> {..<TIME_REQUESTS}" using assms(1) fs(1) unfolding timers_are_def by auto
  have "okK (sink_timer p ?u) (\<lambda>_ t. \<exists>ps'. timers_are t ps' (insert_timer j f ts))"
    using sink_timer_spec [OF l(1) d l(2)] l(3,5)
    by (elim okK_mono) (auto dest!: moved_timers_are [OF _ l(1) d sub l(6,4)])
  then show ?thesis using assms(2) Some by (simp add: add_timer_def)
qed

lemma insert_timer_due:
  assumes "\<forall>(d, g)\<in>set ts. 0 < d" and "0 < j"
  shows "\<exists>r\<ge>1. due t0 (insert_timer j f ts) =
     filter (\<lambda>(t, g). t < t0 + j) (due t0 ts) @ (t0 + j, f) #
       map (\<lambda>(t, g). (t + r, g)) (filter (\<lambda>(t, g). \<not> t < t0 + j) (due t0 ts))"
  using assms
proof (induction ts arbitrary: t0 j)
  case Nil
  then show ?case by (auto intro: exI [of _ 1])
next
  case (Cons x ts)
  obtain d g where x: "x = (d, g)" by (cases x)
  have pos: "0 < d" using Cons.prems x by auto
  show ?case
  proof (cases "d < j")
    case True
    then obtain r where r: "r \<ge> 1" "due (t0 + d) (insert_timer (j - d) f ts) =
      filter (\<lambda>(t, g). t < t0 + j) (due (t0 + d) ts) @ (t0 + j, f) #
       map (\<lambda>(t, g). (t + r, g)) (filter (\<lambda>(t, g). \<not> t < t0 + j) (due (t0 + d) ts))"
      using Cons.IH [of "j - d" "t0 + d"] Cons.prems by auto
    then show ?thesis using True x by (intro exI [of _ r]) auto
  next
    case False
    have later: "\<forall>(t, g)\<in>set (due a ts). a < t" for a
      using Cons.prems(1)
    proof (induction ts arbitrary: a)
      case (Cons y ys)
      then show ?case by (cases y) (fastforce dest: Cons.IH [of "a + fst y"])
    qed simp
    have "filter (\<lambda>(t, g). t < t0 + j) (due t0 (x # ts)) = []"
      "filter (\<lambda>(t, g). \<not> t < t0 + j) (due t0 (x # ts)) = due t0 (x # ts)"
      using False x later [of "t0 + d"] by (auto simp: filter_empty_conv filter_id_conv)
    then show ?thesis
      using False x Cons.prems(2) due_shift [of t0 j "x # ts"] by (intro exI [of _ j]) auto
  qed
qed

lemma insert_timer_pos:
  assumes "\<forall>(d, g)\<in>set ts. 0 < d" and "0 < j"
  shows "\<forall>(d, g)\<in>set (insert_timer j f ts). 0 < d"
  using assms by (induction j f ts rule: insert_timer.induct) auto

subsection \<open>The clock tick\<close>

text \<open>
  Callbacks that change only what lies outside the scheduler's own state; \<open>eff f\<close> is the effect of
  calling the function \<open>f\<close>.
\<close>

definition run_client :: "(nat \<Rightarrow> 'z \<Rightarrow> 'z) \<Rightarrow> ('z sched_st_scheme) callbacks" where
  "run_client eff f s = Ok () (sched_st.more_update (eff f) s)"

definition same_timers :: "'z sched_st_scheme \<Rightarrow> 'z sched_st_scheme \<Rightarrow> bool" where
  "same_timers s t \<longleftrightarrow> timer_pool t = timer_pool s \<and> next_timer t = next_timer s \<and>
     sched_st.more t = sched_st.more s"

lemma same_timers_trans: "same_timers s t \<Longrightarrow> same_timers t u \<Longrightarrow> same_timers s u"
  by (simp add: same_timers_def)

lemma same_timers_upd_task [simp]: "same_timers s (upd_task i f s)"
  by (simp add: same_timers_def upd_task_def)

lemma same_timers_upd_cur [simp]: "same_timers s (upd_cur f s)"
  by (simp add: upd_cur_def)

lemma same_timers_outb [simp]: "same_timers s (outb v p s)"
  by (simp add: same_timers_def outb_def)

lemma same_timers_wake_up [simp]: "same_timers s (wake_up q s)"
  by (simp add: wake_up_def same_timers_def upd_task_def split: option.splits)

lemma same_timers_floppy: "same_timers s (floppy_timer_step i s)"
  by (auto simp: floppy_timer_step_def Let_def same_timers_def outb_def wake_up_def upd_task_def
      split: option.splits)

lemma same_timers_fold:
  "(\<And>x s. same_timers s (f x s)) \<Longrightarrow> same_timers s (fold f xs s)"
proof (induction xs arbitrary: s)
  case (Cons x xs)
  then show ?case using same_timers_trans [of s "f x s"] by simp
qed (simp add: same_timers_def)

lemma same_timers_do_floppy: "same_timers s (do_floppy_timer s)"
  unfolding do_floppy_timer_def by (rule same_timers_fold) (rule same_timers_floppy)

lemma same_timers_schedule:
  assumes "sched_inv s"
  shows "okK (schedule s) (\<lambda>_ t. same_timers s t)"
proof -
  have "same_timers u (check_alarm i u)" for u :: "'a sched_st_scheme" and i
    by (simp add: check_alarm_def split: option.splits)
  then have a: "same_timers s (fold check_alarm task_order s)" by (rule same_timers_fold)
  have r: "same_timers u (recalc_counters u)" for u :: "'a sched_st_scheme"
    unfolding recalc_counters_def by (rule same_timers_fold) simp
  have w: "same_timers u (switch_to n u)" for u :: "'a sched_st_scheme" and n
    by (simp add: switch_to_def same_timers_def)
  show ?thesis
    unfolding schedule_def okK_bind
    by (rule okK_mono [OF pick_task_ok [OF sched_inv_check_alarms [OF assms]]])
      (auto intro: same_timers_trans [OF a] same_timers_trans [OF _ w] same_timers_trans [OF r] w
        simp del: same_timers_upd_task)
qed

lemma timers_are_same: "same_timers s t \<Longrightarrow> timers_are t ps ts = timers_are s ps ts"
  by (simp add: same_timers_def timers_are_def)

definition expired :: "int \<times> nat \<Rightarrow> bool" where
  "expired x \<longleftrightarrow> fst x \<le> 0"

lemma timers_are_unlink:
  assumes "timers_are s (p # ps) (x # ts)"
  shows "timers_are (sched_st.more_update g ((upd_timer p (tl_fn_update (\<lambda>_. None)) s)
     \<lparr>next_timer := tl_next (timer_pool s p)\<rparr>)) ps ts"
proof -
  have "p \<notin> set ps" using assms by (simp add: timers_are_def)
  then show ?thesis using assms by (auto simp: timers_are_def upd_timer_def)
qed

lemma fire_timers_spec:
  assumes "timers_are s ps ts"
  shows "okK (fire_timers (run_client eff) s) (\<lambda>_ t. (\<exists>ps'. timers_are t ps' (dropWhile expired ts)) \<and>
     sched_st.more t = fold eff (map snd (takeWhile expired ts)) (sched_st.more s) \<and>
     task t = task s \<and> current t = current s)"
  using assms
proof (induction ps arbitrary: s ts)
  case Nil
  then have "ts = []" "next_timer s = None" by (auto simp: timers_are_def)
  with Nil show ?case by (auto simp: fire_timers_def iterK_unfold)
next
  case (Cons p ps)
  from Cons.prems obtain x ts' where ts: "ts = x # ts'" and nx: "next_timer s = Some p"
    and x: "fst x = tl_jiffies (timer_pool s p)" "snd x = the (tl_fn (timer_pool s p))"
    by (auto simp: timers_are_def timer_val_def)
  show ?case
  proof (cases "expired x")
    case True
    let ?t = "sched_st.more_update (eff (snd x)) ((upd_timer p (tl_fn_update (\<lambda>_. None)) s)
       \<lparr>next_timer := tl_next (timer_pool s p)\<rparr>)"
    have "fire_timers (run_client eff) s = fire_timers (run_client eff) ?t"
      using nx True x unfolding fire_timers_def
      by (subst iterK_unfold) (simp add: expired_def run_client_def Let_def upd_timer_def)
    then show ?thesis
      using Cons.IH [OF timers_are_unlink [OF Cons.prems [unfolded ts]], of "eff (snd x)"] True
      by (simp add: ts upd_timer_def)
  next
    case False
    then show ?thesis
      using Cons.prems nx x ts by (auto simp: fire_timers_def iterK_unfold expired_def)
  qed
qed

fun tick :: "(int \<times> nat) list \<Rightarrow> (int \<times> nat) list" where
  "tick [] = []"
| "tick ((d, f) # ts) = (d - 1, f) # ts"

lemma tick_timers_spec:
  assumes "timers_are s ps ts"
  shows "okK (tick_timers (run_client eff) s) (\<lambda>_ t. (\<exists>ps'. timers_are t ps' (dropWhile expired (tick ts))) \<and>
     sched_st.more t = fold eff (map snd (takeWhile expired (tick ts))) (sched_st.more s) \<and>
     task t = task s \<and> current t = current s)"
proof (cases ps)
  case Nil
  then have "ts = []" "next_timer s = None" using assms by (auto simp: timers_are_def)
  then show ?thesis using assms by (auto simp: tick_timers_def)
next
  case (Cons p qs)
  let ?t = "upd_timer p (\<lambda>t. t\<lparr>tl_jiffies := tl_jiffies t - 1\<rparr>) s"
  have nx: "next_timer s = Some p" using assms Cons by (simp add: timers_are_def)
  have "timers_are ?t ps (tick ts)"
    using assms Cons by (auto simp: timers_are_def upd_timer_def timer_val_def)
  from fire_timers_spec [OF this, of eff] show ?thesis
    using nx by (simp add: tick_timers_def upd_timer_def)
qed

text \<open>In absolute times: the expired prefix is what is due at tick 1, the rest moves one tick closer.\<close>

lemma due_gt: "\<forall>(d, g)\<in>set ts. 0 < d \<Longrightarrow> x \<in> set (due t0 ts) \<Longrightarrow> t0 < fst x"
  by (induction t0 ts rule: due.induct) fastforce+

lemma tick_due:
  assumes "\<forall>(d, g)\<in>set ts. 0 < d"
  shows "map snd (takeWhile expired (tick ts)) = map snd (filter (\<lambda>(t, g). t \<le> 1) (due 0 ts))"
    and "due 0 (dropWhile expired (tick ts)) =
           map (\<lambda>(t, g). (t - 1, g)) (filter (\<lambda>(t, g). 1 < t) (due 0 ts))"
    and "\<forall>(d, g)\<in>set (dropWhile expired (tick ts)). 0 < d"
proof -
  have "map snd (takeWhile expired (tick ts)) = map snd (filter (\<lambda>(t, g). t \<le> 1) (due 0 ts)) \<and>
    due 0 (dropWhile expired (tick ts)) =
      map (\<lambda>(t, g). (t - 1, g)) (filter (\<lambda>(t, g). 1 < t) (due 0 ts)) \<and>
    (\<forall>(d, g)\<in>set (dropWhile expired (tick ts)). 0 < d)"
  proof (cases ts)
    case (Cons x us)
    obtain d f where x: "x = (d, f)" by (cases x)
    have d: "0 < d" and us: "\<forall>(d, g)\<in>set us. 0 < d" using assms Cons x by auto
    have gt: "filter (\<lambda>(t, g). t \<le> 1) (due d us) = []" "filter (\<lambda>(t, g). 1 < t) (due d us) = due d us"
      using d due_gt [OF us, of _ d] by (fastforce simp: filter_empty_conv filter_id_conv)+
    have us1: "dropWhile expired us = us" "takeWhile expired us = []"
      using us by (cases us; auto simp: expired_def)+
    have sh: "due (d - 1) us = map (\<lambda>(t, g). (t - 1, g)) (due d us)"
      using due_shift [of d "- 1" us] by simp
    show ?thesis
      using d us gt sh by (cases "d = 1") (auto simp: Cons x expired_def us1)
  qed simp
  then show "map snd (takeWhile expired (tick ts)) = map snd (filter (\<lambda>(t, g). t \<le> 1) (due 0 ts))"
    and "due 0 (dropWhile expired (tick ts)) =
           map (\<lambda>(t, g). (t - 1, g)) (filter (\<lambda>(t, g). 1 < t) (due 0 ts))"
    and "\<forall>(d, g)\<in>set (dropWhile expired (tick ts)). 0 < d" by auto
qed

text \<open>What the rest of \<^verbatim>\<open>do_timer\<close> does to the timers and the scheduler's invariant.\<close>

lemma sched_inv_wake_up: "sched_inv s \<Longrightarrow> sched_inv (wake_up q s)"
  by (auto simp: wake_up_def intro!: sched_inv_upd_task split: option.splits)

lemma sched_inv_frame [simp]:
  "sched_inv (s\<lparr>mon_timer := m\<rparr>) = sched_inv s" "sched_inv (s\<lparr>moff_timer := m\<rparr>) = sched_inv s"
  "sched_inv (s\<lparr>current_DOR := d\<rparr>) = sched_inv s" "sched_inv (outb v p s) = sched_inv s"
  "sched_inv (s\<lparr>beepcount := b\<rparr>) = sched_inv s"
  by (simp_all add: sched_inv_def outb_def)

lemma sched_inv_floppy: "sched_inv s \<Longrightarrow> sched_inv (floppy_timer_step i s)"
  by (simp add: floppy_timer_step_def Let_def sched_inv_wake_up)

lemma sched_inv_do_floppy_timer: "sched_inv s \<Longrightarrow> sched_inv (do_floppy_timer s)"
  unfolding do_floppy_timer_def by (rule fold_inv) (auto intro: sched_inv_floppy)

lemma sched_inv_times: "sched_inv s \<Longrightarrow> sched_inv (upd_cur (\<lambda>t. t\<lparr>t_utime := f t\<rparr>) s)"
  "sched_inv s \<Longrightarrow> sched_inv (upd_cur (\<lambda>t. t\<lparr>t_stime := f t\<rparr>) s)"
  by (auto intro!: sched_inv_upd_cur simp: task_inv_def)

definition charge_tick :: "'z sched_st_scheme \<Rightarrow> 'z sched_st_scheme" where
  "charge_tick s =
     (let s = upd_cur (\<lambda>t. t\<lparr>t_counter := t_counter t - 1\<rparr>) s
      in if t_counter (cur s) > 0 then s else upd_cur (t_counter_update (\<lambda>_. 0)) s)"

lemma sched_inv_charge_tick: "sched_inv s \<Longrightarrow> sched_inv (charge_tick s)"
  by (auto simp: sched_inv_def charge_tick_def Let_def task_upd_cur cur_def task_inv_def split: if_splits)

lemma same_timers_charge_tick: "same_timers s (charge_tick s)"
  by (simp add: charge_tick_def Let_def same_timers_trans [OF same_timers_upd_cur same_timers_upd_cur])

definition account_tick :: "int \<Rightarrow> 'z sched_st_scheme \<Rightarrow> 'z sched_st_scheme" where
  "account_tick cpl s =
     (let s = (if beepcount s \<noteq> 0
               then let s = s\<lparr>beepcount := beepcount s - 1\<rparr>
                    in if beepcount s = 0 then sysbeepstop s else s
               else s)
      in if cpl \<noteq> 0 then upd_cur (\<lambda>t. t\<lparr>t_utime := t_utime t + 1\<rparr>) s
         else upd_cur (\<lambda>t. t\<lparr>t_stime := t_stime t + 1\<rparr>) s)"

lemma do_timer_parts:
  "do_timer run cpl s = bindK (tick_timers run (account_tick cpl s)) (\<lambda>_ s.
     let s = (if current_DOR s AND 0xf0 \<noteq> 0 then do_floppy_timer s else s)
     in if t_counter (cur (upd_cur (\<lambda>t. t\<lparr>t_counter := t_counter t - 1\<rparr>) s)) > 0 \<or> cpl = 0
        then Ok () (charge_tick s) else schedule (charge_tick s))"
  unfolding do_timer_def account_tick_def charge_tick_def Let_def
  by (intro arg_cong2 [where f = bindK] ext) auto

lemma sched_inv_account_tick: "sched_inv s \<Longrightarrow> sched_inv (account_tick cpl s)"
  by (simp add: account_tick_def Let_def sysbeepstop_def sched_inv_times)

lemma same_timers_account_tick: "same_timers s (account_tick cpl s)"
  by (simp add: account_tick_def Let_def sysbeepstop_def same_timers_def outb_def upd_cur_def upd_task_def)

lemma do_timer_tail:
  assumes "sched_inv s" and "same_timers s0 s"
  shows "okK (let s = (if current_DOR s AND 0xf0 \<noteq> 0 then do_floppy_timer s else s)
     in if t_counter (cur (upd_cur (\<lambda>t. t\<lparr>t_counter := t_counter t - 1\<rparr>) s)) > 0 \<or> cpl = 0
        then Ok () (charge_tick s) else schedule (charge_tick s)) (\<lambda>_ t. sched_inv t \<and> same_timers s0 t)"
proof -
  define u where "u = (if current_DOR s AND 0xf0 \<noteq> 0 then do_floppy_timer s else s)"
  have u: "sched_inv u" "same_timers s0 u"
    using assms same_timers_trans [OF assms(2) same_timers_do_floppy]
    by (auto simp: u_def sched_inv_do_floppy_timer)
  let ?v = "charge_tick u"
  have v: "sched_inv ?v" "same_timers s0 ?v"
    using sched_inv_charge_tick [OF u(1)] same_timers_trans [OF u(2) same_timers_charge_tick] by auto
  have "okK (schedule ?v) (\<lambda>_ t. sched_inv t \<and> same_timers ?v t)"
    using schedule_ok [OF v(1)] same_timers_schedule [OF v(1)] by (auto simp: okK_iff)
  then have "okK (schedule ?v) (\<lambda>_ t. sched_inv t \<and> same_timers s0 t)"
    by (rule okK_mono) (auto intro: same_timers_trans [OF v(2)])
  then show ?thesis using v unfolding u_def [symmetric] by (simp add: Let_def)
qed

lemma do_timer_spec:
  assumes "sched_inv s" and "timers_are s ps ts"
  shows "okK (do_timer (run_client eff) cpl s) (\<lambda>_ t. sched_inv t \<and>
     (\<exists>ps'. timers_are t ps' (dropWhile expired (tick ts))) \<and>
     sched_st.more t = fold eff (map snd (takeWhile expired (tick ts))) (sched_st.more s))"
proof -
  let ?a = "account_tick cpl s"
  have a: "sched_inv ?a" "timers_are ?a ps ts" "sched_st.more ?a = sched_st.more s"
    using assms sched_inv_account_tick timers_are_same [OF same_timers_account_tick [of s cpl]]
      same_timers_account_tick [of s cpl] by (auto simp: same_timers_def)
  show ?thesis
    unfolding do_timer_parts okK_bind
  proof (rule okK_mono [OF tick_timers_spec [OF a(2), of eff]], elim conjE exE)
    fix x :: unit and t ps'
    assume t: "timers_are t ps' (dropWhile expired (tick ts))" "task t = task ?a" "current t = current ?a"
      "sched_st.more t = fold eff (map snd (takeWhile expired (tick ts))) (sched_st.more ?a)"
    then have "sched_inv t" using a(1) by (simp add: sched_inv_def)
    note tail = do_timer_tail [OF this, of t cpl]
    show "okK (let s = (if current_DOR t AND 0xf0 \<noteq> 0 then do_floppy_timer t else t)
       in if t_counter (cur (upd_cur (\<lambda>t. t\<lparr>t_counter := t_counter t - 1\<rparr>) s)) > 0 \<or> cpl = 0
          then Ok () (charge_tick s) else schedule (charge_tick s)) (\<lambda>_ t. sched_inv t \<and>
         (\<exists>ps'. timers_are t ps' (dropWhile expired (tick ts))) \<and>
         sched_st.more t = fold eff (map snd (takeWhile expired (tick ts))) (sched_st.more s))"
      using t a(3) by (intro okK_mono [OF tail]) (auto simp: timers_are_same, auto simp: same_timers_def)
  qed
qed

subsection \<open>Properties\<close>

text \<open>
  C24. \<^verbatim>\<open>add_timer(j, fn)\<close> with a positive delay and a free slot always succeeds, and the new timer
  goes off exactly \<open>j\<close> ticks from now; every timer that was to go off earlier keeps its time. But
  all later ones are pushed back by the same number \<open>r \<ge> 1\<close> of ticks, because the loop never reduces
  the relative delay of the timer it stops at.
\<close>

theorem add_timer_times:
  assumes "timers_are s ps ts" and "\<forall>(d, g)\<in>set ts. 0 < d" and "length ts < TIME_REQUESTS" and "0 < j"
  shows "\<exists>t ps' ts' r. add_timer run j (Some f) s = Ok () t \<and> timers_are t ps' ts' \<and>
     (\<forall>(d, g)\<in>set ts'. 0 < d) \<and> 1 \<le> r \<and>
     due 0 ts' = filter (\<lambda>(t, g). t < j) (due 0 ts) @ (j, f) #
       map (\<lambda>(t, g). (t + r, g)) (filter (\<lambda>(t, g). \<not> t < j) (due 0 ts))"
proof -
  have "length ps = length ts" using assms(1) by (simp add: timers_are_def)
  then obtain t ps' where "add_timer run j (Some f) s = Ok () t" "timers_are t ps' (insert_timer j f ts)"
    using add_timer_refines [OF assms(1,4), of run f] assms(3) by (auto simp: okK_iff)
  then show ?thesis
    using insert_timer_due [OF assms(2,4), of 0 f] insert_timer_pos [OF assms(2,4), of f] by auto
qed

text \<open>A timer of 5 ticks added in front of one of 8: the first is due at 5, the second slips to 13.\<close>

definition timer_example :: sched_st where
  "timer_example = (sched_boot 0)\<lparr>timer_pool := (\<lambda>_. \<lparr>tl_jiffies = 0, tl_fn = None, tl_next = None\<rparr>)
     (0 := \<lparr>tl_jiffies = 8, tl_fn = Some 7, tl_next = None\<rparr>), next_timer := Some 0\<rparr>"

lemma timer_example_timers: "timers_are timer_example [0] [(8, 7)]"
  by (simp add: timers_are_def timer_example_def timer_val_def)

theorem add_timer_times_witness:
  "timers_are timer_example [0] [(8, 7)] \<and>
   (\<exists>t ps' ts' r. add_timer (run_client (\<lambda>_. id)) 5 (Some 3) timer_example = Ok () t \<and> timers_are t ps' ts' \<and>
     (\<forall>(d, g)\<in>set ts'. 0 < d) \<and> 1 \<le> r \<and> due 0 ts' = [(5, 3), (8 + r, 7)])"
  using add_timer_times [OF timer_example_timers, of 5 "run_client (\<lambda>_. id)" 3] timer_example_timers by simp


definition tick_example :: "nat list sched_st_scheme" where
  "tick_example = sched_st.extend ((sched_boot 0)\<lparr>timer_pool := (\<lambda>_. \<lparr>tl_jiffies = 0, tl_fn = None, tl_next = None\<rparr>)
     (0 := \<lparr>tl_jiffies = 1, tl_fn = Some 7, tl_next = Some 1\<rparr>,
      1 := \<lparr>tl_jiffies = 2, tl_fn = Some 9, tl_next = None\<rparr>), next_timer := Some 0\<rparr>) []"

lemma tick_example_timers: "timers_are tick_example [0, 1] [(1, 7), (2, 9)]"
  by (simp add: timers_are_def tick_example_def timer_val_def sched_st.defs)

lemma tick_example_inv: "sched_inv tick_example"
  by (simp add: sched_inv_def tick_example_def sched_st.defs sched_boot_def)



end
