(* ===== verification/Vsprintf.thy ===== *)
theory Vsprintf
  imports Kernel_Prelude
begin

unbundle bit_operations_syntax

section \<open>Formatted output\<close>

text \<open>
  \<^verbatim>\<open>kernel/vsprintf.c\<close>: \<^verbatim>\<open>skip_atoi\<close>, \<^verbatim>\<open>number\<close> and \<^verbatim>\<open>vsprintf\<close>. Strings are lists of characters without
  the closing NUL, so that reading \<^verbatim>\<open>*fmt\<close> at the end of the list gives NUL. The variable arguments are a
  list of typed values; taking an argument that is not there, or of another type, is undefined in C
  and \<open>None\<close> here. Numbers are 32-bit words, as the \<^verbatim>\<open>divl\<close> instruction sees them; field width and
  precision are integers.
\<close>

subsection \<open>Model\<close>

definition is_digit :: "char \<Rightarrow> bool" where
  "is_digit c \<longleftrightarrow> (48 :: nat) \<le> of_char c \<and> of_char c \<le> (57 :: nat)"

fun atoi_loop :: "int \<Rightarrow> string \<Rightarrow> int \<times> string" where
  "atoi_loop i [] = (i, [])"
| "atoi_loop i (c # s) = (if is_digit c then atoi_loop (i * 10 + of_char c - 48) s else (i, c # s))"

definition skip_atoi :: "string \<Rightarrow> int \<times> string" where
  "skip_atoi s = atoi_loop 0 s"

abbreviation (input) ZEROPAD :: u32 where "ZEROPAD \<equiv> 1"
abbreviation (input) SIGN :: u32 where "SIGN \<equiv> 2"
abbreviation (input) PLUS :: u32 where "PLUS \<equiv> 4"
abbreviation (input) SPACE :: u32 where "SPACE \<equiv> 8"
abbreviation (input) LEFT :: u32 where "LEFT \<equiv> 16"
abbreviation (input) SPECIAL :: u32 where "SPECIAL \<equiv> 32"
abbreviation (input) SMALL :: u32 where "SMALL \<equiv> 64"

definition flag :: "u32 \<Rightarrow> u32 \<Rightarrow> bool" where
  "flag t f \<longleftrightarrow> t AND f \<noteq> 0"

text \<open>\<^verbatim>\<open>while (num != 0) tmp[i++] = digits[do_div(num, base)]\<close>: the digits, least significant first.\<close>

function num_digits :: "string \<Rightarrow> nat \<Rightarrow> nat \<Rightarrow> string" where
  "num_digits digits base n =
     (if n = 0 \<or> base < 2 then [] else digits ! (n mod base) # num_digits digits base (n div base))"
  by pat_completeness auto

termination num_digits
  by (relation "measure (\<lambda>(_, _, n). n)") auto

declare num_digits.simps [simp del]

text \<open>\<^verbatim>\<open>while (size-- > 0) *str++ = c\<close>: the characters written, and the value left in \<^verbatim>\<open>size\<close>.\<close>

definition pad :: "char \<Rightarrow> int \<Rightarrow> string \<times> int" where
  "pad c n = (replicate (nat n) c, if n > 0 then -1 else n - 1)"

text \<open>The sign, the digits collected in \<^verbatim>\<open>tmp\<close> and the prefix of \<^verbatim>\<open>SPECIAL\<close> conversions.\<close>

definition num_sign :: "u32 \<Rightarrow> u32 \<Rightarrow> string" where
  "num_sign num type =
     (if flag type SIGN \<and> sint num < 0 then ''-'' else if flag type PLUS then ''+'' else if flag type SPACE then '' '' else [])"

definition digit_chars :: "u32 \<Rightarrow> string" where
  "digit_chars type = (if flag type SMALL then ''0123456789abcdefghijklmnopqrstuvwxyz''
                    else ''0123456789ABCDEFGHIJKLMNOPQRSTUVWXYZ'')"

definition num_tmp :: "u32 \<Rightarrow> int \<Rightarrow> u32 \<Rightarrow> string" where
  "num_tmp num base type =
     (let num = (if flag type SIGN \<and> sint num < 0 then - num else num)
      in if num = 0 then ''0'' else num_digits (digit_chars type) (nat base) (unat num))"

definition num_prefix :: "int \<Rightarrow> u32 \<Rightarrow> string" where
  "num_prefix base type =
     (if flag type SPECIAL
      then if base = 8 then ''0'' else if base = 16 then [CHR ''0'', digit_chars type ! 33] else []
      else [])"

definition number :: "u32 \<Rightarrow> int \<Rightarrow> int \<Rightarrow> int \<Rightarrow> u32 \<Rightarrow> string option" where
  "number num base sz precision type =
     (let type = (if flag type LEFT then type AND NOT ZEROPAD else type)
      in if base < 2 \<or> base > 36 then None
         else let c = (if flag type ZEROPAD then CHR ''0'' else CHR '' '');
                  sign = num_sign num type;
                  sz = (if sign \<noteq> [] then sz - 1 else sz);
                  sz = (if flag type SPECIAL then if base = 16 then sz - 2 else if base = 8 then sz - 1 else sz
                        else sz);
                  tmp = num_tmp num base type;
                  i = int (length tmp);
                  precision = (if i > precision then i else precision);
                  sz = sz - precision;
                  (p1, sz) = (if \<not> flag type (ZEROPAD + LEFT) then pad CHR '' '' sz else ([], sz));
                  (p2, sz) = (if \<not> flag type LEFT then pad c sz else ([], sz));
                  zeros = replicate (nat (precision - i)) CHR ''0'';
                  (p3, sz) = pad CHR '' '' sz
              in Some (p1 @ sign @ num_prefix base type @ p2 @ zeros @ rev tmp @ p3))"

datatype vararg = VInt u32 | VStr string | VPtr nat

definition peek :: "string \<Rightarrow> char" where
  "peek s = (case s of [] \<Rightarrow> CHR 0x00 | c # _ \<Rightarrow> c)"

fun fmt_flags :: "u32 \<Rightarrow> string \<Rightarrow> u32 \<times> string" where
  "fmt_flags f [] = (f, [])"
| "fmt_flags f (c # s) =
     (if c = CHR ''-'' then fmt_flags (f OR LEFT) s
      else if c = CHR ''+'' then fmt_flags (f OR PLUS) s
      else if c = CHR '' '' then fmt_flags (f OR SPACE) s
      else if c = CHR ''#'' then fmt_flags (f OR SPECIAL) s
      else if c = CHR ''0'' then fmt_flags (f OR ZEROPAD) s
      else (f, c # s))"

fun va_int :: "vararg list \<Rightarrow> (u32 \<times> vararg list) option" where
  "va_int (VInt n # args) = Some (n, args)"
| "va_int _ = None"

text \<open>
  The three parts of a conversion before its letter. \<^verbatim>\<open>case '*'\<close> takes an argument but, as in the
  source, does not step over the asterisk.
\<close>

definition fmt_width :: "u32 \<Rightarrow> string \<Rightarrow> vararg list \<Rightarrow> (int \<times> u32 \<times> string \<times> vararg list) option" where
  "fmt_width f s args =
     (if is_digit (peek s) then let (w, s) = skip_atoi s in Some (w, f, s, args)
      else if peek s = CHR ''*''
      then (case va_int args of
              None \<Rightarrow> None
            | Some (n, args) \<Rightarrow>
                if sint n < 0 then Some (- sint n, f OR LEFT, s, args) else Some (sint n, f, s, args))
      else Some (-1, f, s, args))"

definition fmt_precision :: "string \<Rightarrow> vararg list \<Rightarrow> (int \<times> string \<times> vararg list) option" where
  "fmt_precision s args =
     (if peek s = CHR ''.''
      then let s = tl s
           in if is_digit (peek s) then let (p, s) = skip_atoi s in Some (if p < 0 then 0 else p, s, args)
              else if peek s = CHR ''*''
              then (case va_int args of
                      None \<Rightarrow> None
                    | Some (n, args) \<Rightarrow> Some (if sint n < 0 then 0 else sint n, s, args))
              else Some (0, s, args)
      else Some (-1, s, args))"

definition fmt_qualifier :: "string \<Rightarrow> string" where
  "fmt_qualifier s = (if peek s = CHR ''h'' \<or> peek s = CHR ''l'' \<or> peek s = CHR ''L'' then tl s else s)"

definition conv_number ::
    "int \<Rightarrow> int \<Rightarrow> int \<Rightarrow> u32 \<Rightarrow> vararg list \<Rightarrow> (string \<times> vararg list) option" where
  "conv_number base width precision f args =
     (case va_int args of
        None \<Rightarrow> None
      | Some (n, args) \<Rightarrow> map_option (\<lambda>out. (out, args)) (number n base width precision f))"

definition conv_char :: "int \<Rightarrow> u32 \<Rightarrow> u32 \<Rightarrow> string" where
  "conv_char width f n =
     (let (p1, width) = (if \<not> flag f LEFT then pad CHR '' '' (width - 1) else ([], width - 1));
          (p2, width) = pad CHR '' '' width
      in p1 @ [char_of (unat (take_bit 8 n))] @ p2)"

definition conv_string :: "int \<Rightarrow> int \<Rightarrow> u32 \<Rightarrow> string \<Rightarrow> string" where
  "conv_string width precision f s =
     (let len = int (length s);
          len = (if precision < 0 then len else if len > precision then precision else len);
          (p1, width) = (if \<not> flag f LEFT then pad CHR '' '' (width - len) else ([], width - len));
          (p2, width) = pad CHR '' '' width
      in p1 @ take (nat len) s @ p2)"

text \<open>
  The \<^verbatim>\<open>switch\<close> on the letter: the characters written, the pointers set by \<^verbatim>\<open>%n\<close>, the rest of the format
  and the arguments left. \<open>pos\<close> is \<^verbatim>\<open>str - buf\<close>.
\<close>

definition convert ::
    "nat \<Rightarrow> int \<Rightarrow> int \<Rightarrow> u32 \<Rightarrow> string \<Rightarrow> vararg list \<Rightarrow> (string \<times> (nat \<times> int) list \<times> string \<times> vararg list) option" where
  "convert pos width precision f s args =
     (let c = peek s;
          num = (\<lambda>base w f. map_option (\<lambda>(out, args). (out, [], tl s, args)) (conv_number base w precision f args))
      in if c = CHR ''c''
         then (case va_int args of None \<Rightarrow> None | Some (n, args) \<Rightarrow> Some (conv_char width f n, [], tl s, args))
         else if c = CHR ''s''
         then (case args of VStr t # args \<Rightarrow> Some (conv_string width precision f t, [], tl s, args) | _ \<Rightarrow> None)
         else if c = CHR ''o'' then num 8 width f
         else if c = CHR ''p''
         then if width = -1 then num 16 8 (f OR ZEROPAD) else num 16 width f
         else if c = CHR ''x'' then num 16 width (f OR SMALL)
         else if c = CHR ''X'' then num 16 width f
         else if c = CHR ''d'' \<or> c = CHR ''i'' then num 10 width (f OR SIGN)
         else if c = CHR ''u'' then num 10 width f
         else if c = CHR ''n''
         then (case args of VPtr p # args \<Rightarrow> Some ([], [(p, int pos)], tl s, args) | _ \<Rightarrow> None)
         else let out = (if c \<noteq> CHR ''%'' then ''%'' else [])
              in case s of [] \<Rightarrow> Some (out, [], [], args) | d # s \<Rightarrow> Some (out @ [d], [], s, args))"

text \<open>The parts only ever shorten the format.\<close>

lemma atoi_loop_length: "length (snd (atoi_loop i s)) \<le> length s"
  by (induction i s rule: atoi_loop.induct) auto

lemma skip_atoi_length: "skip_atoi s = (w, r) \<Longrightarrow> length r \<le> length s"
  using atoi_loop_length [of 0 s] by (simp add: skip_atoi_def)

lemma fmt_flags_length: "fmt_flags f s = (g, r) \<Longrightarrow> length r \<le> length s"
  by (induction f s rule: fmt_flags.induct) (auto split: if_splits)

lemma fmt_width_length: "fmt_width f s args = Some (w, g, r, args') \<Longrightarrow> length r \<le> length s"
  by (auto simp: fmt_width_def split: if_splits option.splits prod.splits dest: skip_atoi_length)

lemma fmt_precision_length: "fmt_precision s args = Some (p, r, args') \<Longrightarrow> length r \<le> length s"
  by (cases s) (auto simp: fmt_precision_def peek_def split: if_splits option.splits prod.splits dest: skip_atoi_length)

lemma fmt_qualifier_length: "length (fmt_qualifier s) \<le> length s"
  by (cases s) (auto simp: fmt_qualifier_def)

lemma convert_length: "convert pos w p f s args = Some (out, ns, r, args') \<Longrightarrow> length r \<le> length s"
  by (cases s) (auto simp: convert_def peek_def Let_def split: if_splits option.splits list.splits vararg.splits)

text \<open>The part of a conversion from the flags to the letter, and the loop over the format.\<close>

definition directive ::
    "nat \<Rightarrow> string \<Rightarrow> vararg list \<Rightarrow> (string \<times> (nat \<times> int) list \<times> string \<times> vararg list) option" where
  "directive pos s args =
     (case fmt_flags 0 s of (f, s) \<Rightarrow>
      case fmt_width f s args of None \<Rightarrow> None | Some (w, f, s, args) \<Rightarrow>
      case fmt_precision s args of None \<Rightarrow> None | Some (p, s, args) \<Rightarrow>
      convert pos w p f (fmt_qualifier s) args)"

lemma directive_length:
  assumes "directive pos s args = Some (out, ns, r, args')"
  shows "length r \<le> length s"
proof -
  obtain f s1 where 1: "fmt_flags 0 s = (f, s1)" by fastforce
  obtain w g s2 a2 where 2: "fmt_width f s1 args = Some (w, g, s2, a2)"
    using assms 1 by (auto simp: directive_def split: option.splits)
  obtain p s3 a3 where 3: "fmt_precision s2 a2 = Some (p, s3, a3)"
    using assms 1 2 by (auto simp: directive_def split: option.splits)
  have "convert pos w p g (fmt_qualifier s3) a3 = Some (out, ns, r, args')"
    using assms 1 2 3 by (simp add: directive_def)
  then have "length r \<le> length (fmt_qualifier s3)" by (rule convert_length)
  also have "\<dots> \<le> length s3" by (rule fmt_qualifier_length)
  also have "\<dots> \<le> length s2" by (rule fmt_precision_length [OF 3])
  also have "\<dots> \<le> length s1" by (rule fmt_width_length [OF 2])
  also have "\<dots> \<le> length s" by (rule fmt_flags_length [OF 1])
  finally show ?thesis .
qed

function vsprintf_loop ::
    "string \<Rightarrow> string \<Rightarrow> (nat \<times> int) list \<Rightarrow> vararg list \<Rightarrow> (string \<times> (nat \<times> int) list) option" where
  "vsprintf_loop out [] ns args = Some (out, ns)"
| "vsprintf_loop out (c # s) ns args =
     (if c \<noteq> CHR ''%'' then vsprintf_loop (out @ [c]) s ns args
      else case directive (length out) s args of
             None \<Rightarrow> None
           | Some (out', ns', s', args') \<Rightarrow> vsprintf_loop (out @ out') s' (ns @ ns') args')"
  by pat_completeness auto

termination vsprintf_loop
  by (relation "measure (\<lambda>(_, s, _, _). length s)") (auto dest: directive_length)

definition vsprintf :: "string \<Rightarrow> vararg list \<Rightarrow> (int \<times> string \<times> (nat \<times> int) list) option" where
  "vsprintf fmt args = map_option (\<lambda>(out, ns). (int (length out), out, ns)) (vsprintf_loop [] fmt [] args)"

subsection \<open>Digits\<close>

definition all_digits :: "string \<Rightarrow> bool" where
  "all_digits s \<longleftrightarrow> (\<forall>c\<in>set s. is_digit c)"

lemma all_digits_simps [simp]:
  "all_digits []" "all_digits (c # s) \<longleftrightarrow> is_digit c \<and> all_digits s"
  "all_digits (s @ t) \<longleftrightarrow> all_digits s \<and> all_digits t" "all_digits (rev s) \<longleftrightarrow> all_digits s"
  by (auto simp: all_digits_def)

lemma all_digits_replicate [simp]: "all_digits (replicate k CHR ''0'')"
  by (induction k) (auto simp: is_digit_def)

text \<open>Reading digits one string after another.\<close>

lemma atoi_append: "all_digits s \<Longrightarrow> atoi_loop i (s @ t) = atoi_loop (fst (atoi_loop i s)) t"
  by (induction s arbitrary: i) auto

lemma atoi_zeros: "fst (atoi_loop 0 (replicate k CHR ''0'')) = 0"
  by (induction k) (auto simp: is_digit_def)

lemma atoi_rest: "\<not> is_digit (peek t) \<Longrightarrow> atoi_loop i t = (i, t)"
  by (cases t) (auto simp: peek_def)

lemma digit_char:
  assumes "k < 10" and "digits = ''0123456789abcdefghijklmnopqrstuvwxyz'' \<or> digits = ''0123456789ABCDEFGHIJKLMNOPQRSTUVWXYZ''"
  shows "is_digit (digits ! k)" and "of_char (digits ! k) = 48 + int k"
proof -
  have "k \<in> {0, 1, 2, 3, 4, 5, 6, 7, 8, 9}" using assms(1) by auto
  then have "is_digit (digits ! k) \<and> of_char (digits ! k) = 48 + int k"
    using assms(2) by (elim insertE disjE) (simp_all add: is_digit_def)
  then show "is_digit (digits ! k)" and "of_char (digits ! k) = 48 + int k" by auto
qed

abbreviation (input) digit_table :: "string \<Rightarrow> bool" where
  "digit_table digits \<equiv> digits = ''0123456789abcdefghijklmnopqrstuvwxyz'' \<or> digits = ''0123456789ABCDEFGHIJKLMNOPQRSTUVWXYZ''"

lemma num_digits_0 [simp]: "num_digits digits base 0 = []"
  by (simp add: num_digits.simps)

lemma num_digits_decimal:
  assumes "digit_table digits"
  shows "all_digits (num_digits digits 10 n)" and "fst (atoi_loop 0 (rev (num_digits digits 10 n))) = int n"
proof (induction n rule: less_induct)
  case (less n)
  { case 1
    show ?case
      using less [of "n div 10"] digit_char(1) [OF _ assms, of "n mod 10"]
      by (cases "n = 0") (auto simp: num_digits.simps [of digits 10 n])
  next
    case 2
    show ?case
    proof (cases "n = 0")
      case False
      have "fst (atoi_loop 0 (rev (num_digits digits 10 n))) =
        fst (atoi_loop (int (n div 10)) [digits ! (n mod 10)])"
        using less [of "n div 10"] False atoi_append [of "rev (num_digits digits 10 (n div 10))" 0]
        by (simp add: num_digits.simps [of digits 10 n])
      also have "\<dots> = int n"
        using digit_char [OF _ assms, of "n mod 10"] div_mult_mod_eq [of n 10] by (simp, linarith)
      finally show ?thesis .
    qed (simp add: num_digits.simps)
  }
qed

lemma num_digits_length:
  assumes "2 \<le> base" and "n < 2 ^ k"
  shows "length (num_digits digits base n) \<le> k"
  using assms(2)
proof (induction k arbitrary: n)
  case (Suc k)
  have "n div base \<le> n div 2" using assms(1) by (rule div_le_mono2 [rotated]) simp
  then have "n div base < 2 ^ k" using Suc.prems by auto
  then show ?case using Suc.IH [of "n div base"] by (simp add: num_digits.simps [of digits base n])
qed (simp add: num_digits.simps)

subsection \<open>Numbers\<close>

lemma flag_clear_zeropad [simp]:
  "flag (t AND - 2) 1 = False" "flag (t AND - 2) 2 = flag t 2" "flag (t AND - 2) 4 = flag t 4"
  "flag (t AND - 2) 8 = flag t 8" "flag (t AND - 2) 16 = flag t 16" "flag (t AND - 2) 32 = flag t 32"
  "flag (t AND - 2) 64 = flag t 64"
  unfolding flag_def by (simp_all add: and.assoc)

lemma flag_17: "flag t 17 \<longleftrightarrow> flag t ZEROPAD \<or> flag t LEFT"
proof -
  have "t AND 17 = (t AND 1) OR (t AND 16)" by (simp add: bit.conj_disj_distrib [symmetric])
  then show ?thesis by (simp add: flag_def or_eq_0_iff)
qed

definition num_pad :: "int \<Rightarrow> u32 \<Rightarrow> int \<Rightarrow> int \<Rightarrow> u32 \<Rightarrow> nat" where
  "num_pad w num base p type =
     nat (w - int (length (num_sign num type)) - int (length (num_prefix base type)) - max p (int (length (num_tmp num base type))))"

lemma clear_zeropad [simp]:
  "num_sign num (t AND - 2) = num_sign num t" "num_tmp num base (t AND - 2) = num_tmp num base t"
  "num_prefix base (t AND - 2) = num_prefix base t"
  by (simp_all add: num_sign_def num_tmp_def num_prefix_def digit_chars_def)

lemma number_shape:
  assumes "2 \<le> base" and "base \<le> 36"
  shows "number num base w p type = Some
     (let body = replicate (nat (p - int (length (num_tmp num base type)))) CHR ''0'' @ rev (num_tmp num base type);
          k = num_pad w num base p type; front = num_sign num type @ num_prefix base type
      in if flag type LEFT then front @ body @ replicate k CHR '' ''
         else if flag type ZEROPAD then front @ replicate k CHR ''0'' @ body
         else replicate k CHR '' '' @ front @ body)"
proof -
  let ?tmp = "num_tmp num base type"
  have base: "\<not> (base < 2 \<or> base > 36)" using assms by auto
  have sz: "(if num_sign num type \<noteq> [] then w - 1 else w) = w - int (length (num_sign num type))"
    by (simp add: num_sign_def)
  have px: "(if flag type SPECIAL then if base = 16 then v - 2 else if base = 8 then v - 1 else v else v) =
      v - int (length (num_prefix base type))" for v :: int
    by (simp add: num_prefix_def)
  have pr: "(if int (length ?tmp) > p then int (length ?tmp) else p) = max p (int (length ?tmp))" by simp
  have ze: "nat (max p (int (length ?tmp)) - int (length ?tmp)) = nat (p - int (length ?tmp))" by auto
  have used: "nat (if 0 < v then -1 else v - 1) = 0" for v :: int by simp
  note unf = Let_def pad_def flag_17 num_pad_def
  show ?thesis
  proof (cases "flag type LEFT")
    case True
    have ty: "(if flag type LEFT then type AND NOT ZEROPAD else type) = type AND - 2" using True by simp
    show ?thesis
      unfolding number_def ty unf flag_clear_zeropad clear_zeropad sz px pr ze using base True by (simp add: flag_17)
  next
    case L: False
    have ty: "(if flag type LEFT then type AND NOT ZEROPAD else type) = type" using L by simp
    show ?thesis
      unfolding number_def ty unf sz px pr ze using base L by (cases "flag type ZEROPAD") (simp_all add: used flag_17, auto simp: max_def)
  qed
qed

subsection \<open>Properties\<close>

lemma num_tmp_length:
  assumes "2 \<le> base"
  shows "1 \<le> length (num_tmp num base type)" and "length (num_tmp num base type) \<le> 32"
proof -
  have "length (num_digits d (nat base) (unat n)) \<le> 32" for d and n :: u32
    using num_digits_length [of "nat base" "unat n" 32] unsigned_less [of n, where ?'a = nat] assms by simp
  then show "length (num_tmp num base type) \<le> 32" by (simp add: num_tmp_def Let_def)
  show "1 \<le> length (num_tmp num base type)"
    using assms by (auto simp: num_tmp_def Let_def num_digits.simps [of _ "nat base"] unat_eq_0)
qed

text \<open>
  C36. For every base from 2 to 36 and all flags \<^verbatim>\<open>number\<close> writes exactly as many characters as the field
  width asks for, or as sign, prefix and digits need when that is more; and it never uses more than 32
  of the 36 characters of its buffer \<^verbatim>\<open>tmp\<close>.
\<close>

theorem number_length:
  assumes "2 \<le> base" and "base \<le> 36"
  shows "\<exists>out. number num base w p type = Some out \<and> length (num_tmp num base type) \<le> 32 \<and>
     int (length out) = max w (int (length (num_sign num type)) + int (length (num_prefix base type)) +
        max p (int (length (num_tmp num base type))))"
  using num_tmp_length [OF assms(1), of num type]
  by (simp add: number_shape [OF assms] Let_def num_pad_def max_def split: if_splits)

theorem number_length_witness:
  "\<exists>out. number 255 16 8 (-1) 32 = Some out \<and> int (length out) = 8"
proof -
  have t: "num_tmp 255 16 32 = ''FF''"
    by (simp add: num_tmp_def digit_chars_def flag_def num_digits.simps)
  show ?thesis
    using number_length [of 16 255 8 "-1" 32] by (simp add: t num_sign_def num_prefix_def flag_def)
qed

lemma sint_u32: "sint (n :: u32) = (if uint n < 2147483648 then uint n else uint n - 4294967296)"
proof -
  have u: "uint n < 4294967296" "0 \<le> uint n" using unsigned_less [of n, where ?'a = int] by auto
  have "sint n = (uint n + 2147483648) mod 4294967296 - 2147483648"
    by (simp add: sint_uint signed_take_bit_eq_take_bit_shift take_bit_eq_mod)
  moreover have "(uint n + 2147483648) mod 4294967296 = uint n + 2147483648" if "uint n < 2147483648"
    using that u by (intro mod_pos_pos_trivial) auto
  moreover have "(uint n + 2147483648) mod 4294967296 = uint n - 2147483648" if "\<not> uint n < 2147483648"
    using that u mod_add_self2 [of "uint n - 2147483648" 4294967296] by (simp add: mod_pos_pos_trivial add.commute)
  ultimately show ?thesis by auto
qed

lemma unat_abs:
  fixes n :: u32
  shows "sint n < 0 \<Longrightarrow> int (unat (- n)) = - sint n" and "0 \<le> sint n \<Longrightarrow> int (unat n) = sint n"
proof -
  have u: "uint n < 4294967296" "0 \<le> uint n" using unsigned_less [of n, where ?'a = int] by auto
  show "0 \<le> sint n \<Longrightarrow> int (unat n) = sint n" using sint_u32 [of n] u by (simp split: if_splits)
  have "(- uint n) mod 4294967296 = 4294967296 - uint n" if "0 < uint n"
    using that u by (simp add: zmod_zminus1_eq_if mod_pos_pos_trivial)
  then show "sint n < 0 \<Longrightarrow> int (unat (- n)) = - sint n"
    using sint_u32 [of n] u by (simp add: uint_word_ariths split: if_splits)
qed



lemma vsprintf_text:
  "CHR ''%'' \<notin> set s \<Longrightarrow> vsprintf_loop out (s @ fmt) ns args = vsprintf_loop (out @ s) fmt ns args"
  by (induction s arbitrary: out) auto

lemma directive_d:
  "directive pos (CHR ''d'' # s) (VInt n # args) = map_option (\<lambda>out. (out, [], s, args)) (number n 10 (-1) (-1) SIGN)"
  by (simp add: directive_def fmt_width_def fmt_precision_def fmt_qualifier_def convert_def conv_number_def peek_def
      is_digit_def option.map_comp comp_def Let_def)



text \<open>
  C40. A field width given by an argument, \<^verbatim>\<open>%*d\<close>, is not supported although the code means to: it takes the
  argument but never steps over the asterisk, which is then taken for the conversion letter. The number
  is not printed, and every directive that follows sees the wrong argument.
\<close>

theorem vsprintf_star_unsupported:
  "vsprintf (''%*d'' @ b) (VInt w # args) = vsprintf (''%%*d'' @ b) args"
proof -
  have "directive pos (CHR ''*'' # s) (VInt w # args) = Some (''%*'', [], s, args)" for pos s
    by (simp add: directive_def fmt_width_def fmt_precision_def fmt_qualifier_def convert_def peek_def is_digit_def Let_def)
  moreover have "directive pos (CHR ''%'' # s) args = Some (''%'', [], s, args)" for pos s
    by (simp add: directive_def fmt_width_def fmt_precision_def fmt_qualifier_def convert_def peek_def is_digit_def Let_def)
  ultimately show ?thesis by (simp add: vsprintf_def)
qed

end
