(* ===== verification/Mktime.thy ===== *)
theory Mktime
  imports Sched
begin

section \<open>Calendar time\<close>

text \<open>
  \<^verbatim>\<open>kernel/mktime.c\<close>: the seconds since the start of 1970, which \<^verbatim>\<open>time_init\<close> computes from the CMOS
  clock. The reference definition \<open>epoch_days\<close> counts the days of the Gregorian calendar year by year
  and month by month.
\<close>

subsection \<open>Model\<close>

record tm =
  tm_sec :: int
  tm_min :: int
  tm_hour :: int
  tm_mday :: int
  tm_mon :: int
  tm_year :: int

abbreviation (input) MINUTE :: int where "MINUTE \<equiv> 60"
abbreviation (input) HOUR :: int where "HOUR \<equiv> 3600"
abbreviation (input) DAY :: int where "DAY \<equiv> 86400"
abbreviation (input) YEAR :: int where "YEAR \<equiv> 31536000"

definition month :: "int list" where
  "month = [0, DAY * 31, DAY * (31 + 29), DAY * (31 + 29 + 31), DAY * (31 + 29 + 31 + 30),
     DAY * (31 + 29 + 31 + 30 + 31), DAY * (31 + 29 + 31 + 30 + 31 + 30),
     DAY * (31 + 29 + 31 + 30 + 31 + 30 + 31), DAY * (31 + 29 + 31 + 30 + 31 + 30 + 31 + 31),
     DAY * (31 + 29 + 31 + 30 + 31 + 30 + 31 + 31 + 30),
     DAY * (31 + 29 + 31 + 30 + 31 + 30 + 31 + 31 + 30 + 31),
     DAY * (31 + 29 + 31 + 30 + 31 + 30 + 31 + 31 + 30 + 31 + 30)]"

definition kernel_mktime :: "tm \<Rightarrow> int" where
  "kernel_mktime t =
     (let year = tm_year t - 70;
          res = YEAR * year + DAY * cdiv (year + 1) 4;
          res = res + month ! nat (tm_mon t);
          res = (if tm_mon t > 1 \<and> cmod (year + 2) 4 \<noteq> 0 then res - DAY else res);
          res = res + DAY * (tm_mday t - 1);
          res = res + HOUR * tm_hour t;
          res = res + MINUTE * tm_min t
      in res + tm_sec t)"

subsection \<open>The Gregorian calendar\<close>

definition leap :: "int \<Rightarrow> bool" where
  "leap y \<longleftrightarrow> y mod 4 = 0 \<and> (y mod 100 \<noteq> 0 \<or> y mod 400 = 0)"

definition year_days :: "int \<Rightarrow> int" where
  "year_days y = (if leap y then 366 else 365)"

definition month_days :: "int \<Rightarrow> nat \<Rightarrow> int" where
  "month_days y m = (if m = 1 then if leap y then 29 else 28 else if m \<in> {3, 5, 8, 10} then 30 else 31)"

text \<open>Days from 1 January 1970 to the given day; months count from 0, days from 1.\<close>

definition epoch_days :: "int \<Rightarrow> nat \<Rightarrow> int \<Rightarrow> int" where
  "epoch_days y m d =
     sum_list (map (\<lambda>i. year_days (1970 + int i)) [0..<nat (y - 1970)]) + sum_list (map (month_days y) [0..<m]) + (d - 1)"

text \<open>Up to 2099 every fourth year is a leap year.\<close>

lemma leap_4: "1970 \<le> y \<Longrightarrow> y < 2100 \<Longrightarrow> leap y \<longleftrightarrow> y mod 4 = 0"
proof -
  assume y: "1970 \<le> y" "y < 2100"
  have "y = 2000" if "y mod 100 = 0"
  proof -
    obtain q where q: "y = 100 * q" using \<open>y mod 100 = 0\<close> by (auto elim: dvdE)
    then have "q = 20" using y by auto
    then show ?thesis using q by simp
  qed
  then show "leap y \<longleftrightarrow> y mod 4 = 0" unfolding leap_def by auto
qed

lemma days_before_year:
  "n \<le> 130 \<Longrightarrow> sum_list (map (\<lambda>i. year_days (1970 + int i)) [0..<n]) = 365 * int n + (int n + 1) div 4"
proof (induction n)
  case (Suc n)
  have "leap (1970 + int n) \<longleftrightarrow> (int n + 2) mod 4 = 0"
    using leap_4 [of "1970 + int n"] Suc.prems by (simp) presburger
  then have "year_days (1970 + int n) = 365 + ((int n + 2) div 4 - (int n + 1) div 4)"
    unfolding year_days_def by (auto split: if_splits) presburger+
  then show ?case using Suc by (simp add: algebra_simps)
qed simp

lemma days_before_month:
  assumes "m < 12"
  shows "DAY * sum_list (map (month_days y) [0..<m]) = month ! m - (if m > 1 \<and> \<not> leap y then DAY else 0)"
proof -
  have "m \<in> {0, 1, 2, 3, 4, 5, 6, 7, 8, 9, 10, 11}" using assms by (simp, arith)
  then show ?thesis by (elim insertE emptyE) (simp_all add: month_def month_days_def upt_rec)
qed



end
