(* ===== verification/Memory.thy ===== *)
theory Memory
  imports Sched
begin

unbundle bit_operations_syntax

section \<open>Memory management\<close>

text \<open>
  \<^verbatim>\<open>mm/memory.c\<close>: the page frames above 1 MB and the page tables, with sharing between tasks.

  \<open>phys\<close> is the physical memory, read and written in 32-bit longs at addresses divisible by four;
  the page directory is at address 0. \<open>mem_map\<close> holds the reference counts of the frames, kept at
  eight bits. The state extends that of the scheduler. \<^verbatim>\<open>invalidate()\<close> flushes the processor's
  cache of translations and has no effect here, where every walk reads the tables; messages are
  dropped. \<^verbatim>\<open>oom()\<close> ends the task.
\<close>

subsection \<open>Model\<close>

record mm_st = sched_st +
  phys :: "u32 \<Rightarrow> u32"
  mem_map :: "nat \<Rightarrow> u8"
  HIGH_MEMORY :: u32

abbreviation (input) LOW_MEM :: u32 where "LOW_MEM \<equiv> 0x100000"
abbreviation (input) PAGING_PAGES :: nat where "PAGING_PAGES \<equiv> 3840"
abbreviation (input) USED :: u8 where "USED \<equiv> 100"
abbreviation (input) SIGSEGV :: int where "SIGSEGV \<equiv> 11"

definition MAP_NR :: "u32 \<Rightarrow> nat" where
  "MAP_NR addr = unat (drop_bit 12 (addr - LOW_MEM))"

definition poke :: "u32 \<Rightarrow> u32 \<Rightarrow> 'z mm_st_scheme \<Rightarrow> 'z mm_st_scheme" where
  "poke a v s = s\<lparr>phys := (phys s)(a := v)\<rparr>"

definition upd_map :: "nat \<Rightarrow> (u8 \<Rightarrow> u8) \<Rightarrow> 'z mm_st_scheme \<Rightarrow> 'z mm_st_scheme" where
  "upd_map i f s = s\<lparr>mem_map := (mem_map s)(i := f (mem_map s i))\<rparr>"

definition slot :: "u32 \<Rightarrow> nat \<Rightarrow> u32" where
  "slot p i = p + word_of_nat (4 * i)"

definition oom :: "'z mm_st_scheme \<Rightarrow> ('a, 'z mm_st_scheme) outcome" where
  "oom s = Exit SIGSEGV s"

definition zero_page :: "u32 \<Rightarrow> 'z mm_st_scheme \<Rightarrow> 'z mm_st_scheme" where
  "zero_page p s = fold (\<lambda>i. poke (slot p i) 0) (rev [0..<1024]) s"

definition copy_page :: "u32 \<Rightarrow> u32 \<Rightarrow> 'z mm_st_scheme \<Rightarrow> 'z mm_st_scheme" where
  "copy_page from to s = fold (\<lambda>i s. poke (slot to i) (phys s (slot from i)) s) [0..<1024] s"

text \<open>The scan of \<^verbatim>\<open>repne ; scasb\<close> runs from the last frame down.\<close>

definition free_frame :: "'z mm_st_scheme \<Rightarrow> nat option" where
  "free_frame s = find (\<lambda>i. mem_map s i = 0) (rev [0..<PAGING_PAGES])"

definition get_free_page :: "'z mm_st_scheme \<Rightarrow> u32 \<times> 'z mm_st_scheme" where
  "get_free_page s =
     (case free_frame s of
        None \<Rightarrow> (0, s)
      | Some i \<Rightarrow> let p = push_bit 12 (word_of_nat i) + LOW_MEM
                  in (p, zero_page p (upd_map i (\<lambda>_. 1) s)))"

definition free_page :: "u32 \<Rightarrow> 'z mm_st_scheme \<Rightarrow> (unit, 'z mm_st_scheme) outcome" where
  "free_page addr s =
     (if addr < LOW_MEM then Ok () s
      else if addr \<ge> HIGH_MEMORY s then Panic ''trying to free nonexistent page''
      else if mem_map s (MAP_NR addr) \<noteq> 0 then Ok () (upd_map (MAP_NR addr) (\<lambda>c. c - 1) s)
      else Panic ''trying to free free page'')"

definition dir_addr :: "u32 \<Rightarrow> u32" where
  "dir_addr a = drop_bit 20 a AND 0xffc"

definition frame :: "u32 \<Rightarrow> u32" where
  "frame e = 0xfffff000 AND e"

definition present :: "u32 \<Rightarrow> bool" where
  "present e \<longleftrightarrow> 1 AND e \<noteq> 0"

definition free_pte :: "u32 \<Rightarrow> nat \<Rightarrow> 'z mm_st_scheme \<Rightarrow> (unit, 'z mm_st_scheme) outcome" where
  "free_pte pg_table nr s =
     (let a = slot pg_table nr
      in bindK (if present (phys s a) then free_page (frame (phys s a)) s else Ok () s)
           (\<lambda>_ s. Ok () (poke a 0 s)))"

definition free_dir :: "u32 \<Rightarrow> 'z mm_st_scheme \<Rightarrow> (unit, 'z mm_st_scheme) outcome" where
  "free_dir dir s =
     (if \<not> present (phys s dir) then Ok () s
      else bindK (forK [0..<1024] (free_pte (frame (phys s dir))) s) (\<lambda>_ s.
           bindK (free_page (frame (phys s dir)) s) (\<lambda>_ s. Ok () (poke dir 0 s))))"

definition free_page_tables :: "u32 \<Rightarrow> u32 \<Rightarrow> 'z mm_st_scheme \<Rightarrow> (int, 'z mm_st_scheme) outcome" where
  "free_page_tables from sz s =
     (if from AND 0x3fffff \<noteq> 0 then Panic ''free_page_tables called with wrong alignment''
      else if from = 0 then Panic ''Trying to free up swapper memory space''
      else let n = unat (drop_bit 22 (sz + 0x3fffff))
           in bindK (forK [0..<n] (\<lambda>k. free_dir (slot (dir_addr from) k)) s) (\<lambda>_ s. Ok 0 s))"

definition copy_pte :: "u32 \<Rightarrow> u32 \<Rightarrow> nat \<Rightarrow> 'z mm_st_scheme \<Rightarrow> 'z mm_st_scheme" where
  "copy_pte from_tbl to_tbl i s =
     (let this_page = phys s (slot from_tbl i) in
      if \<not> present this_page then s
      else let this_page = this_page AND NOT 2;
               s = poke (slot to_tbl i) this_page s
           in if this_page > LOW_MEM
              then upd_map (MAP_NR this_page) (\<lambda>c. c + 1) (poke (slot from_tbl i) this_page s)
              else s)"

text \<open>One round of the outer loop; \<open>False\<close> is the early \<^verbatim>\<open>return -1\<close>.\<close>

definition copy_dir ::
    "nat \<Rightarrow> u32 \<Rightarrow> u32 \<Rightarrow> 'z mm_st_scheme \<Rightarrow> (bool, 'z mm_st_scheme) outcome" where
  "copy_dir nr from_dir to_dir s =
     (if present (phys s to_dir) then Panic ''copy_page_tables: already exist''
      else if \<not> present (phys s from_dir) then Ok True s
      else let from_tbl = frame (phys s from_dir); (to_tbl, s) = get_free_page s
           in if to_tbl = 0 then Ok False s
              else let s = poke to_dir (to_tbl OR 7) s
                   in Ok True (fold (copy_pte from_tbl to_tbl) [0..<nr] s))"

primrec copy_dirs ::
    "nat \<Rightarrow> nat \<Rightarrow> u32 \<Rightarrow> u32 \<Rightarrow> 'z mm_st_scheme \<Rightarrow> (bool, 'z mm_st_scheme) outcome" where
  "copy_dirs nr 0 from_dir to_dir s = Ok True s"
| "copy_dirs nr (Suc n) from_dir to_dir s =
     bindK (copy_dir nr from_dir to_dir s) (\<lambda>ok s.
       if ok then copy_dirs nr n (from_dir + 4) (to_dir + 4) s else Ok False s)"

definition copy_page_tables ::
    "u32 \<Rightarrow> u32 \<Rightarrow> u32 \<Rightarrow> 'z mm_st_scheme \<Rightarrow> (int, 'z mm_st_scheme) outcome" where
  "copy_page_tables from to sz s =
     (if from AND 0x3fffff \<noteq> 0 \<or> to AND 0x3fffff \<noteq> 0
      then Panic ''copy_page_tables called with wrong alignment''
      else let n = unat (drop_bit 22 (sz + 0x3fffff))
           in bindK (copy_dirs (if from = 0 then 0xA0 else 1024) n (dir_addr from) (dir_addr to) s)
                (\<lambda>ok s. Ok (if ok then 0 else -1) s))"

definition put_page :: "u32 \<Rightarrow> u32 \<Rightarrow> 'z mm_st_scheme \<Rightarrow> u32 \<times> 'z mm_st_scheme" where
  "put_page page address s =
     (let d = dir_addr address;
          i = unat (drop_bit 12 address AND 0x3ff)
      in if present (phys s d)
         then (page, poke (slot (frame (phys s d)) i) (page OR 7) s)
         else let (tmp, s) = get_free_page s
              in if tmp = 0 then (0, s)
                 else (page, poke (slot tmp i) (page OR 7) (poke d (tmp OR 7) s)))"

definition un_wp_page :: "u32 \<Rightarrow> 'z mm_st_scheme \<Rightarrow> (unit, 'z mm_st_scheme) outcome" where
  "un_wp_page table_entry s =
     (let old_page = frame (phys s table_entry) in
      if old_page \<ge> LOW_MEM \<and> mem_map s (MAP_NR old_page) = 1
      then Ok () (poke table_entry (phys s table_entry OR 2) s)
      else let (new_page, s) = get_free_page s
           in if new_page = 0 then oom s
              else let s = (if old_page \<ge> LOW_MEM then upd_map (MAP_NR old_page) (\<lambda>c. c - 1) s else s)
                   in Ok () (copy_page old_page new_page (poke table_entry (new_page OR 7) s)))"

definition pte_addr :: "u32 \<Rightarrow> 'z mm_st_scheme \<Rightarrow> u32" where
  "pte_addr address s = (drop_bit 10 address AND 0xffc) + frame (phys s (dir_addr address))"

definition do_wp_page :: "u32 \<Rightarrow> u32 \<Rightarrow> 'z mm_st_scheme \<Rightarrow> (unit, 'z mm_st_scheme) outcome" where
  "do_wp_page error_code address s = un_wp_page (pte_addr address s) s"

definition write_verify :: "u32 \<Rightarrow> 'z mm_st_scheme \<Rightarrow> (unit, 'z mm_st_scheme) outcome" where
  "write_verify address s =
     (if \<not> present (phys s (dir_addr address)) then Ok () s
      else if 3 AND phys s (pte_addr address s) = 1 then un_wp_page (pte_addr address s) s
      else Ok () s)"

definition get_empty_page :: "u32 \<Rightarrow> 'z mm_st_scheme \<Rightarrow> (unit, 'z mm_st_scheme) outcome" where
  "get_empty_page address s =
     (let (tmp, s) = get_free_page s
      in if tmp = 0 then bindK (free_page tmp s) (\<lambda>_. oom)
         else let (r, s) = put_page tmp address s
              in if r = 0 then bindK (free_page tmp s) (\<lambda>_. oom) else Ok () s)"

definition try_to_share :: "u32 \<Rightarrow> task_struct \<Rightarrow> 'z mm_st_scheme \<Rightarrow> (int, 'z mm_st_scheme) outcome" where
  "try_to_share address p s =
     (let from_page = dir_addr address + dir_addr (t_start_code p);
          to_page = dir_addr address + dir_addr (t_start_code (cur s));
          from = phys s from_page
      in if \<not> present from then Ok 0 s
         else let from_page = frame from + (drop_bit 10 address AND 0xffc);
                  phys_addr = phys s from_page
              in if phys_addr AND 0x41 \<noteq> 1 then Ok 0 s
                 else let phys_addr = frame phys_addr
                      in if phys_addr \<ge> HIGH_MEMORY s \<or> phys_addr < LOW_MEM then Ok 0 s
                         else let to = phys s to_page
                              in bindK (if present to then Ok to s
                                        else let (to, s) = get_free_page s
                                             in if to \<noteq> 0 then Ok to (poke to_page (to OR 7) s) else oom s)
                                   (\<lambda>to s.
                                     let to_page = frame to + (drop_bit 10 address AND 0xffc)
                                     in if present (phys s to_page)
                                        then Panic ''try_to_share: to_page already exists''
                                        else let s = poke from_page (phys s from_page AND NOT 2) s;
                                                 s = poke to_page (phys s from_page) s
                                             in Ok 1 (upd_map (MAP_NR phys_addr) (\<lambda>c. c + 1) s)))"

definition mem_init :: "u32 \<Rightarrow> u32 \<Rightarrow> 'z mm_st_scheme \<Rightarrow> 'z mm_st_scheme" where
  "mem_init start_mem end_mem s =
     (let s = s\<lparr>HIGH_MEMORY := end_mem\<rparr>;
          s = fold (\<lambda>i. upd_map i (\<lambda>_. USED)) [0..<PAGING_PAGES] s;
          i = MAP_NR start_mem;
          n = nat (sint (end_mem - start_mem) div 4096)
      in fold (\<lambda>k. upd_map (i + k) (\<lambda>_. 0)) [0..<n] s)"

subsection \<open>Addresses\<close>

text \<open>An address is a page (a multiple of 4096) and an offset; a table is a page of 1024 longs.\<close>

definition aligned :: "u32 \<Rightarrow> bool" where
  "aligned p \<longleftrightarrow> take_bit 12 p = 0"

lemma frame_mask: "frame e = NOT (mask 12) AND e"
proof -
  have "(0xfffff000 :: u32) = NOT (mask 12)" by (simp add: mask_eq_exp_minus_1)
  then show ?thesis by (simp add: frame_def)
qed

lemma aligned_bit: "aligned p \<Longrightarrow> n < 12 \<Longrightarrow> \<not> bit p n"
  using bit_take_bit_iff [of 12 p n] by (simp add: aligned_def)

lemma bit_offset: "i < 1024 \<Longrightarrow> bit (word_of_nat (4 * i) :: u32) n \<Longrightarrow> n < 12"
proof -
  assume i: "i < 1024" and b: "bit (word_of_nat (4 * i) :: u32) n"
  have "take_bit 12 (4 * i) = 4 * i" using i by (simp add: take_bit_nat_eq_self)
  then show "n < 12" using b bit_take_bit_iff [of 12 "4 * i" n] by (simp only: bit_of_nat_iff) simp
qed

lemma slot_or: "aligned p \<Longrightarrow> i < 1024 \<Longrightarrow> slot p i = p OR word_of_nat (4 * i)"
  unfolding slot_def by (rule disjunctive_add) (use aligned_bit bit_offset in blast)

lemma frame_aligned [simp]: "aligned (frame e)"
  unfolding aligned_def frame_mask by (rule bit_word_eqI) (simp add: bit_simps)

lemma aligned_0 [simp]: "aligned 0"
  by (simp add: aligned_def)

lemma frame_id: "aligned p \<Longrightarrow> frame p = p"
  unfolding frame_mask by (rule bit_word_eqI) (auto simp: bit_simps dest: aligned_bit)

lemma frame_slot: "aligned p \<Longrightarrow> i < 1024 \<Longrightarrow> frame (slot p i) = p"
  unfolding frame_mask slot_or
  by (rule bit_word_eqI) (auto simp: bit_simps dest: aligned_bit bit_offset)

lemma slot_eq_iff:
  assumes "aligned p" and "aligned q" and "i < 1024" and "j < 1024"
  shows "slot p i = slot q j \<longleftrightarrow> p = q \<and> i = j"
proof
  assume e: "slot p i = slot q j"
  then have "p = q" using frame_slot [OF assms(1,3)] frame_slot [OF assms(2,4)] by simp
  with e have "word_of_nat (4 * i) = (word_of_nat (4 * j) :: u32)" by (simp add: slot_def)
  then have "unat (word_of_nat (4 * i) :: u32) = unat (word_of_nat (4 * j) :: u32)" by (rule arg_cong)
  then have "4 * i = 4 * j"
    using assms(3,4) by (simp only: unat_of_nat) (simp add: take_bit_nat_eq_self)
  with \<open>p = q\<close> show "p = q \<and> i = j" by simp
qed simp

lemma frame_or_flags [simp]: "aligned p \<Longrightarrow> f < 4096 \<Longrightarrow> frame (p OR f) = p"
proof -
  assume p: "aligned p" and f: "f < 4096"
  have "take_bit 12 f = f"
    using f take_bit_nat_eq_self [of "unat f" 12]
    by (intro word_unat_eq_iff [THEN iffD2]) (simp add: unsigned_take_bit_eq word_less_nat_alt)
  then have "bit f n \<Longrightarrow> n < 12" for n using bit_take_bit_iff [of 12 f n] by simp
  then show "frame (p OR f) = p"
    unfolding frame_mask using p by (intro bit_word_eqI) (auto simp: bit_simps dest: aligned_bit)
qed

lemma frame_clear_flag [simp]: "frame (e AND NOT 2) = frame e" "frame (e OR 2) = frame e"
  unfolding frame_mask by (rule bit_word_eqI; auto simp: bit_simps)+

lemma present_bit: "present e \<longleftrightarrow> bit e 0"
  by (simp add: present_def and.commute [of 1] and_one_eq odd_iff_mod_2_eq_one even_iff_mod_2_eq_zero bit_0)

lemma present_flags [simp]: "present (p OR 7)" "present (e AND NOT 2) = present e" "present (e OR 2) = present e"
  by (simp_all add: present_bit bit_simps)

text \<open>Linear addresses: entry \<open>dir_nr a\<close> of the directory, entry \<open>tbl_nr a\<close> of its table.\<close>

definition dir_nr :: "u32 \<Rightarrow> nat" where
  "dir_nr a = unat (drop_bit 22 a)"

definition tbl_nr :: "u32 \<Rightarrow> nat" where
  "tbl_nr a = unat (take_bit 10 (drop_bit 12 a))"

lemma dir_nr_less: "dir_nr a < 1024"
proof -
  have "drop_bit 22 (unat a) < 1024"
    using unsigned_less [of a, where ?'a = nat] by (simp add: drop_bit_nat_def)
  then show ?thesis by (simp add: dir_nr_def unat_drop_bit_eq)
qed

lemma tbl_nr_less: "tbl_nr a < 1024"
  using take_bit_nat_less_exp [of 10 "unat (drop_bit 12 a)"] by (simp add: tbl_nr_def unsigned_take_bit_eq)

lemma index_mask:
  fixes a :: u32
  assumes "x = drop_bit k a" and "y = drop_bit (k + 2) a"
  shows "x AND 0xffc = word_of_nat (4 * unat (take_bit 10 y))"
proof -
  have m: "(0xffc :: u32) = push_bit 2 (mask 10)" by (simp add: mask_eq_exp_minus_1)
  have "word_of_nat (4 * unat (take_bit 10 y)) = push_bit 2 (take_bit 10 y)"
    by (simp add: push_bit_eq_mult)
  then show ?thesis
    unfolding m assms by (intro bit_word_eqI) (auto simp: bit_simps simp flip: add_2_eq_Suc' add.assoc)
qed

lemma dir_addr_slot: "dir_addr a = slot 0 (dir_nr a)"
proof -
  have "take_bit 10 (drop_bit 22 a) = drop_bit 22 a"
    by (rule bit_word_eqI) (auto simp: bit_simps dest: bit_imp_le_length)
  then show ?thesis
    using index_mask [of "drop_bit 20 a" 20 a "drop_bit 22 a"] by (simp add: dir_addr_def slot_def dir_nr_def)
qed

lemma pte_addr_slot: "pte_addr a s = slot (frame (phys s (dir_addr a))) (tbl_nr a)"
  using index_mask [of "drop_bit 10 a" 10 a "drop_bit 12 a"]
  by (simp add: pte_addr_def slot_def tbl_nr_def)

subsection \<open>Memory accesses\<close>

lemma poke_simps [simp]:
  "phys (poke a v s) = (phys s)(a := v)" "mem_map (poke a v s) = mem_map s"
  "HIGH_MEMORY (poke a v s) = HIGH_MEMORY s"
  by (simp_all add: poke_def)

lemma upd_map_simps [simp]:
  "phys (upd_map i f s) = phys s" "mem_map (upd_map i f s) = (mem_map s)(i := f (mem_map s i))"
  "HIGH_MEMORY (upd_map i f s) = HIGH_MEMORY s"
  by (simp_all add: upd_map_def)

definition same_task_state :: "'z mm_st_scheme \<Rightarrow> 'z mm_st_scheme \<Rightarrow> bool" where
  "same_task_state s t \<longleftrightarrow> (\<exists>ph mp. t = s\<lparr>phys := ph, mem_map := mp\<rparr>)"

lemma phys_fold_poke:
  "phys (fold (\<lambda>i. poke (g i) v) xs s) a = (if a \<in> g ` set xs then v else phys s a)"
  by (induction xs arbitrary: s) auto

lemma zero_page_simps:
  "phys (zero_page p s) a = (if a \<in> slot p ` {..<1024} then 0 else phys s a)"
  "mem_map (zero_page p s) = mem_map s" "HIGH_MEMORY (zero_page p s) = HIGH_MEMORY s"
  unfolding zero_page_def
  by (simp_all add: phys_fold_poke atLeast0LessThan fold_frame [where g = mem_map]
      fold_frame [where g = HIGH_MEMORY] del: upt_rec_numeral)

lemma copy_page_upto:
  fixes s :: "'z mm_st_scheme"
  assumes "aligned p" and "aligned q" and "p \<noteq> q" and "n \<le> 1024"
  defines "t \<equiv> fold (\<lambda>i s. poke (slot q i) (phys s (slot p i)) s) [0..<n] s"
  shows "(\<forall>i<n. phys t (slot q i) = phys s (slot p i)) \<and>
     (\<forall>a. a \<notin> slot q ` {..<n} \<longrightarrow> phys t a = phys s a) \<and> mem_map t = mem_map s \<and> HIGH_MEMORY t = HIGH_MEMORY s"
  unfolding t_def using assms(4)
proof (induction n)
  case (Suc n)
  have "slot p n \<notin> slot q ` {..<n}" using slot_eq_iff [OF assms(1,2)] assms(3) Suc.prems by auto
  then show ?case
    using Suc slot_eq_iff [OF assms(2,2), of _ n] by (auto simp: less_Suc_eq lessThan_Suc)
qed simp

lemma copy_page_simps:
  assumes "aligned p" and "aligned q" and "p \<noteq> q"
  shows "i < 1024 \<Longrightarrow> phys (copy_page p q s) (slot q i) = phys s (slot p i)"
    and "a \<notin> slot q ` {..<1024} \<Longrightarrow> phys (copy_page p q s) a = phys s a"
    and "mem_map (copy_page p q s) = mem_map s" and "HIGH_MEMORY (copy_page p q s) = HIGH_MEMORY s"
  using copy_page_upto [OF assms order_refl, of s] unfolding copy_page_def by auto

subsection \<open>Page frames\<close>

definition page_of :: "nat \<Rightarrow> u32" where
  "page_of i = push_bit 12 (word_of_nat i) + LOW_MEM"

lemma unat_page_of:
  assumes "i < PAGING_PAGES"
  shows "unat (page_of i) = 4096 * i + 0x100000"
proof -
  have "page_of i = word_of_nat (4096 * i + 0x100000)"
    by (simp add: page_of_def push_bit_eq_mult)
  then show ?thesis using assms by (simp only: unat_of_nat) (simp add: take_bit_nat_eq_self)
qed

lemma aligned_unat: "aligned p \<longleftrightarrow> 4096 dvd unat p"
  unfolding aligned_def word_unat_eq_iff unsigned_take_bit_eq by (simp add: take_bit_nat_def dvd_eq_mod_eq_0)

lemma MAP_NR_unat: "LOW_MEM \<le> a \<Longrightarrow> MAP_NR a = (unat a - 0x100000) div 4096"
  by (simp add: MAP_NR_def unat_drop_bit_eq drop_bit_nat_def unat_sub word_le_nat_alt)

lemma page_of_simps:
  assumes "i < PAGING_PAGES"
  shows "aligned (page_of i)" and "LOW_MEM \<le> page_of i" and "page_of i < 0x1000000"
    and "page_of i \<noteq> 0" and "MAP_NR (page_of i) = i"
proof -
  show 1: "aligned (page_of i)" "LOW_MEM \<le> page_of i" "page_of i < 0x1000000" "page_of i \<noteq> 0"
    using unat_page_of [OF assms] assms
    by (auto simp: aligned_unat word_le_nat_alt word_less_nat_alt dvd_add)
  show "MAP_NR (page_of i) = i" using unat_page_of [OF assms] 1(2) by (simp add: MAP_NR_unat)
qed

lemma page_of_MAP_NR:
  assumes "aligned p" and "LOW_MEM \<le> p" and "p < 0x1000000"
  shows "page_of (MAP_NR p) = p" and "MAP_NR p < PAGING_PAGES"
proof -
  obtain n where n: "unat p = 4096 * n" using assms(1) by (auto simp: aligned_unat)
  then have m: "MAP_NR p = n - 256" "256 \<le> n" "n < 4096"
    using assms(2,3) by (auto simp: MAP_NR_unat word_le_nat_alt word_less_nat_alt)
  then show "MAP_NR p < PAGING_PAGES" by simp
  then have "unat (page_of (MAP_NR p)) = unat p" using m n by (simp add: unat_page_of)
  then show "page_of (MAP_NR p) = p" by (simp add: word_unat_eq_iff)
qed

lemma page_of_inj: "i < PAGING_PAGES \<Longrightarrow> j < PAGING_PAGES \<Longrightarrow> page_of i = page_of j \<longleftrightarrow> i = j"
  using page_of_simps(5) by metis

lemma free_frame_None: "free_frame s = None \<longleftrightarrow> (\<forall>i<PAGING_PAGES. mem_map s i \<noteq> 0)"
  unfolding free_frame_def by (auto simp: find_None_iff simp del: upt_rec_numeral)

lemma free_frame_Some:
  assumes "free_frame s = Some i"
  shows "i < PAGING_PAGES" and "mem_map s i = 0" and "\<forall>j. i < j \<longrightarrow> j < PAGING_PAGES \<longrightarrow> mem_map s j \<noteq> 0"
proof -
  from assms obtain k where k: "k < PAGING_PAGES" "i = rev [0..<PAGING_PAGES] ! k" "mem_map s i = 0"
    "\<forall>j<k. mem_map s (rev [0..<PAGING_PAGES] ! j) \<noteq> 0"
    unfolding free_frame_def find_Some_iff by (auto simp del: upt_rec_numeral)
  have nth: "j < PAGING_PAGES \<Longrightarrow> rev [0..<PAGING_PAGES] ! j = PAGING_PAGES - Suc j" for j
    by (simp add: rev_nth del: upt_rec_numeral)
  show "i < PAGING_PAGES" and "mem_map s i = 0" using k nth [of k] by auto
  show "\<forall>j. i < j \<longrightarrow> j < PAGING_PAGES \<longrightarrow> mem_map s j \<noteq> 0"
  proof (intro allI impI)
    fix j assume j: "i < j" "j < PAGING_PAGES"
    then have "PAGING_PAGES - Suc j < k" using k nth [of k] by auto
    then show "mem_map s j \<noteq> 0" using k(4) nth [of "PAGING_PAGES - Suc j"] j by auto
  qed
qed

lemma get_free_page_cases:
  obtains (full) "get_free_page s = (0, s)" and "\<forall>i<PAGING_PAGES. mem_map s i \<noteq> 0"
  | (page) i where "get_free_page s = (page_of i, zero_page (page_of i) (upd_map i (\<lambda>_. 1) s))"
      and "i < PAGING_PAGES" and "mem_map s i = 0"
proof (cases "free_frame s")
  case None
  then show ?thesis using free_frame_None full by (auto simp: get_free_page_def)
next
  case (Some i)
  then show ?thesis
    using free_frame_Some [OF Some] page [of i] by (simp add: get_free_page_def page_of_def Let_def)
qed

end
