(* ===== verification/Page_Tables.thy ===== *)
theory Page_Tables
  imports Memory
begin

unbundle bit_operations_syntax

section \<open>Page tables and reference counts\<close>

text \<open>
  The invariant of \<^verbatim>\<open>mm/memory.c\<close> and the properties of its operations.

  \<open>entry s\<close> abstracts the page directory and the tables it points to: \<open>entry s (d, None)\<close> is the
  directory entry \<open>d\<close>, \<open>entry s (d, Some i)\<close> is entry \<open>i\<close> of its table, \<open>None\<close> when it is not present.
  The invariant \<open>mm_inv h s\<close> says that the tables are disjoint and that every reference count in
  \<^verbatim>\<open>mem_map\<close> is exactly the number of entries of the user part of the directory (entry 4 on: the
  first four map the kernel and are not counted) that point to the frame, plus the number \<open>h k\<close> of
  references held elsewhere: by kernel stacks, or by callers that are about to map the page. An
  operation that keeps \<open>h\<close> neither leaks a page nor frees one that is still mapped.
\<close>

subsection \<open>The tables as a map\<close>

type_synonym ptref = "nat \<times> nat option"

definition pde :: "'z mm_st_scheme \<Rightarrow> nat \<Rightarrow> u32" where
  "pde s d = phys s (slot 0 d)"

definition if_present :: "u32 \<Rightarrow> u32 option" where
  "if_present e = (if present e then Some e else None)"

fun entry :: "'z mm_st_scheme \<Rightarrow> ptref \<Rightarrow> u32 option" where
  "entry s (d, None) = (if d < 1024 then if_present (pde s d) else None)"
| "entry s (d, Some i) =
     (if d < 1024 \<and> i < 1024 \<and> present (pde s d)
      then if_present (phys s (slot (frame (pde s d)) i)) else None)"

text \<open>What the processor sees at a linear address.\<close>

definition walk :: "'z mm_st_scheme \<Rightarrow> u32 \<Rightarrow> u32 option" where
  "walk s a = entry s (dir_nr a, Some (tbl_nr a))"

definition user_refs :: "ptref set" where
  "user_refs = {4..<1024} \<times> insert None (Some ` {..<1024})"

definition refs :: "(ptref \<Rightarrow> u32 option) \<Rightarrow> u32 \<Rightarrow> nat" where
  "refs m p = card {x \<in> user_refs. map_option frame (m x) = Some p}"

definition tables_ok :: "(ptref \<Rightarrow> u32 option) \<Rightarrow> u32 \<Rightarrow> bool" where
  "tables_ok m high \<longleftrightarrow>
     LOW_MEM \<le> high \<and> high \<le> 0x1000000 \<and>
     (\<forall>d e. m (d, None) = Some e \<longrightarrow>
        (if d < 4 then frame e \<noteq> 0 \<and> frame e < LOW_MEM else LOW_MEM \<le> frame e \<and> frame e < high)) \<and>
     (\<forall>d d' e e'. m (d, None) = Some e \<longrightarrow> m (d', None) = Some e' \<longrightarrow> frame e = frame e' \<longrightarrow> d = d') \<and>
     (\<forall>d i e. 4 \<le> d \<longrightarrow> m (d, Some i) = Some e \<longrightarrow> frame e < high) \<and>
     (\<forall>d i e d' e'. 4 \<le> d \<longrightarrow> 4 \<le> d' \<longrightarrow> m (d, Some i) = Some e \<longrightarrow> m (d', None) = Some e' \<longrightarrow>
        frame e \<noteq> frame e')"

definition counts_ok :: "(nat \<Rightarrow> nat) \<Rightarrow> (ptref \<Rightarrow> u32 option) \<Rightarrow> (nat \<Rightarrow> u8) \<Rightarrow> bool" where
  "counts_ok h m mp \<longleftrightarrow> (\<forall>k<PAGING_PAGES. unat (mp k) = refs m (page_of k) + h k)"

text \<open>Frames that do not exist are held for ever.\<close>

definition high_held :: "(nat \<Rightarrow> nat) \<Rightarrow> u32 \<Rightarrow> bool" where
  "high_held h high \<longleftrightarrow> (\<forall>k<PAGING_PAGES. high \<le> page_of k \<longrightarrow> 0 < h k)"

definition mm_inv :: "(nat \<Rightarrow> nat) \<Rightarrow> 'z mm_st_scheme \<Rightarrow> bool" where
  "mm_inv h s \<longleftrightarrow> tables_ok (entry s) (HIGH_MEMORY s) \<and> counts_ok h (entry s) (mem_map s) \<and>
     high_held h (HIGH_MEMORY s)"

subsection \<open>How stores change the map\<close>

lemma finite_user_refs [simp]: "finite user_refs"
  by (simp add: user_refs_def)

lemma refs_upd:
  assumes "x \<in> user_refs"
  shows "refs (m(x := v)) p + (if map_option frame (m x) = Some p then 1 else 0) =
     refs m p + (if map_option frame v = Some p then 1 else 0)"
proof -
  define A where "A = {y \<in> user_refs. y \<noteq> x \<and> map_option frame (m y) = Some p}"
  have fin: "finite A" "x \<notin> A" by (auto simp: A_def)
  have 1: "{y \<in> user_refs. map_option frame ((m(x := v)) y) = Some p} =
      (if map_option frame v = Some p then insert x A else A)"
    and 2: "{y \<in> user_refs. map_option frame (m y) = Some p} =
      (if map_option frame (m x) = Some p then insert x A else A)"
    using assms by (auto simp: A_def)
  show ?thesis unfolding refs_def 1 2 using fin by (simp del: map_option_eq_Some)
qed

lemma refs_upd_kernel: "x \<notin> user_refs \<Longrightarrow> refs (m(x := v)) p = refs m p"
  unfolding refs_def by (rule arg_cong [of _ _ card]) auto

lemma refs_pos: "x \<in> user_refs \<Longrightarrow> m x = Some e \<Longrightarrow> 0 < refs m (frame e)"
  unfolding refs_def by (subst card_gt_0_iff, cases x) (auto intro!: exI [of _ "fst x"])

lemma ptref_cases:
  obtains (dir) d where "x = (d, None)" | (pte) d i where "x = (d, Some i)"
  by (cases x; cases "snd x") auto

lemma entry_table: "entry s (d, Some i) = Some e \<Longrightarrow> \<exists>e'. entry s (d, None) = Some e'"
  by (auto simp: if_present_def split: if_splits)

lemma entry_None_iff: "entry s (d, None) = Some e \<longleftrightarrow> d < 1024 \<and> present e \<and> pde s d = e"
  by (auto simp: if_present_def)

lemma tables_okD:
  assumes "tables_ok m high"
  shows "LOW_MEM \<le> high" and "high \<le> 0x1000000"
    and "m (d, None) = Some e \<Longrightarrow>
       if d < 4 then frame e \<noteq> 0 \<and> frame e < LOW_MEM else LOW_MEM \<le> frame e \<and> frame e < high"
    and "m (d, None) = Some e \<Longrightarrow> m (d', None) = Some e' \<Longrightarrow> frame e = frame e' \<Longrightarrow> d = d'"
    and "4 \<le> d \<Longrightarrow> m (d, Some i) = Some e \<Longrightarrow> frame e < high"
    and "4 \<le> d \<Longrightarrow> 4 \<le> d' \<Longrightarrow> m (d, Some i) = Some e \<Longrightarrow> m (d', None) = Some e' \<Longrightarrow> frame e \<noteq> frame e'"
  using assms unfolding tables_ok_def by blast+

lemma table_nonzero: "tables_ok m high \<Longrightarrow> m (d, None) = Some e \<Longrightarrow> frame e \<noteq> 0"
  using tables_okD(3) [of m high d e] by (auto split: if_splits)

text \<open>A store outside the directory and its tables is invisible.\<close>

lemma entry_cong:
  assumes "\<And>d. d < 1024 \<Longrightarrow> phys t (slot 0 d) = phys s (slot 0 d)"
    and "\<And>d e i. entry s (d, None) = Some e \<Longrightarrow> i < 1024 \<Longrightarrow>
       phys t (slot (frame e) i) = phys s (slot (frame e) i)"
  shows "entry t = entry s"
proof
  fix x show "entry t x = entry s x"
  proof (cases x rule: ptref_cases)
    case (dir d)
    then show ?thesis using assms(1) by (simp add: pde_def)
  next
    case (pte d i)
    then show ?thesis
      using assms(1) [of d] assms(2) [of d "pde s d" i]
      by (cases "d < 1024 \<and> i < 1024") (auto simp: pde_def if_present_def)
  qed
qed

lemma entry_other_page:
  assumes "tables_ok (entry s) high" and "aligned p" and "p \<noteq> 0"
    and "\<And>d e. entry s (d, None) = Some e \<Longrightarrow> frame e \<noteq> p"
    and "\<And>a. a \<notin> slot p ` {..<1024} \<Longrightarrow> phys t a = phys s a"
  shows "entry t = entry s"
proof (rule entry_cong)
  fix d :: nat assume "d < 1024"
  then have "slot 0 d \<notin> slot p ` {..<1024}"
    using slot_eq_iff [of 0 p d] assms(2,3) by auto
  then show "phys t (slot 0 d) = phys s (slot 0 d)" by (rule assms(5))
next
  fix d i :: nat and e assume "entry s (d, None) = Some e" "i < 1024"
  then have "slot (frame e) i \<notin> slot p ` {..<1024}"
    using slot_eq_iff [of "frame e" p i] assms(2) assms(4) by auto
  then show "phys t (slot (frame e) i) = phys s (slot (frame e) i)" by (rule assms(5))
qed

lemma entry_poke_pte:
  assumes ok: "tables_ok (entry s) high" and d: "entry s (d, None) = Some e" and i: "i < 1024"
  shows "entry (poke (slot (frame e) i) v s) = (entry s)((d, Some i) := if_present v)"
proof
  let ?t = "poke (slot (frame e) i) v s"
  have d': "d < 1024" "present e" "pde s d = e" using d unfolding entry_None_iff by auto
  have "frame e \<noteq> 0" by (rule table_nonzero [OF ok d])
  then have p: "pde ?t c = pde s c" if "c < 1024" for c
    using that slot_eq_iff [of 0 "frame e" c i] i by (auto simp: pde_def)
  fix x show "entry ?t x = ((entry s)((d, Some i) := if_present v)) x"
  proof (cases x rule: ptref_cases)
    case (dir c)
    then show ?thesis using p by simp
  next
    case (pte c j)
    have "frame (pde s c) = frame e \<longleftrightarrow> c = d" if "c < 1024" "present (pde s c)"
      using ok d d' that unfolding tables_ok_def by (metis entry_None_iff)
    then show ?thesis
      using pte p d' i slot_eq_iff [of "frame (pde s c)" "frame e" j i] by (auto simp: if_present_def)
  qed
qed

lemma entry_poke_pde:
  assumes ok: "tables_ok (entry s) high" and d: "d < 1024"
    and new: "present v \<Longrightarrow> \<forall>i<1024. phys s (slot (frame v) i) = 0"
    and nz: "present v \<Longrightarrow> frame v \<noteq> 0" and old: "\<forall>i. entry s (d, Some i) = None"
  shows "entry (poke (slot 0 d) v s) = (entry s)((d, None) := if_present v)"
proof
  let ?t = "poke (slot 0 d) v s"
  have p: "pde ?t c = (if c = d then v else pde s c)" if "c < 1024" for c
    using that slot_eq_iff [of 0 0 c d] d by (auto simp: pde_def)
  have q: "phys ?t (slot q j) = phys s (slot q j)" if "q \<noteq> 0" "aligned q" "j < 1024" for q j
    using that slot_eq_iff [of q 0 j d] d by auto
  fix x show "entry ?t x = ((entry s)((d, None) := if_present v)) x"
  proof (cases x rule: ptref_cases)
    case (dir c)
    then show ?thesis using p d by simp
  next
    case (pte c j)
    show ?thesis
    proof (cases "c = d")
      case True
      then have "entry ?t x = None"
        using pte p [OF d] q [of "frame v" j] new nz by (auto simp: if_present_def present_def)
      then show ?thesis using pte True old by (auto split: prod.splits)
    next
      case False
      have "frame (pde s c) \<noteq> 0" if "c < 1024" "present (pde s c)"
        using that table_nonzero [OF ok, of c] by (metis entry_None_iff)
      then show ?thesis using pte False p [of c] q [of "frame (pde s c)" j] by auto
    qed
  qed
qed

subsection \<open>How changes of the map keep the invariant\<close>

lemma unat_dec: "(c :: u8) \<noteq> 0 \<Longrightarrow> unat (c - 1) = unat c - 1"
  by (rule unat_minus_one)

lemma unat_inc: "unat (c :: u8) < 255 \<Longrightarrow> unat (c + 1) = Suc (unat c)"
  by (simp add: unat_word_ariths take_bit_nat_eq_self take_bit_nat_def)

lemma unat_pos: "0 < unat (c :: u8) \<longleftrightarrow> c \<noteq> 0"
  by (simp add: unat_gt_0)

lemma counts_okD: "counts_ok h m mp \<Longrightarrow> k < PAGING_PAGES \<Longrightarrow> unat (mp k) = refs m (page_of k) + h k"
  by (simp add: counts_ok_def)

lemma counts_same:
  assumes "counts_ok h m mp" and "x \<in> user_refs" and "map_option frame (m x) = map_option frame v"
  shows "counts_ok h (m(x := v)) mp"
  using assms refs_upd [OF assms(2), of m v] by (simp add: counts_ok_def)

lemma counts_kernel: "x \<notin> user_refs \<Longrightarrow> counts_ok h (m(x := v)) mp = counts_ok h m mp"
  by (simp add: counts_ok_def refs_upd_kernel)

lemma counts_low:
  assumes "counts_ok h m mp" and "x \<in> user_refs"
    and "\<And>e. m x = Some e \<Longrightarrow> frame e < LOW_MEM" and "\<And>e. v = Some e \<Longrightarrow> frame e < LOW_MEM"
  shows "counts_ok h (m(x := v)) mp"
proof -
  have "page_of k \<noteq> p" if "k < PAGING_PAGES" "p < LOW_MEM" for k p
    using page_of_simps(2) [OF that(1)] that(2) by auto
  then have "refs (m(x := v)) (page_of k) = refs m (page_of k)" if "k < PAGING_PAGES" for k
    using refs_upd [OF assms(2), of m v "page_of k"] assms(3,4) that by (auto split: if_splits)
  then show ?thesis using assms(1) by (simp add: counts_ok_def)
qed

lemma counts_drop:
  assumes "counts_ok h m mp" and "x \<in> user_refs" and "m x = Some e"
    and "LOW_MEM \<le> frame e" and "frame e < 0x1000000"
  shows "mp (MAP_NR (frame e)) \<noteq> 0"
    and "counts_ok h (m(x := None)) (mp(MAP_NR (frame e) := mp (MAP_NR (frame e)) - 1))"
proof -
  note k = page_of_MAP_NR [OF frame_aligned assms(4,5)]
  have "0 < unat (mp (MAP_NR (frame e)))"
    using counts_okD [OF assms(1) k(2)] refs_pos [of x m e, OF assms(2,3)] k(1) by simp
  then show nz: "mp (MAP_NR (frame e)) \<noteq> 0" by (simp add: unat_pos)
  show "counts_ok h (m(x := None)) (mp(MAP_NR (frame e) := mp (MAP_NR (frame e)) - 1))"
    unfolding counts_ok_def
  proof (intro allI impI)
    fix j assume j: "j < PAGING_PAGES"
    have "frame e = page_of j \<longleftrightarrow> j = MAP_NR (frame e)" using page_of_inj [OF j k(2)] k(1) by auto
    then show "unat ((mp(MAP_NR (frame e) := mp (MAP_NR (frame e)) - 1)) j) = refs (m(x := None)) (page_of j) + h j"
      using refs_upd [OF assms(2), of m None "page_of j"] counts_okD [OF assms(1) j] assms(3) unat_dec [OF nz]
      by (auto split: if_splits)
  qed
qed

lemma counts_add:
  assumes "counts_ok h m mp" and "x \<in> user_refs" and "m x = None"
    and "LOW_MEM \<le> frame e" and "frame e < 0x1000000" and "unat (mp (MAP_NR (frame e))) < 255"
  shows "counts_ok h (m(x := Some e)) (mp(MAP_NR (frame e) := mp (MAP_NR (frame e)) + 1))"
  unfolding counts_ok_def
proof (intro allI impI)
  note k = page_of_MAP_NR [OF frame_aligned assms(4,5)]
  fix j assume j: "j < PAGING_PAGES"
  have "frame e = page_of j \<longleftrightarrow> j = MAP_NR (frame e)" using page_of_inj [OF j k(2)] k(1) by auto
  then show "unat ((mp(MAP_NR (frame e) := mp (MAP_NR (frame e)) + 1)) j) = refs (m(x := Some e)) (page_of j) + h j"
    using refs_upd [OF assms(2), of m "Some e" "page_of j"] counts_okD [OF assms(1) j] assms(3) unat_inc [OF assms(6)]
    by (auto split: if_splits)
qed

text \<open>Mapping a page that the caller holds hands the reference over.\<close>

lemma counts_hand_over:
  assumes "counts_ok (h(MAP_NR (frame e) := Suc (h (MAP_NR (frame e))))) m mp" and "x \<in> user_refs"
    and "m x = None" and "LOW_MEM \<le> frame e" and "frame e < 0x1000000"
  shows "counts_ok h (m(x := Some e)) mp"
  unfolding counts_ok_def
proof (intro allI impI)
  note k = page_of_MAP_NR [OF frame_aligned assms(4,5)]
  fix j assume j: "j < PAGING_PAGES"
  have "frame e = page_of j \<longleftrightarrow> j = MAP_NR (frame e)" using page_of_inj [OF j k(2)] k(1) by auto
  then show "unat (mp j) = refs (m(x := Some e)) (page_of j) + h j"
    using refs_upd [OF assms(2), of m "Some e" "page_of j"] counts_okD [OF assms(1) j] assms(3)
    by (auto split: if_splits)
qed

lemma tables_ok_unset:
  assumes "tables_ok m high"
  shows "tables_ok (m(x := None)) high"
  using assms unfolding tables_ok_def by (auto simp: fun_upd_def split: if_splits)

lemma tables_ok_pte:
  assumes "tables_ok m high" and "4 \<le> d \<Longrightarrow> frame e < high"
    and "\<And>d' e'. 4 \<le> d \<Longrightarrow> 4 \<le> d' \<Longrightarrow> m (d', None) = Some e' \<Longrightarrow> frame e' \<noteq> frame e"
  shows "tables_ok (m((d, Some i) := Some e)) high"
  using assms(1,2) unfolding tables_ok_def by (auto split: if_splits dest: assms(3) assms(3) [symmetric])

lemma tables_ok_pde:
  assumes "tables_ok m high" and "4 \<le> d" and "LOW_MEM \<le> frame e" and "frame e < high"
    and "\<And>d' e'. m (d', None) = Some e' \<Longrightarrow> frame e' \<noteq> frame e"
    and "\<And>d' i e'. 4 \<le> d' \<Longrightarrow> m (d', Some i) = Some e' \<Longrightarrow> frame e' \<noteq> frame e"
  shows "tables_ok (m((d, None) := Some e)) high"
  using assms(1-4) unfolding tables_ok_def by (auto dest: assms(5,6) assms(5,6) [symmetric])

subsection \<open>Freeing\<close>

lemma mm_invD: "mm_inv h s \<Longrightarrow> tables_ok (entry s) (HIGH_MEMORY s)"
  "mm_inv h s \<Longrightarrow> counts_ok h (entry s) (mem_map s)" "mm_inv h s \<Longrightarrow> high_held h (HIGH_MEMORY s)"
  by (simp_all add: mm_inv_def)

lemma user_refs_iff: "(d, r) \<in> user_refs \<longleftrightarrow> 4 \<le> d \<and> d < 1024 \<and> (\<forall>i. r = Some i \<longrightarrow> i < 1024)"
  by (cases r) (auto simp: user_refs_def)

lemma entry_bounds: "entry s (d, r) = Some e \<Longrightarrow> d < 1024 \<and> (\<forall>i. r = Some i \<longrightarrow> i < 1024)"
  by (cases r) (auto split: if_splits)

lemma entry_user: "entry s (d, r) = Some e \<Longrightarrow> 4 \<le> d \<Longrightarrow> (d, r) \<in> user_refs"
  using entry_bounds [of s d r e] by (simp add: user_refs_iff)

lemma user_frame_bound:
  assumes "tables_ok m high" and "m (d, r) = Some e" and "4 \<le> d"
  shows "frame e < high" and "frame e < 0x1000000"
proof -
  show "frame e < high"
    using tables_okD(3) [OF assms(1), of d e] tables_okD(5) [OF assms(1,3)] assms(2,3) by (cases r) auto
  then show "frame e < 0x1000000" using tables_okD(2) [OF assms(1)] by simp
qed

text \<open>Freeing the frame of an entry and then clearing the entry keeps every count exact.\<close>

lemma free_entry:
  assumes "mm_inv h s" and "entry s (d, r) = Some e" and "4 \<le> d"
  obtains t where "free_page (frame e) s = Ok () t" and "phys t = phys s" and "HIGH_MEMORY t = HIGH_MEMORY s"
    and "counts_ok h ((entry s)((d, r) := None)) (mem_map t)"
proof -
  note inv = mm_invD [OF assms(1)]
  note b = user_frame_bound [OF inv(1) assms(2,3)]
  note u = entry_user [OF assms(2,3)]
  show ?thesis
  proof (cases "frame e < LOW_MEM")
    case True
    then have "counts_ok h ((entry s)((d, r) := None)) (mem_map s)"
      using counts_low [OF inv(2) u, of None] assms(2) by auto
    then show ?thesis using True that [of s] by (simp add: free_page_def)
  next
    case False
    then have lo: "LOW_MEM \<le> frame e" by simp
    note c = counts_drop [where m = "entry s" and x = "(d, r)", OF inv(2) u assms(2) lo b(2)]
    show ?thesis
      using that [of "upd_map (MAP_NR (frame e)) (\<lambda>c. c - 1) s"] c b(1) False by (simp add: free_page_def)
  qed
qed

lemma entry_phys_cong: "phys t = phys s \<Longrightarrow> entry t = entry s"
  by (rule entry_cong) auto

lemma free_pte_spec:
  assumes "mm_inv h s" and "entry s (d, None) = Some e" and "4 \<le> d" and "i < 1024"
  shows "okK (free_pte (frame e) i s) (\<lambda>_ t. mm_inv h t \<and> entry t = (entry s)((d, Some i) := None))"
proof -
  note inv = mm_invD [OF assms(1)]
  have d: "d < 1024" "present e" "pde s d = e" using assms(2) unfolding entry_None_iff by auto
  have e: "entry s (d, Some i) = if_present (phys s (slot (frame e) i))" using d assms(4) by simp
  have clear: "okK (Ok () (poke (slot (frame e) i) 0 t)) (\<lambda>_ t. mm_inv h t \<and> entry t = (entry s)((d, Some i) := None))"
    if "phys t = phys s" "HIGH_MEMORY t = HIGH_MEMORY s" "counts_ok h ((entry s)((d, Some i) := None)) (mem_map t)" for t
  proof -
    have et: "entry t = entry s" by (rule entry_phys_cong [OF that(1)])
    have "entry (poke (slot (frame e) i) 0 t) = (entry t)((d, Some i) := if_present 0)"
      using entry_poke_pte [of t "HIGH_MEMORY s" d e i 0] inv(1) assms(2,4) et by simp
    then show ?thesis
      using et that inv(3) tables_ok_unset [OF inv(1), of "(d, Some i)"] by (simp add: mm_inv_def if_present_def present_def)
  qed
  show ?thesis
  proof (cases "present (phys s (slot (frame e) i))")
    case True
    then have "entry s (d, Some i) = Some (phys s (slot (frame e) i))" using e by (simp add: if_present_def)
    from free_entry [OF assms(1) this assms(3)] obtain t where
      "free_page (frame (phys s (slot (frame e) i))) s = Ok () t" "phys t = phys s" "HIGH_MEMORY t = HIGH_MEMORY s"
      "counts_ok h ((entry s)((d, Some i) := None)) (mem_map t)" .
    then show ?thesis using True clear [of t] by (simp add: free_pte_def)
  next
    case False
    then have n: "entry s (d, Some i) = None" using e by (simp add: if_present_def)
    have "(entry s)((d, Some i) := None) = entry s" unfolding n [symmetric] by (rule fun_upd_triv)
    then show ?thesis using False clear [of s] inv(2) by (simp add: free_pte_def)
  qed
qed

lemma free_ptes_spec:
  assumes "mm_inv h s" and "entry s (d, None) = Some e" and "4 \<le> d" and "n \<le> 1024"
  shows "okK (forK [0..<n] (free_pte (frame e)) s) (\<lambda>_ t. mm_inv h t \<and>
     entry t = (\<lambda>x. if \<exists>i<n. x = (d, Some i) then None else entry s x))"
  using assms(4)
proof (induction n)
  case 0
  then show ?case using assms(1) by simp
next
  case (Suc n)
  have IH: "okK (forK [0..<n] (free_pte (frame e)) s) (\<lambda>_ t. mm_inv h t \<and>
     entry t = (\<lambda>x. if \<exists>i<n. x = (d, Some i) then None else entry s x))" using Suc by simp
  show ?case
    unfolding upt_Suc_append [OF le0] forK_append okK_bind forK.simps
  proof (rule okK_mono [OF IH], elim conjE)
    fix x t assume t: "mm_inv h t" "entry t = (\<lambda>x. if \<exists>i<n. x = (d, Some i) then None else entry s x)"
    have "entry t (d, None) = Some e" using assms(2) t(2) by simp
    from free_pte_spec [OF t(1) this assms(3), of n] Suc.prems
    have "okK (free_pte (frame e) n t) (\<lambda>_ u. mm_inv h u \<and> entry u = (entry t)((d, Some n) := None))" by simp
    then show "okK (free_pte (frame e) n t) (\<lambda>x s'. okK (Ok () s') (\<lambda>_ t. mm_inv h t \<and>
       entry t = (\<lambda>x. if \<exists>i<Suc n. x = (d, Some i) then None else entry s x)))"
      by (rule okK_mono) (auto simp: t(2) less_Suc_eq fun_eq_iff)
  qed
qed

lemma free_dir_spec:
  assumes "mm_inv h s" and "4 \<le> d" and "d < 1024"
  shows "okK (free_dir (slot 0 d) s) (\<lambda>_ t. mm_inv h t \<and> entry t = (\<lambda>x. if fst x = d then None else entry s x))"
proof (cases "present (pde s d)")
  case False
  have "entry s x = None" if "fst x = d" for x
    using that False by (cases x rule: ptref_cases) (auto simp: if_present_def)
  then show ?thesis using False assms(1) by (auto simp: free_dir_def pde_def)
next
  case True
  define e where "e = pde s d"
  have e: "entry s (d, None) = Some e" using True assms(3) by (simp add: e_def if_present_def)
  have "okK (bindK (forK [0..<1024] (free_pte (frame e)) s) (\<lambda>_ s.
           bindK (free_page (frame (phys s (slot 0 d))) s) (\<lambda>_ s. Ok () (poke (slot 0 d) 0 s))))
     (\<lambda>_ t. mm_inv h t \<and> entry t = (\<lambda>x. if fst x = d then None else entry s x))"
    unfolding okK_bind
  proof (rule okK_mono [OF free_ptes_spec [OF assms(1) e assms(2) order_refl]], elim conjE)
    fix x t assume t: "mm_inv h t" "entry t = (\<lambda>x. if \<exists>i<1024. x = (d, Some i) then None else entry s x)"
    have et: "entry t (d, None) = Some e" using e t(2) by simp
    have none: "\<forall>i. entry t (d, Some i) = None" using t(2) by auto
    from free_entry [OF t(1) et assms(2)] obtain u where
      u: "free_page (frame e) t = Ok () u" "phys u = phys t" "HIGH_MEMORY u = HIGH_MEMORY t"
      "counts_ok h ((entry t)((d, None) := None)) (mem_map u)" .
    have eu: "entry u = entry t" by (rule entry_phys_cong [OF u(2)])
    have ok: "tables_ok (entry u) (HIGH_MEMORY t)" using mm_invD(1) [OF t(1)] eu by simp
    have pe: "phys t (slot 0 d) = e" using et unfolding entry_None_iff pde_def by simp
    have "entry (poke (slot 0 d) 0 u) = (entry t)((d, None) := None)"
      using entry_poke_pde [OF ok assms(3), of 0] none eu by (simp add: present_def if_present_def)
    moreover from this have "mm_inv h (poke (slot 0 d) 0 u)"
      using u(3,4) mm_invD(3) [OF t(1)] tables_ok_unset [OF ok, of "(d, None)"] eu by (simp add: mm_inv_def)
    moreover have "(entry t)((d, None) := None) = (\<lambda>x. if fst x = d then None else entry s x)"
    proof
      fix x show "((entry t)((d, None) := None)) x = (if fst x = d then None else entry s x)"
        unfolding t(2) by (cases x rule: ptref_cases) auto
    qed
    ultimately show "okK (free_page (frame (phys t (slot 0 d))) t)
       (\<lambda>x s'. okK (Ok () (poke (slot 0 d) 0 s')) (\<lambda>_ t. mm_inv h t \<and>
          entry t = (\<lambda>x. if fst x = d then None else entry s x)))"
      using u(1) pe by simp
  qed
  then show ?thesis using True unfolding free_dir_def e_def pde_def by simp
qed

lemma slot_slot: "slot (slot p i) j = slot p (i + j)"
  by (simp add: slot_def algebra_simps)

lemma free_dirs_spec:
  assumes "mm_inv h s" and "4 \<le> d" and "d + n \<le> 1024"
  shows "okK (forK [0..<n] (\<lambda>k. free_dir (slot (slot 0 d) k)) s) (\<lambda>_ t. mm_inv h t \<and>
     entry t = (\<lambda>x. if d \<le> fst x \<and> fst x < d + n then None else entry s x))"
  using assms(3)
proof (induction n)
  case 0
  then show ?case using assms(1) by (auto simp: fun_eq_iff)
next
  case (Suc n)
  have IH: "okK (forK [0..<n] (\<lambda>k. free_dir (slot (slot 0 d) k)) s) (\<lambda>_ t. mm_inv h t \<and>
     entry t = (\<lambda>x. if d \<le> fst x \<and> fst x < d + n then None else entry s x))" using Suc by simp
  show ?case
    unfolding upt_Suc_append [OF le0] forK_append okK_bind forK.simps
  proof (rule okK_mono [OF IH], elim conjE)
    fix x t assume t: "mm_inv h t" "entry t = (\<lambda>x. if d \<le> fst x \<and> fst x < d + n then None else entry s x)"
    show "okK (free_dir (slot (slot 0 d) n) t) (\<lambda>x s'. okK (Ok () s') (\<lambda>_ t. mm_inv h t \<and>
       entry t = (\<lambda>x. if d \<le> fst x \<and> fst x < d + Suc n then None else entry s x)))"
      unfolding slot_slot using Suc.prems assms(2)
      by (intro okK_mono [OF free_dir_spec [OF t(1)]]) (auto simp: t(2) fun_eq_iff)
  qed
qed

definition dirs_of :: "u32 \<Rightarrow> nat" where
  "dirs_of sz = unat (drop_bit 22 (sz + 0x3fffff))"

lemma free_page_tables_spec:
  assumes "mm_inv h s" and "from AND 0x3fffff = 0" and "4 \<le> dir_nr from" and "dir_nr from + dirs_of sz \<le> 1024"
  shows "okK (free_page_tables from sz s) (\<lambda>r t. r = 0 \<and> mm_inv h t \<and>
     entry t = (\<lambda>x. if dir_nr from \<le> fst x \<and> fst x < dir_nr from + dirs_of sz then None else entry s x))"
proof -
  have "from \<noteq> 0" using assms(3) by (auto simp: dir_nr_def)
  then show ?thesis
    using free_dirs_spec [OF assms(1,3,4)] assms(2)
    by (simp add: free_page_tables_def dir_addr_slot dirs_of_def)
qed

subsection \<open>Allocating\<close>

text \<open>\<open>fresh p s\<close>: no entry of the tables points to the page.\<close>

definition fresh :: "u32 \<Rightarrow> 'z mm_st_scheme \<Rightarrow> bool" where
  "fresh p s \<longleftrightarrow> (\<forall>d e. entry s (d, None) = Some e \<longrightarrow> frame e \<noteq> p) \<and>
     (\<forall>d i e. 4 \<le> d \<longrightarrow> entry s (d, Some i) = Some e \<longrightarrow> frame e \<noteq> p)"

lemma freshD: "fresh p s \<Longrightarrow> x \<in> user_refs \<Longrightarrow> entry s x = Some e \<Longrightarrow> frame e \<noteq> p"
  unfolding fresh_def by (cases x rule: ptref_cases) (auto simp: user_refs_iff simp del: entry.simps, blast)

lemma free_frame_fresh:
  assumes "mm_inv h s" and "i < PAGING_PAGES" and "mem_map s i = 0"
  shows "fresh (page_of i) s" and "h i = 0" and "page_of i < HIGH_MEMORY s"
proof -
  note inv = mm_invD [OF assms(1)]
  have z: "refs (entry s) (page_of i) = 0" "h i = 0" using counts_okD [OF inv(2) assms(2)] assms(3) by auto
  show "h i = 0" by (rule z(2))
  show "page_of i < HIGH_MEMORY s"
    using inv(3) z(2) assms(2) unfolding high_held_def by (intro ccontr [of "_ < _"]) (auto simp: not_less)
  have user: "frame e \<noteq> page_of i" if "4 \<le> d" "entry s (d, r) = Some e" for d r e
    using refs_pos [of "(d, r)" "entry s" e, OF entry_user [OF that(2,1)] that(2)] z(1) by auto
  moreover have "frame e \<noteq> page_of i" if "\<not> 4 \<le> d" "entry s (d, None) = Some e" for d e
    using tables_okD(3) [OF inv(1) that(2)] that(1) page_of_simps(2) [OF assms(2)] by auto
  ultimately show "fresh (page_of i) s" unfolding fresh_def by blast
qed

lemma counts_hold:
  assumes "counts_ok h m mp" and "i < PAGING_PAGES" and "mp i = 0"
  shows "counts_ok (h(i := 1)) m (mp(i := 1))"
  using assms counts_okD [OF assms(1,2)] by (auto simp: counts_ok_def)

lemma get_free_page_spec:
  assumes inv: "mm_inv h s" and g: "get_free_page s = (p, t)"
  obtains (none) "p = 0" and "t = s" and "\<forall>i<PAGING_PAGES. mem_map s i \<noteq> 0"
  | (some) i where "p = page_of i" and "i < PAGING_PAGES" and "h i = 0" and "fresh p s" and "entry t = entry s"
      and "mm_inv (h(i := 1)) t" and "p < HIGH_MEMORY s" and "HIGH_MEMORY t = HIGH_MEMORY s"
      and "mem_map s i = 0" and "mem_map t = (mem_map s)(i := 1)"
      and "phys t = (\<lambda>a. if a \<in> slot p ` {..<1024} then 0 else phys s a)"
proof (cases rule: get_free_page_cases [of s])
  case full
  then show ?thesis using none g by simp
next
  case (page i)
  note ff = free_frame_fresh [OF inv page(2,3)]
  note ps = page_of_simps [OF page(2)]
  have p: "p = page_of i" "t = zero_page p (upd_map i (\<lambda>_. 1) s)" using page(1) g by auto
  have ph: "phys t = (\<lambda>a. if a \<in> slot p ` {..<1024} then 0 else phys s a)"
    "mem_map t = (mem_map s)(i := 1)" "HIGH_MEMORY t = HIGH_MEMORY s"
    unfolding p(2) by (auto simp: zero_page_simps)
  have et: "entry t = entry s"
    by (rule entry_other_page [OF mm_invD(1) [OF inv] ps(1,4)]) (use ff(1) p ph in \<open>auto simp: fresh_def\<close>)
  have "mm_inv (h(i := 1)) t"
    using mm_invD [OF inv] counts_hold [OF mm_invD(2) [OF inv] page(2,3)] et ph(2,3)
    by (auto simp: mm_inv_def high_held_def)
  then show ?thesis
    using some [of i] p(1) page(2,3) ff et ph by simp
qed

lemma get_free_page_Some:
  assumes inv: "mm_inv h s" and g: "get_free_page s = (p, t)" "p \<noteq> 0"
  obtains i where "p = page_of i" and "i < PAGING_PAGES" and "h i = 0" and "fresh p s" and "entry t = entry s"
      and "mm_inv (h(i := 1)) t" and "p < HIGH_MEMORY s" and "HIGH_MEMORY t = HIGH_MEMORY s"
      and "mem_map s i = 0" and "mem_map t = (mem_map s)(i := 1)"
      and "phys t = (\<lambda>a. if a \<in> slot p ` {..<1024} then 0 else phys s a)"
  using g(2) by (cases rule: get_free_page_spec [OF inv g(1)]) (simp, rule that)

subsection \<open>Mapping a page\<close>

text \<open>A new table in the directory: the reference the allocation gave is now that of the entry.\<close>

lemma new_table:
  assumes inv: "mm_inv (h(i := 1)) t" and i: "i < PAGING_PAGES" and h: "h i = 0" and d: "4 \<le> d" "d < 1024"
    and absent: "entry t (d, None) = None" and fresh: "fresh (page_of i) t" and hi: "page_of i < HIGH_MEMORY t"
    and zero: "\<forall>j<1024. phys t (slot (page_of i) j) = 0"
  shows "mm_inv h (poke (slot 0 d) (page_of i OR 7) t)"
    and "entry (poke (slot 0 d) (page_of i OR 7) t) = (entry t)((d, None) := Some (page_of i OR 7))"
proof -
  note ps = page_of_simps [OF i]
  have fr: "frame (page_of i OR 7) = page_of i" using ps(1) by simp
  note ok = mm_invD [OF inv]
  have none: "\<forall>j. entry t (d, Some j) = None" using absent entry_table [of t d] by fastforce
  show e: "entry (poke (slot 0 d) (page_of i OR 7) t) = (entry t)((d, None) := Some (page_of i OR 7))"
    using entry_poke_pde [OF ok(1) d(2), of "page_of i OR 7"] none zero fr ps(4) by (simp add: if_present_def)
  have "counts_ok h ((entry t)((d, None) := Some (page_of i OR 7))) (mem_map t)"
    by (rule counts_hand_over) (use ok(2) d absent fr ps h in \<open>simp_all add: user_refs_iff\<close>)
  moreover have "tables_ok ((entry t)((d, None) := Some (page_of i OR 7))) (HIGH_MEMORY t)"
    by (rule tables_ok_pde [OF ok(1) d(1)]) (use fr ps hi fresh in \<open>auto simp: fresh_def\<close>)
  moreover have "high_held h (HIGH_MEMORY t)"
    using ok(3) i hi unfolding high_held_def by (auto split: if_splits)
  ultimately show "mm_inv h (poke (slot 0 d) (page_of i OR 7) t)"
    using e by (simp add: mm_inv_def)
qed

text \<open>Storing an absent entry of an existing table, for a page the caller holds.\<close>

lemma map_page:
  assumes inv: "mm_inv (h(k := Suc (h k))) s" and k: "k < PAGING_PAGES" "page_of k < HIGH_MEMORY s"
    and nt: "\<And>c e'. entry s (c, None) = Some e' \<Longrightarrow> frame e' \<noteq> page_of k"
    and d: "4 \<le> d" "entry s (d, None) = Some e" and i: "i < 1024" "entry s (d, Some i) = None"
  shows "mm_inv h (poke (slot (frame e) i) (page_of k OR 7) s)"
    and "entry (poke (slot (frame e) i) (page_of k OR 7) s) = (entry s)((d, Some i) := Some (page_of k OR 7))"
proof -
  note ps = page_of_simps [OF k(1)]
  have fr: "frame (page_of k OR 7) = page_of k" using ps(1) by simp
  note ok = mm_invD [OF inv]
  have d1: "d < 1024" using entry_bounds [OF d(2)] by simp
  show e: "entry (poke (slot (frame e) i) (page_of k OR 7) s) = (entry s)((d, Some i) := Some (page_of k OR 7))"
    using entry_poke_pte [OF ok(1) d(2) i(1)] by (simp add: if_present_def)
  have "counts_ok h ((entry s)((d, Some i) := Some (page_of k OR 7))) (mem_map s)"
    by (rule counts_hand_over) (use ok(2) d d1 i fr ps in \<open>simp_all add: user_refs_iff del: entry.simps\<close>)
  moreover have "tables_ok ((entry s)((d, Some i) := Some (page_of k OR 7))) (HIGH_MEMORY s)"
    by (rule tables_ok_pte [OF ok(1)]) (use fr k nt in auto)
  moreover have "high_held h (HIGH_MEMORY s)"
    using ok(3) k unfolding high_held_def by (auto split: if_splits)
  ultimately show "mm_inv h (poke (slot (frame e) i) (page_of k OR 7) s)"
    using e by (simp add: mm_inv_def)
qed

lemma put_page_index: "unat (drop_bit 12 a AND 0x3ff) = tbl_nr a"
proof -
  have "(0x3ff :: u32) = mask 10" by (simp add: mask_eq_exp_minus_1)
  then show ?thesis by (simp add: tbl_nr_def take_bit_eq_mask)
qed

lemma sole_ref_fresh:
  assumes "mm_inv (h(k := Suc (h k))) s" and "k < PAGING_PAGES" and "mem_map s k = 1"
    and "entry s (d, None) = Some e"
  shows "frame e \<noteq> page_of k"
proof
  assume fr: "frame e = page_of k"
  note inv = mm_invD [OF assms(1)]
  have "refs (entry s) (page_of k) = 0" using counts_okD [OF inv(2) assms(2)] assms(3) by simp
  moreover have "4 \<le> d"
    using tables_okD(3) [OF inv(1) assms(4)] page_of_simps(2) [OF assms(2)] fr by (auto split: if_splits)
  ultimately show False
    using refs_pos [of "(d, None)" "entry s" e, OF entry_user [OF assms(4)] assms(4)] fr by simp
qed

lemma put_page_spec:
  assumes inv: "mm_inv (h(k := Suc (h k))) s" and k: "k < PAGING_PAGES" "page_of k < HIGH_MEMORY s"
    and one: "mem_map s k = 1"
    and a: "4 \<le> dir_nr a" "walk s a = None" and p: "put_page (page_of k) a s = (r, t)"
  obtains (nomem) "r = 0" and "t = s" and "\<forall>i<PAGING_PAGES. mem_map s i \<noteq> 0"
  | (mapped) "r = page_of k" and "mm_inv h t" and "HIGH_MEMORY t = HIGH_MEMORY s"
      and "\<And>c i. entry t (c, Some i) =
        (if c = dir_nr a \<and> i = tbl_nr a then Some (page_of k OR 7) else entry s (c, Some i))"
      and "\<And>c. c \<noteq> dir_nr a \<Longrightarrow> entry t (c, None) = entry s (c, None)"
proof (cases "present (pde s (dir_nr a))")
  case True
  let ?e = "pde s (dir_nr a)"
  have e: "entry s (dir_nr a, None) = Some ?e" using True dir_nr_less [of a] by (simp add: if_present_def)
  have t: "r = page_of k" "t = poke (slot (frame ?e) (tbl_nr a)) (page_of k OR 7) s"
    using p True by (auto simp: put_page_def dir_addr_slot pde_def put_page_index)
  note m = map_page [OF inv k sole_ref_fresh [OF inv k(1) one] a(1) e tbl_nr_less a(2) [unfolded walk_def]]
  show ?thesis using mapped [OF t(1)] m t(2) by (simp del: entry.simps)
next
  case False
  have none': "entry s (dir_nr a, None) = None" using False by (simp add: if_present_def)
  obtain q u where q: "get_free_page s = (q, u)" by (cases "get_free_page s")
  show ?thesis
  proof (cases rule: get_free_page_spec [OF inv q])
    case 1
    then show ?thesis
      using nomem p False q by (auto simp: put_page_def dir_addr_slot pde_def put_page_index)
  next
    case some: (2 j)
    note ps = page_of_simps [OF some(2)]
    have jk: "j \<noteq> k" "h j = 0" using some(3) by (auto split: if_splits)
    let ?v = "poke (slot 0 (dir_nr a)) (page_of j OR 7) u"
    have t: "r = page_of k" "t = poke (slot (page_of j) (tbl_nr a)) (page_of k OR 7) ?v"
      using p False q some(1) ps(4) by (auto simp: put_page_def dir_addr_slot pde_def put_page_index)
    have fu: "fresh (page_of j) u" using some(1,4,5) by (simp add: fresh_def)
    have nt: "mm_inv (h(k := Suc (h k))) ?v"
      "entry ?v = (entry u)((dir_nr a, None) := Some (page_of j OR 7))"
      by (rule new_table [OF some(6) some(2) some(3) a(1) dir_nr_less _ fu]; use some none' in \<open>simp del: entry.simps\<close>)+
    have fr: "frame (page_of j OR 7) = page_of j" using ps(1) by simp
    have ev: "entry ?v (dir_nr a, None) = Some (page_of j OR 7)"
      "entry ?v (dir_nr a, Some (tbl_nr a)) = None" "HIGH_MEMORY ?v = HIGH_MEMORY s"
      using nt(2) a(2) some(5,8) by (simp_all add: walk_def del: entry.simps)
    have nk: "frame e \<noteq> page_of k" if "entry ?v (c, None) = Some e" for c e
      using that sole_ref_fresh [OF inv k(1) one] fr page_of_inj [OF some(2) k(1)] jk(1)
      unfolding nt(2) some(5) by (auto split: if_splits simp del: entry.simps)
    note m = map_page [OF nt(1) k(1) _ nk a(1) ev(1) tbl_nr_less ev(2), unfolded fr]
    show ?thesis
      using mapped [OF t(1)] m t(2) ev(3) k(2) nt(2) some(5) by (simp del: entry.simps)
  qed
qed

lemma same_page_iff: "dir_nr a = dir_nr b \<and> tbl_nr a = tbl_nr b \<longleftrightarrow> frame a = frame b"
proof -
  have a: "frame a = push_bit 22 (drop_bit 22 a) OR push_bit 12 (take_bit 10 (drop_bit 12 a))" for a :: u32
  proof (rule bit_word_eqI)
    fix n show "bit (frame a) n \<longleftrightarrow> bit (push_bit 22 (drop_bit 22 a) OR push_bit 12 (take_bit 10 (drop_bit 12 a))) n"
      by (cases "22 \<le> n") (auto simp: frame_mask bit_simps dest: bit_imp_le_length)
  qed
  have "drop_bit 22 (frame a) = drop_bit 22 a" "take_bit 10 (drop_bit 12 (frame a)) = take_bit 10 (drop_bit 12 a)" for a
    unfolding frame_mask by (rule bit_word_eqI; auto simp: bit_simps dest: bit_imp_le_length)+
  then show ?thesis
    unfolding dir_nr_def tbl_nr_def word_unat_eq_iff [symmetric] using a [of a] a [of b] by metis
qed

lemma walk_upd:
  assumes "\<And>c i. entry t (c, Some i) = (if c = dir_nr a \<and> i = tbl_nr a then v else entry s (c, Some i))"
  shows "walk t = (\<lambda>b. if frame b = frame a then v else walk s b)"
  unfolding walk_def assms by (auto simp: same_page_iff)

subsection \<open>Copy on write\<close>

lemma refs_two:
  assumes "x \<in> user_refs" "y \<in> user_refs" "x \<noteq> y" "map_option frame (m x) = Some p" "map_option frame (m y) = Some p"
  shows "2 \<le> refs m p"
proof -
  have "card {x, y} \<le> refs m p" unfolding refs_def by (rule card_mono) (use assms in auto)
  then show ?thesis using assms(3) by simp
qed

definition sole_owner :: "(ptref \<Rightarrow> u32 option) \<Rightarrow> ptref \<Rightarrow> u32 \<Rightarrow> bool" where
  "sole_owner m x e \<longleftrightarrow> m x = Some e \<and> (\<forall>y e'. y \<in> user_refs \<longrightarrow> y \<noteq> x \<longrightarrow> m y = Some e' \<longrightarrow> frame e' \<noteq> frame e)"

lemma sole_ref_private:
  assumes "counts_ok h m mp" and "x \<in> user_refs" and "m x = Some e" and "LOW_MEM \<le> frame e" and "frame e < 0x1000000"
    and "mp (MAP_NR (frame e)) = 1"
  shows "sole_owner m x e"
  unfolding sole_owner_def
proof (intro conjI allI impI)
  note k = page_of_MAP_NR [OF frame_aligned assms(4,5)]
  fix y e' assume y: "y \<in> user_refs" "y \<noteq> x" "m y = Some e'"
  have "refs m (frame e) \<le> 1" using counts_okD [OF assms(1) k(2)] assms(6) k(1) by simp
  then show "frame e' \<noteq> frame e"
    using refs_two [of x y m "frame e"] assms(2,3) y by auto
qed (rule assms(3))

text \<open>
  What giving a task its own copy of a page promises: the entry is now writable and the only one to
  its page, the page has the old contents, and no other memory has changed.
\<close>

definition unshared :: "'z mm_st_scheme \<Rightarrow> nat \<Rightarrow> nat \<Rightarrow> u32 \<Rightarrow> u32 \<Rightarrow> 'z mm_st_scheme \<Rightarrow> bool" where
  "unshared s d i e te t \<longleftrightarrow> (\<exists>e'. entry t = (entry s)((d, Some i) := Some e') \<and> bit e' 1 \<and>
     sole_owner (entry t) (d, Some i) e' \<and>
     (\<forall>w<1024. phys t (slot (frame e') w) = phys s (slot (frame e) w)) \<and>
     (\<forall>a. a \<noteq> te \<longrightarrow> a \<notin> slot (frame e') ` {..<1024} \<longrightarrow> phys t a = phys s a))"

lemma un_wp_sole:
  assumes inv: "mm_inv h s" and d: "entry s (d, None) = Some pe" and e: "entry s (d, Some i) = Some e" and d4: "4 \<le> d"
    and sole: "LOW_MEM \<le> frame e" "mem_map s (MAP_NR (frame e)) = 1"
  defines "t \<equiv> poke (slot (frame pe) i) (e OR 2) s"
  shows "mm_inv h t \<and> unshared s d i e (slot (frame pe) i) t"
proof -
  note ok = mm_invD [OF inv]
  have i: "i < 1024" using entry_bounds [OF e] by simp
  have pr: "present e" using e by (auto simp: if_present_def split: if_splits)
  note u = entry_user [OF e d4]
  have et: "entry t = (entry s)((d, Some i) := Some (e OR 2))"
    unfolding t_def entry_poke_pte [OF ok(1) d i] using pr by (simp add: if_present_def)
  have mt: "mem_map t = mem_map s" "HIGH_MEMORY t = HIGH_MEMORY s" by (simp_all add: t_def)
  have "counts_ok h (entry t) (mem_map t)"
    unfolding et mt by (rule counts_same [OF ok(2) u]) (simp add: e del: entry.simps)
  moreover have "tables_ok (entry t) (HIGH_MEMORY t)"
    unfolding et mt
    by (rule tables_ok_pte [OF ok(1)])
      (use user_frame_bound [OF ok(1) e d4] tables_okD(6) [OF ok(1) d4 _ e, THEN not_sym] in \<open>auto simp del: entry.simps\<close>)
  ultimately have inv': "mm_inv h t" using ok(3) by (simp add: mm_inv_def mt)
  have "sole_owner (entry t) (d, Some i) (e OR 2)"
    by (rule sole_ref_private [OF mm_invD(2) [OF inv'] u])
      (use et sole user_frame_bound(2) [OF ok(1) e d4] in \<open>simp_all add: t_def del: entry.simps\<close>)
  moreover have "slot (frame e) w \<noteq> slot (frame pe) i" if "w < 1024" for w
    using slot_eq_iff [of "frame e" "frame pe" w i] that i tables_okD(6) [OF ok(1) d4 d4 e d] by auto
  ultimately show ?thesis
    using inv' et by (auto simp: unshared_def t_def bit_simps simp del: entry.simps intro!: exI [of _ "e OR 2"])
qed

lemma un_wp_copy:
  assumes inv: "mm_inv h s" and d: "entry s (d, None) = Some pe" and e: "entry s (d, Some i) = Some e" and d4: "4 \<le> d"
    and g: "get_free_page s = (p, u)" "p \<noteq> 0"
  defines "v \<equiv> (if LOW_MEM \<le> frame e then upd_map (MAP_NR (frame e)) (\<lambda>c. c - 1) u else u)"
  defines "t \<equiv> copy_page (frame e) p (poke (slot (frame pe) i) (p OR 7) v)"
  shows "mm_inv h t \<and> unshared s d i e (slot (frame pe) i) t"
proof -
  obtain j where j: "p = page_of j" "j < PAGING_PAGES" "h j = 0" "fresh p s" "entry u = entry s"
    "mm_inv (h(j := 1)) u" "p < HIGH_MEMORY s" "HIGH_MEMORY u = HIGH_MEMORY s"
    "mem_map s j = 0" "mem_map u = (mem_map s)(j := 1)"
    "phys u = (\<lambda>a. if a \<in> slot p ` {..<1024} then 0 else phys s a)"
    by (rule get_free_page_Some [OF inv g])
  note ps = page_of_simps [OF j(2)] and ok = mm_invD [OF inv] and ok' = mm_invD [OF j(6)]
  have i: "i < 1024" using entry_bounds [OF e] by simp
  have ef: "frame e \<noteq> p" "frame pe \<noteq> p" using j(4) d4 d e unfolding fresh_def by blast+
  have ep: "frame e \<noteq> frame pe" using tables_okD(6) [OF ok(1) d4 d4 e d] .
  have fr: "frame (p OR 7) = p" using ps(1) j(1) by simp
  note us = entry_user [OF e d4]
  note b = user_frame_bound [OF ok(1) e d4]
  let ?m = "(entry s)((d, Some i) := Some (p OR 7))"
  have v: "phys v = phys u" "HIGH_MEMORY v = HIGH_MEMORY s" by (auto simp: v_def j(8))
  then have ev: "entry v = entry s" using entry_phys_cong [of v u] j(5) by simp
  have e1: "entry (poke (slot (frame pe) i) (p OR 7) v) = ?m"
    using entry_poke_pte [of v "HIGH_MEMORY s" d pe i "p OR 7"] ok(1) d i ev by (simp add: if_present_def del: entry.simps)
  have "counts_ok (h(j := 1)) ((entry s)((d, Some i) := None)) (mem_map v)"
  proof (cases "LOW_MEM \<le> frame e")
    case True
    then show ?thesis
      using counts_drop(2) [OF ok'(2) us, unfolded j(5), OF e True b(2)] by (simp add: v_def)
  next
    case False
    then show ?thesis
      using counts_low [OF ok'(2) us, of None] e j(5) by (simp add: v_def del: entry.simps)
  qed
  then have "counts_ok h (((entry s)((d, Some i) := None))((d, Some i) := Some (p OR 7))) (mem_map v)"
    by (intro counts_hand_over [OF _ us]) (use ps j(1,3) fr in \<open>simp_all del: entry.simps\<close>)
  moreover have tm: "tables_ok ?m (HIGH_MEMORY s)"
    by (rule tables_ok_pte [OF ok(1)]) (use fr j(4,7) in \<open>auto simp: fresh_def simp del: entry.simps\<close>)
  moreover have "aligned p" "p \<noteq> 0" using ps j(1) by auto
  note cp = copy_page_simps [OF frame_aligned this(1) ef(1)]
  have et: "entry t = ?m"
    unfolding t_def e1 [symmetric]
  proof (rule entry_other_page [OF tm [folded e1] \<open>aligned p\<close> \<open>p \<noteq> 0\<close>])
    fix c e' assume "entry (poke (slot (frame pe) i) (p OR 7) v) (c, None) = Some e'"
    then show "frame e' \<noteq> p" using j(4) unfolding e1 by (simp add: fresh_def del: entry.simps)
  qed (rule cp(2))
  ultimately have inv': "mm_inv h t"
    using ok(3) v(2) by (simp add: mm_inv_def t_def cp(3,4) et del: entry.simps)
  have ow: "sole_owner (entry t) (d, Some i) (p OR 7)"
    unfolding sole_owner_def et using freshD [OF j(4)] fr by (auto simp del: entry.simps)
  have same: "phys t a = phys s a" if "a \<noteq> slot (frame pe) i" "a \<notin> slot p ` {..<1024}" for a
    using that v(1) j(11) by (simp add: t_def cp(2) [OF that(2)])
  have "phys t (slot p w) = phys s (slot (frame e) w)" if w: "w < 1024" for w
  proof -
    have "slot (frame e) w \<noteq> slot (frame pe) i" "slot (frame e) w \<notin> slot p ` {..<1024}"
      using slot_eq_iff [of "frame e" _ w] \<open>aligned p\<close> ep ef(1) w i by auto
    then show ?thesis using v(1) j(11) by (simp add: t_def cp(1) [OF w])
  qed
  then show ?thesis
    using inv' et ow same unfolding unshared_def by (intro conjI exI [of _ "p OR 7"]) (auto simp: fr bit_simps simp del: entry.simps)
qed

end
