(* ===== verification/Page_Sharing.thy ===== *)
theory Page_Sharing
  imports Page_Tables
begin

unbundle bit_operations_syntax

section \<open>Sharing pages\<close>

text \<open>
  \<^verbatim>\<open>copy_page_tables\<close>, with which \<^verbatim>\<open>fork\<close> shares the pages of the parent with the child, and the
  properties of memory management that the rest of the kernel relies on.
\<close>

subsection \<open>Write protection\<close>

definition ro :: "u32 \<Rightarrow> u32" where
  "ro e = e AND NOT 2"

text \<open>The parent's entries for pages below 1 MB, which belong to the kernel, stay as they are.\<close>

definition ro_high :: "u32 \<Rightarrow> u32" where
  "ro_high e = (if LOW_MEM \<le> frame e then ro e else e)"

lemma frame_ro [simp]: "frame (ro e) = frame e" "present (ro e) = present e" "frame (ro_high e) = frame e"
  "present (ro_high e) = present e"
  unfolding ro_high_def ro_def frame_clear_flag(1) present_flags(2) if_distrib [of frame] if_distrib [of present]
  by simp_all

lemma frame_push_drop: "frame e = push_bit 12 (drop_bit 12 e)"
  unfolding frame_mask by (rule bit_word_eqI) (auto simp: bit_simps)

lemma unat_frame: "unat (frame e) = 4096 * (unat e div 4096)"
proof -
  have "unat e < 2 ^ 32" using unsigned_less [of e, where ?'a = nat] by simp
  then have "4096 * (unat e div 4096) < 2 ^ 32" using times_div_less_eq_dividend [of 4096 "unat e"] by linarith
  then show ?thesis
    unfolding frame_push_drop push_bit_eq_mult unat_word_ariths
    by (simp add: unat_drop_bit_eq drop_bit_nat_def take_bit_nat_eq_self mult.commute)
qed

lemma page_above_low:
  assumes "present e"
  shows "LOW_MEM < ro e \<longleftrightarrow> LOW_MEM \<le> frame e"
proof -
  have "bit (ro e) 0" using assms frame_ro(2) [of e] by (simp add: present_bit)
  then have "odd (unat (ro e))" using bit_unsigned_iff [where ?'a = nat and w = "ro e" and n = 0] by (simp add: bit_0)
  then have "unat (ro e) \<noteq> 256 * 4096" by (metis even_mult_iff even_numeral)
  moreover have "unat (frame (ro e)) = 4096 * (unat (ro e) div 4096)" by (rule unat_frame)
  moreover have "256 \<le> unat (ro e) div 4096 \<longleftrightarrow> 256 * 4096 \<le> unat (ro e)"
    by (simp add: less_eq_div_iff_mult_less_eq)
  ultimately show ?thesis by (auto simp: word_le_nat_alt word_less_nat_alt)
qed

lemma MAP_NR_ro: "LOW_MEM \<le> frame e \<Longrightarrow> MAP_NR (ro e) = MAP_NR (frame e)"
proof -
  assume le: "LOW_MEM \<le> frame e"
  have f: "unat (frame e) = 4096 * (unat (ro e) div 4096)" using unat_frame [of "ro e"] by simp
  then have le': "LOW_MEM \<le> ro e" using le by (simp add: word_le_nat_alt)
  then have "256 * 4096 \<le> unat (ro e)" by (simp add: word_le_nat_alt)
  then obtain b where b: "unat (ro e) = b + 256 * 4096" using le_Suc_ex by (metis add.commute)
  have "(b + 256 * 4096) div 4096 = 256 + b div 4096" by (rule div_mult_self1) simp
  then show "MAP_NR (ro e) = MAP_NR (frame e)" using f by (simp add: MAP_NR_unat le le' b)
qed

subsection \<open>Copying one entry\<close>

lemma copy_pte_low:
  assumes inv: "mm_inv h s" and c: "entry s (c, None) = Some ec" "4 \<le> c"
    and i: "i < 1024" "entry s (c, Some i) = None" and e: "present e" "frame e < LOW_MEM"
  shows "mm_inv h (poke (slot (frame ec) i) (ro e) s)"
    and "entry (poke (slot (frame ec) i) (ro e) s) = (entry s)((c, Some i) := Some (ro e))"
proof -
  note ok = mm_invD [OF inv]
  have u: "(c, Some i) \<in> user_refs" using entry_bounds [OF c(1)] c(2) i(1) by (simp add: user_refs_iff)
  show et: "entry (poke (slot (frame ec) i) (ro e) s) = (entry s)((c, Some i) := Some (ro e))"
    using entry_poke_pte [OF ok(1) c(1) i(1)] e(1) by (simp add: if_present_def del: entry.simps)
  have "counts_ok h ((entry s)((c, Some i) := Some (ro e))) (mem_map s)"
    by (rule counts_low [OF ok(2) u]) (use i(2) e(2) in \<open>auto simp del: entry.simps\<close>)
  moreover have "frame e < HIGH_MEMORY s" using e(2) tables_okD(1) [OF ok(1)] by simp
  moreover have "frame e' \<noteq> frame e" if "4 \<le> d" "entry s (d, None) = Some e'" for d e'
    using tables_okD(3) [OF ok(1) that(2)] that(1) e(2) by auto
  ultimately show "mm_inv h (poke (slot (frame ec) i) (ro e) s)"
    using ok(3) tables_ok_pte [OF ok(1), of c "ro e" i] by (simp add: mm_inv_def et del: entry.simps)
qed

lemma copy_pte_high:
  assumes inv: "mm_inv h s" and c: "entry s (c, None) = Some ec" "4 \<le> c"
    and f: "entry s (f, None) = Some ef" "4 \<le> f" "f \<noteq> c"
    and i: "i < 1024" "entry s (c, Some i) = None" "entry s (f, Some i) = Some e"
    and e: "LOW_MEM \<le> frame e" "unat (mem_map s (MAP_NR (frame e))) < 255"
  defines "t \<equiv> upd_map (MAP_NR (frame e)) (\<lambda>c. c + 1)
     (poke (slot (frame ef) i) (ro e) (poke (slot (frame ec) i) (ro e) s))"
  shows "mm_inv h t" and "entry t = (entry s)((c, Some i) := Some (ro e), (f, Some i) := Some (ro e))"
proof -
  note ok = mm_invD [OF inv]
  have pr: "present e" using i(3) by (auto simp: if_present_def split: if_splits)
  have uc: "(c, Some i) \<in> user_refs" using entry_bounds [OF c(1)] c(2) i(1) by (simp add: user_refs_iff)
  note uf = entry_user [OF i(3) f(2)]
  note b = user_frame_bound [OF ok(1) i(3) f(2)]
  let ?s = "poke (slot (frame ec) i) (ro e) s" and ?m = "(entry s)((c, Some i) := Some (ro e))"
  have e1: "entry ?s = ?m"
    using entry_poke_pte [OF ok(1) c(1) i(1)] pr by (simp add: if_present_def del: entry.simps)
  have nt: "frame e' \<noteq> frame e" if "4 \<le> d" "entry s (d, None) = Some e'" for d e'
    using tables_okD(6) [OF ok(1) f(2) that(1) i(3) that(2)] by simp
  have t1: "tables_ok ?m (HIGH_MEMORY s)"
    by (rule tables_ok_pte [OF ok(1)]) (use b nt in \<open>auto simp del: entry.simps\<close>)
  have f1: "entry ?s (f, None) = Some ef" unfolding e1 using f(1) by (simp del: entry.simps)
  have "entry t = entry (poke (slot (frame ef) i) (ro e) ?s)"
    unfolding t_def by (rule entry_phys_cong) simp
  then show et: "entry t = (entry s)((c, Some i) := Some (ro e), (f, Some i) := Some (ro e))"
    using entry_poke_pte [of ?s "HIGH_MEMORY s", unfolded e1, OF t1] f1 i(1) pr
    by (simp add: e1 if_present_def del: entry.simps)
  have "counts_ok h ?m ((mem_map s)(MAP_NR (frame e) := mem_map s (MAP_NR (frame e)) + 1))"
    using counts_add [where m = "entry s" and e = "ro e", OF ok(2) uc i(2)] e b(2) by (simp del: entry.simps)
  then have "counts_ok h (?m((f, Some i) := Some (ro e))) ((mem_map s)(MAP_NR (frame e) := mem_map s (MAP_NR (frame e)) + 1))"
    by (rule counts_same [OF _ uf]) (use i(3) f(3) in \<open>simp del: entry.simps\<close>)
  moreover have "tables_ok (?m((f, Some i) := Some (ro e))) (HIGH_MEMORY s)"
    by (rule tables_ok_pte [OF t1]) (use b nt in \<open>auto simp del: entry.simps\<close>)
  ultimately show "mm_inv h t"
    using ok(3) by (simp add: mm_inv_def et del: entry.simps) (simp add: t_def)
qed

text \<open>
  The entry \<open>i\<close> of table \<open>f\<close> can be copied: the source belongs to a task, or is a kernel page below
  1 MB, and the reference count has room.
\<close>

definition copyable :: "(ptref \<Rightarrow> u32 option) \<Rightarrow> (nat \<Rightarrow> u8) \<Rightarrow> nat \<Rightarrow> nat \<Rightarrow> bool" where
  "copyable m mp f i \<longleftrightarrow> (\<forall>e. m (f, Some i) = Some e \<longrightarrow> LOW_MEM \<le> frame e \<longrightarrow>
      4 \<le> f \<and> unat (mp (MAP_NR (frame e))) < 255)"

definition bump :: "u32 option \<Rightarrow> (nat \<Rightarrow> u8) \<Rightarrow> nat \<Rightarrow> u8" where
  "bump eo mp = (case eo of Some e \<Rightarrow>
     if LOW_MEM \<le> frame e then mp(MAP_NR (frame e) := mp (MAP_NR (frame e)) + 1) else mp | None \<Rightarrow> mp)"

lemma copy_pte_spec:
  assumes inv: "mm_inv h s" and c: "entry s (c, None) = Some ec" "4 \<le> c"
    and f: "entry s (f, None) = Some ef" "f \<noteq> c"
    and i: "i < 1024" "entry s (c, Some i) = None" and cp: "copyable (entry s) (mem_map s) f i"
  defines "t \<equiv> copy_pte (frame ef) (frame ec) i s"
  shows "mm_inv h t" and "mem_map t = bump (entry s (f, Some i)) (mem_map s)" and "HIGH_MEMORY t = HIGH_MEMORY s"
    and "entry t = (entry s)((c, Some i) := map_option ro (entry s (f, Some i)),
                             (f, Some i) := map_option ro_high (entry s (f, Some i)))"
proof -
  define e where "e = phys s (slot (frame ef) i)"
  have f': "f < 1024" "present ef" "pde s f = ef" using f(1) unfolding entry_None_iff by auto
  have es: "entry s (f, Some i) = if_present e" using f' i(1) by (simp add: e_def)
  have *: "mm_inv h t \<and> mem_map t = bump (entry s (f, Some i)) (mem_map s) \<and> HIGH_MEMORY t = HIGH_MEMORY s \<and>
    entry t = (entry s)((c, Some i) := map_option ro (entry s (f, Some i)),
                        (f, Some i) := map_option ro_high (entry s (f, Some i)))"
  proof (cases "present e")
    case False
    then have n: "entry s (f, Some i) = None" using es by (simp add: if_present_def)
    have "t = s" using False unfolding t_def copy_pte_def e_def by (simp add: Let_def)
    moreover have "(entry s)((c, Some i) := None, (f, Some i) := None) = entry s"
      using n i(2) by (intro ext) (simp del: entry.simps)
    ultimately show ?thesis using inv n by (simp add: bump_def del: entry.simps)
  next
    case True
    then have n: "entry s (f, Some i) = Some e" using es by (simp add: if_present_def)
    show ?thesis
    proof (cases "LOW_MEM \<le> frame e")
      case lo: True
      then have t: "t = upd_map (MAP_NR (frame e)) (\<lambda>c. c + 1) (poke (slot (frame ef) i) (ro e) (poke (slot (frame ec) i) (ro e) s))"
        using True page_above_low [OF True] MAP_NR_ro [OF lo] unfolding t_def copy_pte_def e_def [symmetric]
        by (simp add: Let_def ro_def)
      have "4 \<le> f" "unat (mem_map s (MAP_NR (frame e))) < 255" using cp n lo by (auto simp: copyable_def)
      then show ?thesis
        using copy_pte_high [OF inv c f(1) _ f(2) i n lo] t n lo by (simp add: bump_def ro_high_def del: entry.simps)
    next
      case lo: False
      have t: "t = poke (slot (frame ec) i) (ro e) s"
        using True lo page_above_low [OF True] unfolding t_def copy_pte_def e_def [symmetric] by (simp add: Let_def ro_def)
      have "(entry s)((c, Some i) := Some (ro e), (f, Some i) := Some e) = (entry s)((c, Some i) := Some (ro e))"
        using n f(2) by (intro ext) (simp del: entry.simps)
      then show ?thesis
        using copy_pte_low [OF inv c i True] t n lo by (simp add: bump_def ro_high_def del: entry.simps)
    qed
  qed
  from * show "mm_inv h t" and "mem_map t = bump (entry s (f, Some i)) (mem_map s)" and "HIGH_MEMORY t = HIGH_MEMORY s"
    and "entry t = (entry s)((c, Some i) := map_option ro (entry s (f, Some i)),
                             (f, Some i) := map_option ro_high (entry s (f, Some i)))" by blast+
qed

subsection \<open>Room in the reference counts\<close>

text \<open>The counts can still take one more reference for every entry of \<open>R\<close>.\<close>

definition room :: "(ptref \<Rightarrow> u32 option) \<Rightarrow> (nat \<Rightarrow> u8) \<Rightarrow> ptref set \<Rightarrow> bool" where
  "room m mp R \<longleftrightarrow>
     (\<forall>k<PAGING_PAGES. unat (mp k) + card {x \<in> R. map_option frame (m x) = Some (page_of k)} \<le> 255)"

lemma room_cong:
  assumes "\<And>x. x \<in> R \<Longrightarrow> map_option frame (m' x) = map_option frame (m x)"
  shows "room m' mp R = room m mp R"
proof -
  have "{x \<in> R. map_option frame (m' x) = Some p} = {x \<in> R. map_option frame (m x) = Some p}" for p
    by (rule Collect_cong, rule conj_cong) (simp_all only: assms)
  then show ?thesis by (simp add: room_def)
qed

lemma room_mono: "room m mp R \<Longrightarrow> finite R \<Longrightarrow> R' \<subseteq> R \<Longrightarrow> room m mp R'"
  unfolding room_def
proof (intro allI impI)
  fix k assume r: "\<forall>k<PAGING_PAGES. unat (mp k) + card {x \<in> R. map_option frame (m x) = Some (page_of k)} \<le> 255"
    and "finite R" "R' \<subseteq> R" "k < PAGING_PAGES"
  then have "card {x \<in> R'. map_option frame (m x) = Some (page_of k)} \<le> card {x \<in> R. map_option frame (m x) = Some (page_of k)}"
    by (intro card_mono) auto
  then show "unat (mp k) + card {x \<in> R'. map_option frame (m x) = Some (page_of k)} \<le> 255"
    using r \<open>k < PAGING_PAGES\<close> by (meson add_left_mono order_trans)
qed

lemma room_step:
  assumes "room m mp R" and "finite R" and "x \<in> R" and "m x = Some e" and "LOW_MEM \<le> frame e" and "frame e < 0x1000000"
  shows "unat (mp (MAP_NR (frame e))) < 255"
    and "room m (mp(MAP_NR (frame e) := mp (MAP_NR (frame e)) + 1)) (R - {x})"
proof -
  note k = page_of_MAP_NR [OF frame_aligned assms(5,6)]
  let ?A = "\<lambda>j R. {x \<in> R. map_option frame (m x) = Some (page_of j)}"
  have A: "?A (MAP_NR (frame e)) R = insert x (?A (MAP_NR (frame e)) (R - {x}))" "x \<notin> ?A (MAP_NR (frame e)) (R - {x})"
    using assms(3,4) k(1) by auto
  have c: "card (?A (MAP_NR (frame e)) R) = Suc (card (?A (MAP_NR (frame e)) (R - {x})))"
    unfolding A(1) by (rule card_insert_disjoint) (use assms(2) A(2) in auto)
  show lt: "unat (mp (MAP_NR (frame e))) < 255"
    using assms(1) [unfolded room_def, rule_format, OF k(2)] c by linarith
  have le: "card (?A j (R - {x})) \<le> card (?A j R)" for j
    by (rule card_mono) (use assms(2) in auto)
  show "room m (mp(MAP_NR (frame e) := mp (MAP_NR (frame e)) + 1)) (R - {x})"
    unfolding room_def
  proof (intro allI impI)
    fix j assume j: "j < PAGING_PAGES"
    have r: "unat (mp j) + card (?A j R) \<le> 255" using assms(1) j unfolding room_def by blast
    show "unat ((mp(MAP_NR (frame e) := mp (MAP_NR (frame e)) + 1)) j) + card (?A j (R - {x})) \<le> 255"
      using r le [of j] c unat_inc [OF lt] by (cases "j = MAP_NR (frame e)") auto
  qed
qed

text \<open>The entries to copy belong to tasks, or to the kernel's pages below 1 MB.\<close>

definition src_ok :: "(ptref \<Rightarrow> u32 option) \<Rightarrow> ptref set \<Rightarrow> bool" where
  "src_ok m R \<longleftrightarrow> (\<forall>d i e. (d, Some i) \<in> R \<longrightarrow> m (d, Some i) = Some e \<longrightarrow> 4 \<le> d \<or> frame e < LOW_MEM)"

lemma src_ok_cong:
  "(\<And>x. x \<in> R \<Longrightarrow> map_option frame (m' x) = map_option frame (m x)) \<Longrightarrow> src_ok m R \<Longrightarrow> src_ok m' R"
  unfolding src_ok_def
proof (intro allI impI)
  fix d i e assume c: "\<And>x. x \<in> R \<Longrightarrow> map_option frame (m' x) = map_option frame (m x)"
    and ok: "\<forall>d i e. (d, Some i) \<in> R \<longrightarrow> m (d, Some i) = Some e \<longrightarrow> 4 \<le> d \<or> frame e < LOW_MEM"
    and x: "(d, Some i) \<in> R" "m' (d, Some i) = Some e"
  from c [OF x(1)] x(2) obtain e' where "m (d, Some i) = Some e'" "frame e' = frame e"
    by (cases "m (d, Some i)") auto
  then show "4 \<le> d \<or> frame e < LOW_MEM" using ok x(1) by fastforce
qed

lemma src_ok_subset: "src_ok m R \<Longrightarrow> R' \<subseteq> R \<Longrightarrow> src_ok m R'"
  unfolding src_ok_def by blast

lemma room_copyable:
  assumes "tables_ok m high" and "room m mp R" and "finite R" and "(f, Some i) \<in> R" and "src_ok m R"
  shows "copyable m mp f i" and "room m (bump (m (f, Some i)) mp) (R - {(f, Some i)})"
proof -
  have hi: "4 \<le> f \<and> frame e < 0x1000000" if "m (f, Some i) = Some e" "LOW_MEM \<le> frame e" for e
    using that assms(4,5) user_frame_bound(2) [OF assms(1) that(1)] unfolding src_ok_def by fastforce
  then show "copyable m mp f i"
    using room_step(1) [OF assms(2-4)] unfolding copyable_def by blast
  show "room m (bump (m (f, Some i)) mp) (R - {(f, Some i)})"
    using room_step(2) [OF assms(2-4)] hi room_mono [OF assms(2,3), of "R - {(f, Some i)}"]
    by (auto simp: bump_def split: option.splits)
qed

subsection \<open>Copying a table\<close>

fun copied_table :: "nat \<Rightarrow> nat \<Rightarrow> nat \<Rightarrow> (ptref \<Rightarrow> u32 option) \<Rightarrow> ptref \<Rightarrow> u32 option" where
  "copied_table n f c m (d, None) = m (d, None)"
| "copied_table n f c m (d, Some i) =
     (if i < n \<and> d = c then map_option ro (m (f, Some i))
      else if i < n \<and> d = f then map_option ro_high (m (f, Some i)) else m (d, Some i))"

lemma frame_map_ro [simp]: "map_option frame (map_option ro x) = map_option frame x"
  "map_option frame (map_option ro_high x) = map_option frame x"
  by (cases x; simp)+

lemma copied_table_frame:
  "fst x \<noteq> c \<Longrightarrow> map_option frame (copied_table n f c m x) = map_option frame (m x)"
  by (cases x rule: ptref_cases) auto

lemma copied_table_0: "copied_table 0 f c m = m"
proof
  fix x show "copied_table 0 f c m x = m x" by (cases x rule: ptref_cases) auto
qed

lemma copied_table_Suc:
  assumes "f \<noteq> c"
  shows "(copied_table n f c m)((c, Some n) := map_option ro (m (f, Some n)), (f, Some n) := map_option ro_high (m (f, Some n)))
     = copied_table (Suc n) f c m"
proof
  fix x show "((copied_table n f c m)((c, Some n) := map_option ro (m (f, Some n)), (f, Some n) := map_option ro_high (m (f, Some n)))) x
     = copied_table (Suc n) f c m x"
    using assms by (cases x rule: ptref_cases) (auto simp: less_Suc_eq)
qed

definition ptes :: "nat \<Rightarrow> nat \<Rightarrow> nat \<Rightarrow> ptref set" where
  "ptes f n nr = {f..<f + n} \<times> Some ` {..<nr}"

lemma finite_ptes [simp]: "finite (ptes f n nr)"
  by (simp add: ptes_def)

lemma copy_ptes_spec:
  assumes inv: "mm_inv h s" and c: "entry s (c, None) = Some ec" "4 \<le> c" "\<forall>i. entry s (c, Some i) = None"
    and f: "entry s (f, None) = Some ef" "f \<noteq> c" and n: "n \<le> nr" "nr \<le> 1024"
    and R: "finite R" "ptes f 1 nr \<subseteq> R" "\<forall>x\<in>R. fst x \<noteq> c"
    and rm: "room (entry s) (mem_map s) R" "src_ok (entry s) R"
  defines "t \<equiv> fold (copy_pte (frame ef) (frame ec)) [0..<n] s"
  shows "mm_inv h t \<and> entry t = copied_table n f c (entry s) \<and> HIGH_MEMORY t = HIGH_MEMORY s \<and>
     room (entry t) (mem_map t) (R - ptes f 1 n)"
  unfolding t_def using n(1)
proof (induction n)
  case 0
  show ?case using inv rm copied_table_0 [of f c "entry s"] by (simp add: ptes_def)
next
  case (Suc n)
  let ?u = "fold (copy_pte (frame ef) (frame ec)) [0..<n] s"
  have IH: "mm_inv h ?u" "entry ?u = copied_table n f c (entry s)" "HIGH_MEMORY ?u = HIGH_MEMORY s"
     "room (entry ?u) (mem_map ?u) (R - ptes f 1 n)" using Suc by auto
  have u: "entry ?u (c, None) = Some ec" "entry ?u (f, None) = Some ef" "entry ?u (c, Some n) = None"
    "entry ?u (f, Some n) = entry s (f, Some n)"
    using c f by (simp_all add: IH(2) del: entry.simps)
  have x: "(f, Some n) \<in> R - ptes f 1 n" using R(2) Suc.prems n(2) by (auto simp: ptes_def)
  have src: "src_ok (entry ?u) (R - ptes f 1 n)"
    using rm(2) R(3) by (intro src_ok_cong [of _ "entry ?u" "entry s"]) (auto simp: IH(2) copied_table_frame src_ok_def simp del: entry.simps)
  note rc = room_copyable [OF mm_invD(1) [OF IH(1)] IH(4) finite_Diff [OF R(1)] x src]
  have n1: "n < 1024" using Suc.prems n(2) by simp
  note cp = copy_pte_spec [OF IH(1) u(1) c(2) u(2) f(2) n1 u(3) rc(1)]
  let ?t = "copy_pte (frame ef) (frame ec) n ?u"
  have et: "entry ?t = copied_table (Suc n) f c (entry s)"
    unfolding cp(4) u(4) unfolding IH(2) by (rule copied_table_Suc [OF f(2)])
  have "ptes f 1 (Suc n) = insert (f, Some n) (ptes f 1 n)" by (auto simp: ptes_def lessThan_Suc)
  then have Rn: "R - ptes f 1 (Suc n) = R - ptes f 1 n - {(f, Some n)}" by auto
  have "room (entry ?t) (mem_map ?t) (R - ptes f 1 (Suc n)) = room (entry ?u) (mem_map ?t) (R - ptes f 1 (Suc n))"
    using R(3) by (intro room_cong) (simp add: et IH(2) copied_table_frame del: entry.simps)
  then have "room (entry ?t) (mem_map ?t) (R - ptes f 1 (Suc n))"
    using rc(2) unfolding Rn cp(2) by simp
  then show ?case using cp(1,3) et IH(3) by simp
qed

lemma room_alloc:
  assumes "room m mp R" and "\<And>x. x \<in> R \<Longrightarrow> map_option frame (m x) \<noteq> Some (page_of j)"
  shows "room m (mp(j := 1)) R"
proof -
  have "{x \<in> R. map_option frame (m x) = Some (page_of j)} = {}" using assms(2) by blast
  then have z: "card {x \<in> R. map_option frame (m x) = Some (page_of j)} = 0" by (simp only: card.empty)
  show ?thesis
    unfolding room_def
  proof (intro allI impI)
    fix k assume "k < PAGING_PAGES"
    then show "unat ((mp(j := 1)) k) + card {x \<in> R. map_option frame (m x) = Some (page_of k)} \<le> 255"
      using assms(1) z unfolding room_def by (cases "k = j") (simp_all del: map_option_eq_Some)
  qed
qed

lemma fresh_src:
  assumes "fresh (page_of j) s" and "j < PAGING_PAGES" and "src_ok (entry s) R" and "(d, Some i) \<in> R"
  shows "map_option frame (entry s (d, Some i)) \<noteq> Some (page_of j)"
proof
  assume "map_option frame (entry s (d, Some i)) = Some (page_of j)"
  then obtain e where e: "entry s (d, Some i) = Some e" "frame e = page_of j" by auto
  then have "4 \<le> d" using assms(3,4) page_of_simps(2) [OF assms(2)] unfolding src_ok_def by fastforce
  then show False using freshD [OF assms(1) entry_user [OF e(1)] e(1)] e(2) by simp
qed

text \<open>One round of the outer loop; also when the frames run out, no page of another table is lost.\<close>

definition dir_copied :: "nat \<Rightarrow> nat \<Rightarrow> nat \<Rightarrow> bool \<Rightarrow> (ptref \<Rightarrow> u32 option) \<Rightarrow> (ptref \<Rightarrow> u32 option) \<Rightarrow> bool" where
  "dir_copied nr f c ok m m' \<longleftrightarrow>
     (\<forall>x. fst x \<noteq> c \<longrightarrow> map_option frame (m' x) = map_option frame (m x)) \<and>
     (\<forall>d. d \<noteq> c \<longrightarrow> m' (d, None) = m (d, None)) \<and>
     (ok \<longrightarrow> (\<forall>d i. m' (d, Some i) = copied_table nr f c m (d, Some i)))"

lemma copy_dir_spec:
  assumes inv: "mm_inv h s" and c: "4 \<le> c" "c < 1024" "entry s (c, None) = None"
    and f: "f < 1024" "f \<noteq> c" and nr: "nr \<le> 1024"
    and R: "finite R" "ptes f 1 nr \<subseteq> R" "\<forall>x\<in>R. fst x \<noteq> c \<and> snd x \<noteq> None"
    and rm: "room (entry s) (mem_map s) R" "src_ok (entry s) R"
  shows "okK (copy_dir nr (slot 0 f) (slot 0 c) s) (\<lambda>ok t. mm_inv h t \<and> HIGH_MEMORY t = HIGH_MEMORY s \<and>
     room (entry t) (mem_map t) (R - ptes f 1 nr) \<and> dir_copied nr f c ok (entry s) (entry t))"
proof -
  have cn: "\<forall>i. entry s (c, Some i) = None" using c(3) entry_table [of s c] by fastforce
  have np: "\<not> present (phys s (slot 0 c))" using c by (auto simp: if_present_def pde_def split: if_splits)
  have keep: "dir_copied nr f c False (entry s) (entry s)" by (simp add: dir_copied_def del: entry.simps)
  have rm': "room (entry s) (mem_map s) (R - ptes f 1 nr)" by (rule room_mono [OF rm(1) R(1)]) auto
  show ?thesis
  proof (cases "present (phys s (slot 0 f))")
    case False
    have fn: "entry s (f, Some i) = None" for i using False by (simp add: pde_def)
    have "copied_table nr f c (entry s) (d, Some i) = entry s (d, Some i)" for d i
      using fn cn by (simp del: entry.simps)
    then show ?thesis
      using np False inv rm' keep by (simp add: copy_dir_def dir_copied_def del: entry.simps copied_table.simps)
  next
    case True
    define ef where "ef = phys s (slot 0 f)"
    have ef: "entry s (f, None) = Some ef" using True f(1) by (simp add: ef_def pde_def if_present_def)
    obtain p u where g: "get_free_page s = (p, u)" by (cases "get_free_page s")
    show ?thesis
    proof (cases rule: get_free_page_spec [OF inv g])
      case 1
      then show ?thesis using np True inv rm' keep g by (simp add: copy_dir_def)
    next
      case some: (2 j)
      note ps = page_of_simps [OF some(2)]
      let ?v = "poke (slot 0 c) (page_of j OR 7) u"
      have fr: "frame (page_of j OR 7) = page_of j" using ps(1) by simp
      have fu: "fresh (page_of j) u" using some(1,4,5) by (simp add: fresh_def)
      have nt: "mm_inv h ?v" "entry ?v = (entry u)((c, None) := Some (page_of j OR 7))"
        by (rule new_table [OF some(6) some(2) some(3) c(1,2) _ fu]; use some c(3) in \<open>simp del: entry.simps\<close>)+
      have ev: "entry ?v x = entry s x" if "x \<noteq> (c, None)" for x using nt(2) that some(5) by simp
      have Rv: "entry ?v x = entry s x" if "x \<in> R" for x using bspec [OF R(3) that] by (intro ev) auto
      have "map_option frame (entry s x) \<noteq> Some (page_of j)" if "x \<in> R" for x
        using bspec [OF R(3) that] fresh_src [of j s R "fst x" "the (snd x)"] some(1,2,4) rm(2) that by (cases x) auto
      then have "room (entry s) ((mem_map s)(j := 1)) R" by (rule room_alloc [OF rm(1)])
      then have rmv: "room (entry ?v) (mem_map ?v) R" "src_ok (entry ?v) R"
        using some(10) rm(2) Rv room_cong [of R "entry ?v" "entry s"] by (auto simp: src_ok_def simp del: entry.simps)
      have cv: "entry ?v (c, None) = Some (page_of j OR 7)" "\<forall>i. entry ?v (c, Some i) = None"
        "entry ?v (f, None) = Some ef"
        using nt(2) cn ev [of "(f, None)"] ev f(2) ef by (auto simp del: entry.simps)
      have Rc: "\<forall>x\<in>R. fst x \<noteq> c" using R(3) by blast
      note cp = copy_ptes_spec [OF nt(1) cv(1) c(1) cv(2,3) f(2) order_refl nr R(1,2) Rc rmv, unfolded fr]
      let ?t = "fold (copy_pte (frame ef) (page_of j)) [0..<nr] ?v"
      have "copy_dir nr (slot 0 f) (slot 0 c) s = Ok True ?t"
        using np True g some(1) ps(4) by (simp add: copy_dir_def ef_def)
      moreover have "copied_table nr f c (entry ?v) (d, Some i) = copied_table nr f c (entry s) (d, Some i)" for d i
        using ev by (simp del: entry.simps)
      then have "dir_copied nr f c True (entry s) (entry ?t)"
        using cp ev copied_table_frame [of _ c nr f "entry ?v"] unfolding dir_copied_def by (auto simp del: entry.simps)
      moreover have "mm_inv h ?t" "room (entry ?t) (mem_map ?t) (R - ptes f 1 nr)" using cp by blast+
      moreover have "HIGH_MEMORY ?t = HIGH_MEMORY s" using cp some(8) by simp
      ultimately show ?thesis by (simp only: okK.simps simp_thms)
    qed
  qed
qed

subsection \<open>Copying an address space\<close>

definition copied :: "nat \<Rightarrow> nat \<Rightarrow> nat \<Rightarrow> nat \<Rightarrow> (ptref \<Rightarrow> u32 option) \<Rightarrow> (ptref \<Rightarrow> u32 option) \<Rightarrow> bool" where
  "copied nr n f c m m' \<longleftrightarrow> (\<forall>d i. m' (d, Some i) =
     (if c \<le> d \<and> d < c + n then if i < nr then map_option ro (m (f + (d - c), Some i)) else None
      else if f \<le> d \<and> d < f + n \<and> i < nr then map_option ro_high (m (d, Some i)) else m (d, Some i)))"

definition outside_kept :: "nat \<Rightarrow> nat \<Rightarrow> (ptref \<Rightarrow> u32 option) \<Rightarrow> (ptref \<Rightarrow> u32 option) \<Rightarrow> bool" where
  "outside_kept n c m m' \<longleftrightarrow>
     (\<forall>x. \<not> (c \<le> fst x \<and> fst x < c + n) \<longrightarrow> map_option frame (m' x) = map_option frame (m x)) \<and>
     (\<forall>d. \<not> (c \<le> d \<and> d < c + n) \<longrightarrow> m' (d, None) = m (d, None))"

lemma copied_Suc:
  assumes "dir_copied nr f c True m m1" and "copied nr n (Suc f) (Suc c) m1 m2"
    and "f + Suc n \<le> c \<or> c + Suc n \<le> f" and "\<forall>i. m (c, Some i) = None"
  shows "copied nr (Suc n) f c m m2"
  unfolding copied_def
proof (intro allI)
  fix d i
  have m1: "m1 (d, Some i) = copied_table nr f c m (d, Some i)" for d i
    using assms(1) by (simp add: dir_copied_def)
  have m2: "m2 (d, Some i) = (if Suc c \<le> d \<and> d < Suc c + n
       then if i < nr then map_option ro (m1 (Suc f + (d - Suc c), Some i)) else None
       else if Suc f \<le> d \<and> d < Suc f + n \<and> i < nr then map_option ro_high (m1 (d, Some i)) else m1 (d, Some i))" for d i
    using assms(2) unfolding copied_def by blast
  consider (to) "d = c" | (tos) "c < d" "d < c + Suc n" | (src) "d = f" | (srcs) "f < d" "d < f + Suc n"
    | (other) "\<not> (c \<le> d \<and> d < c + Suc n)" "\<not> (f \<le> d \<and> d < f + Suc n)" by linarith
  then show "m2 (d, Some i) =
     (if c \<le> d \<and> d < c + Suc n then if i < nr then map_option ro (m (f + (d - c), Some i)) else None
      else if f \<le> d \<and> d < f + Suc n \<and> i < nr then map_option ro_high (m (d, Some i)) else m (d, Some i))"
  proof cases
    case to
    then have "\<not> (Suc f \<le> d \<and> d < Suc f + n)" using assms(3) by auto
    then show ?thesis using to assms(4) by (auto simp: m2 m1)
  next
    case tos
    then have "Suc f + (d - Suc c) = f + (d - c)" "f + (d - c) \<noteq> c" "f + (d - c) \<noteq> f" using assms(3) by auto
    then show ?thesis using tos by (auto simp: m2 m1)
  next
    case src
    then have "\<not> (Suc c \<le> d \<and> d < Suc c + n)" "\<not> (c \<le> d \<and> d < c + Suc n)" "d \<noteq> c" using assms(3) by auto
    then show ?thesis using src by (auto simp: m2 m1)
  next
    case srcs
    then have "\<not> (Suc c \<le> d \<and> d < Suc c + n)" "\<not> (c \<le> d \<and> d < c + Suc n)" "d \<noteq> c" using assms(3) by auto
    then show ?thesis using srcs by (auto simp: m2 m1)
  next
    case other
    then have "\<not> (Suc c \<le> d \<and> d < Suc c + n)" "\<not> (Suc f \<le> d \<and> d < Suc f + n)" "d \<noteq> c" "d \<noteq> f" by auto
    then show ?thesis using other by (auto simp: m2 m1)
  qed
qed

lemma outside_kept_Suc:
  assumes "dir_copied nr f c ok m m1" and "outside_kept n (Suc c) m1 m2"
  shows "outside_kept (Suc n) c m m2"
  using assms unfolding outside_kept_def dir_copied_def by auto

lemma copy_dirs_spec:
  fixes s :: "'z mm_st_scheme"
  assumes "mm_inv h s" and "4 \<le> c" and "c + n \<le> 1024" and "f + n \<le> 1024" and "f + n \<le> c \<or> c + n \<le> f"
    and "\<forall>d. c \<le> d \<and> d < c + n \<longrightarrow> entry s (d, None) = None" and "nr \<le> 1024"
    and "room (entry s) (mem_map s) (ptes f n nr)" and "src_ok (entry s) (ptes f n nr)"
  shows "okK (copy_dirs nr n (slot 0 f) (slot 0 c) s) (\<lambda>ok t. mm_inv h t \<and>
     outside_kept n c (entry s) (entry t) \<and> (ok \<longrightarrow> copied nr n f c (entry s) (entry t)))"
  using assms
proof (induction n arbitrary: f c s)
  case 0
  then show ?case by (auto simp: outside_kept_def copied_def simp del: entry.simps)
next
  case (Suc n)
  have cn: "\<forall>i. entry s (c, Some i) = None"
    using Suc.prems(6) entry_table [of s c] by fastforce
  have sub: "ptes f 1 nr \<subseteq> ptes f (Suc n) nr" "ptes f (Suc n) nr - ptes f 1 nr = ptes (Suc f) n nr"
    by (auto simp: ptes_def)
  have R: "\<forall>x\<in>ptes f (Suc n) nr. fst x \<noteq> c \<and> snd x \<noteq> None"
    using Suc.prems(5) by (auto simp: ptes_def)
  have d: "c < 1024" "entry s (c, None) = None" "f < 1024" "f \<noteq> c"
    using Suc.prems by (auto simp del: entry.simps)
  note cd = copy_dir_spec [OF Suc.prems(1,2) d Suc.prems(7) finite_ptes sub(1) R Suc.prems(8,9), unfolded sub(2)]
  have step: "slot 0 x + 4 = slot 0 (Suc x)" for x by (simp add: slot_def algebra_simps)
  show ?case
    unfolding copy_dirs.simps okK_bind step
  proof (rule okK_mono [OF cd], elim conjE)
    fix ok and t :: "'z mm_st_scheme" assume t: "mm_inv h t" "room (entry t) (mem_map t) (ptes (Suc f) n nr)"
      and dc: "dir_copied nr f c ok (entry s) (entry t)"
    have src: "src_ok (entry t) (ptes (Suc f) n nr)"
    proof (rule src_ok_cong)
      fix x assume "x \<in> ptes (Suc f) n nr"
      then have "fst x \<noteq> c" using R sub(2) by blast
      then show "map_option frame (entry t x) = map_option frame (entry s x)"
        using dc unfolding dir_copied_def by blast
    qed (rule src_ok_subset [OF Suc.prems(9)], use sub(2) in blast)
    have abs: "\<forall>d. Suc c \<le> d \<and> d < Suc c + n \<longrightarrow> entry t (d, None) = None"
      using dc Suc.prems(6) by (auto simp: dir_copied_def simp del: entry.simps)
    have "okK (copy_dirs nr n (slot 0 (Suc f)) (slot 0 (Suc c)) t) (\<lambda>ok u. mm_inv h u \<and>
     outside_kept n (Suc c) (entry t) (entry u) \<and> (ok \<longrightarrow> copied nr n (Suc f) (Suc c) (entry t) (entry u)))"
      by (rule Suc.IH [OF t(1) _ _ _ _ abs Suc.prems(7) t(2) src]) (use Suc.prems(2-5) in auto)
    then have IH: "ok \<Longrightarrow> okK (copy_dirs nr n (slot 0 (Suc f)) (slot 0 (Suc c)) t) (\<lambda>ok u. mm_inv h u \<and>
        outside_kept (Suc n) c (entry s) (entry u) \<and> (ok \<longrightarrow> copied nr (Suc n) f c (entry s) (entry u)))"
      using dc Suc.prems(5) cn
      by (elim okK_mono) (auto intro: outside_kept_Suc copied_Suc simp del: entry.simps)
    have "outside_kept (Suc n) c (entry s) (entry t)"
      by (rule outside_kept_Suc [OF dc]) (simp add: outside_kept_def del: entry.simps)
    then show "okK (if ok then copy_dirs nr n (slot 0 (Suc f)) (slot 0 (Suc c)) t else Ok False t) (\<lambda>ok u. mm_inv h u \<and>
        outside_kept (Suc n) c (entry s) (entry u) \<and> (ok \<longrightarrow> copied nr (Suc n) f c (entry s) (entry u)))"
      using IH t(1) by simp
  qed
qed

subsection \<open>In terms of linear addresses\<close>

lemma dir_nr_unat: "dir_nr a = unat a div 4194304"
  by (simp add: dir_nr_def unat_drop_bit_eq drop_bit_nat_def)

lemma tbl_nr_unat: "tbl_nr a = unat a div 4096 mod 1024"
  by (simp add: tbl_nr_def unsigned_take_bit_eq unat_drop_bit_eq drop_bit_nat_def take_bit_nat_def)

lemma aligned_4M: "b AND 0x3fffff = 0 \<Longrightarrow> unat b = 4194304 * dir_nr b"
proof -
  assume "b AND 0x3fffff = 0"
  moreover have "(0x3fffff :: u32) = mask 22" by (simp add: mask_eq_exp_minus_1)
  ultimately have "take_bit 22 b = 0" by (simp add: take_bit_eq_mask)
  then have "unat b mod 4194304 = 0"
    unfolding word_unat_eq_iff unsigned_take_bit_eq by (simp add: take_bit_nat_def)
  then show "unat b = 4194304 * dir_nr b"
    using mult_div_mod_eq [of 4194304 "unat b"] unfolding dir_nr_unat by simp
qed

lemma offset_nr:
  assumes "b AND 0x3fffff = 0" and "dir_nr b + dir_nr x < 1024"
  shows "dir_nr (b + x) = dir_nr b + dir_nr x" and "tbl_nr (b + x) = tbl_nr x"
proof -
  let ?D = "dir_nr b" and ?X = "unat x"
  have "?X div 4194304 = dir_nr x" by (simp add: dir_nr_unat)
  then have "?X < 4194304 * (dir_nr x + 1)" by (simp add: div_less_iff_less_mult [symmetric])
  then have "4194304 * ?D + ?X < 2 ^ 32" using assms(2) by simp
  then have u: "unat (b + x) = ?X + ?D * 4194304"
    using aligned_4M [OF assms(1)] by (simp add: unat_word_ariths take_bit_nat_eq_self mult.commute)
  show "dir_nr (b + x) = ?D + dir_nr x"
    unfolding dir_nr_unat [of "b + x"] u by (simp add: dir_nr_unat)
  have "(?X + ?D * 4194304) div 4096 = ?X div 4096 + ?D * 1024"
    using div_mult_self1 [of 4096 ?X "?D * 1024"] by simp
  then show "tbl_nr (b + x) = tbl_nr x" unfolding tbl_nr_unat u by simp
qed

definition in_space :: "u32 \<Rightarrow> u32 \<Rightarrow> u32 \<Rightarrow> bool" where
  "in_space b sz a \<longleftrightarrow> dir_nr b \<le> dir_nr a \<and> dir_nr a < dir_nr b + dirs_of sz"

lemma copy_page_tables_spec:
  fixes s :: "'z mm_st_scheme"
  assumes "mm_inv h s" and "from AND 0x3fffff = 0" and "to AND 0x3fffff = 0" and "4 \<le> dir_nr to"
    and "dir_nr to + dirs_of sz \<le> 1024" and "dir_nr from + dirs_of sz \<le> 1024"
    and "dir_nr from + dirs_of sz \<le> dir_nr to \<or> dir_nr to + dirs_of sz \<le> dir_nr from"
    and "\<forall>d. dir_nr to \<le> d \<and> d < dir_nr to + dirs_of sz \<longrightarrow> entry s (d, None) = None"
    and "nr = (if from = 0 then 0xA0 else 1024)"
    and "room (entry s) (mem_map s) (ptes (dir_nr from) (dirs_of sz) nr)"
    and "src_ok (entry s) (ptes (dir_nr from) (dirs_of sz) nr)"
  shows "okK (copy_page_tables from to sz s) (\<lambda>r t. mm_inv h t \<and> outside_kept (dirs_of sz) (dir_nr to) (entry s) (entry t) \<and>
     (r = 0 \<and> copied nr (dirs_of sz) (dir_nr from) (dir_nr to) (entry s) (entry t) \<or> r = -1))"
proof -
  have "nr \<le> 1024" using assms(9) by simp
  note cd = copy_dirs_spec [OF assms(1,4-8) this assms(10,11)]
  show ?thesis
    using assms(2,3) unfolding copy_page_tables_def dir_addr_slot Let_def assms(9) [symmetric] dirs_of_def [symmetric]
    by (simp del: entry.simps) (rule okK_mono [OF cd], auto simp del: entry.simps)
qed

end
