(* ===== verification/Mm_Properties.thy ===== *)
theory Mm_Properties
  imports Page_Sharing
begin

unbundle bit_operations_syntax

section \<open>Properties of memory management\<close>

text \<open>
  What \<^verbatim>\<open>mm/memory.c\<close> promises to the rest of the kernel: frames are never handed out twice or freed
  while mapped, sharing and copy on write keep every task's view of its memory, and \<^verbatim>\<open>fork\<close> followed
  by \<^verbatim>\<open>exit\<close> gives back exactly what it took.
\<close>

subsection \<open>Examples\<close>

text \<open>A machine with 16 MB, all of it free, and an empty page directory.\<close>

definition mm_empty :: mm_st where
  "mm_empty = sched_st.extend (sched_boot 0) (mm_st.fields (\<lambda>_. 0) (\<lambda>_. 0) 0x1000000)"

lemma mm_empty_simps [simp]:
  "phys mm_empty = (\<lambda>_. 0)" "mem_map mm_empty = (\<lambda>_. 0)" "HIGH_MEMORY mm_empty = 0x1000000"
  by (simp_all add: mm_empty_def sched_st.defs mm_st.defs)

lemma mm_empty_entry: "entry mm_empty = (\<lambda>_. None)"
proof
  fix x show "entry mm_empty x = None"
    by (cases x rule: ptref_cases) (auto simp: if_present_def pde_def present_def)
qed

lemma mm_empty_inv: "mm_inv (\<lambda>_. 0) mm_empty"
proof -
  have "\<not> (0x1000000 \<le> page_of k)" if "k < PAGING_PAGES" for k using page_of_simps(3) [OF that] by simp
  then show ?thesis
    by (auto simp: mm_inv_def mm_empty_entry tables_ok_def counts_ok_def refs_def high_held_def)
qed

text \<open>The first allocation takes the last frame.\<close>

lemma mm_empty_frame: "free_frame mm_empty = Some 3839"
proof (cases "free_frame mm_empty")
  case (Some i)
  note ff = free_frame_Some [OF Some]
  have "\<not> i < 3839" using ff(3) by auto
  then show ?thesis using Some ff(1) by simp
next
  case None
  then have "0 < PAGING_PAGES \<longrightarrow> mem_map mm_empty 0 \<noteq> 0" unfolding free_frame_None by blast
  then show ?thesis by simp
qed

definition mm_page :: mm_st where
  "mm_page = snd (get_free_page mm_empty)"

lemma mm_page_eq: "get_free_page mm_empty = (page_of 3839, mm_page)"
  by (simp add: mm_page_def get_free_page_def mm_empty_frame page_of_def Let_def)

lemma mm_page_facts:
  "mm_inv ((\<lambda>_. 0)(3839 := 1)) mm_page" "entry mm_page = (\<lambda>_. None)" "HIGH_MEMORY mm_page = 0x1000000"
  "mem_map mm_page = (\<lambda>_. 0)(3839 := 1)"
proof -
  have p: "page_of 3839 \<noteq> 0" by (rule page_of_simps) simp
  obtain i where i: "page_of 3839 = page_of i" "i < PAGING_PAGES" "entry mm_page = entry mm_empty"
    "mm_inv ((\<lambda>_. 0)(i := 1)) mm_page" "HIGH_MEMORY mm_page = HIGH_MEMORY mm_empty"
    "mem_map mm_page = (mem_map mm_empty)(i := 1)"
    by (rule get_free_page_Some [OF mm_empty_inv mm_page_eq p])
  have "i = 3839" using i(1,2) page_of_inj [of 3839 i] by simp
  then show "mm_inv ((\<lambda>_. 0)(3839 := 1)) mm_page" "entry mm_page = (\<lambda>_. None)" "HIGH_MEMORY mm_page = 0x1000000"
    "mem_map mm_page = (\<lambda>_. 0)(3839 := 1)"
    using i mm_empty_entry by auto
qed

text \<open>That page mapped at the start of task 1.\<close>

definition mm_task :: mm_st where
  "mm_task = snd (put_page (page_of 3839) 0x4000000 mm_page)"

lemma dir_nr_64M: "dir_nr 0x4000000 = 16" "tbl_nr 0x4000000 = 0" "dir_nr 0x8000000 = 32" "tbl_nr 0x8000000 = 0"
  by (simp_all add: dir_nr_unat tbl_nr_unat)

lemma mm_task_facts:
  "fst (put_page (page_of 3839) 0x4000000 mm_page) = page_of 3839"
  "mm_inv (\<lambda>_. 0) mm_task" "HIGH_MEMORY mm_task = 0x1000000"
  "entry mm_task (c, Some i) = (if c = 16 \<and> i = 0 then Some (page_of 3839 OR 7) else None)"
  "c \<noteq> 16 \<Longrightarrow> entry mm_task (c, None) = None"
proof -
  obtain r t where p: "put_page (page_of 3839) 0x4000000 mm_page = (r, t)" by (cases "put_page (page_of 3839) 0x4000000 mm_page")
  have t: "t = mm_task" using p by (simp add: mm_task_def)
  have inv: "mm_inv ((\<lambda>_. 0)(3839 := Suc 0)) mm_page" using mm_page_facts(1) by simp
  have w: "walk mm_page 0x4000000 = None" by (simp add: walk_def mm_page_facts)
  have some: "\<not> (\<forall>i<PAGING_PAGES. mem_map mm_page i \<noteq> 0)"
    unfolding mm_page_facts by (auto intro!: exI [of _ 0])
  have "page_of 3839 < HIGH_MEMORY mm_page" unfolding mm_page_facts by (rule page_of_simps) simp
  then have c: "3839 < PAGING_PAGES" "page_of 3839 < HIGH_MEMORY mm_page" "mem_map mm_page 3839 = 1" "4 \<le> dir_nr 0x4000000"
    by (simp_all add: dir_nr_64M mm_page_facts(4))
  have "r = page_of 3839 \<and> mm_inv (\<lambda>_. 0) t \<and> HIGH_MEMORY t = HIGH_MEMORY mm_page \<and>
    (\<forall>c i. entry t (c, Some i) = (if c = dir_nr 0x4000000 \<and> i = tbl_nr 0x4000000
        then Some (page_of 3839 OR 7) else entry mm_page (c, Some i))) \<and>
    (\<forall>c. c \<noteq> dir_nr 0x4000000 \<longrightarrow> entry t (c, None) = entry mm_page (c, None))"
    by (cases rule: put_page_spec [OF inv c w p]) (use some in blast, blast)
  then show "fst (put_page (page_of 3839) 0x4000000 mm_page) = page_of 3839"
  "mm_inv (\<lambda>_. 0) mm_task" "HIGH_MEMORY mm_task = 0x1000000"
  "entry mm_task (c, Some i) = (if c = 16 \<and> i = 0 then Some (page_of 3839 OR 7) else None)"
  "c \<noteq> 16 \<Longrightarrow> entry mm_task (c, None) = None"
    using p unfolding t mm_page_facts dir_nr_64M by auto
qed

subsection \<open>Allocating and mapping\<close>

text \<open>
  C34. \<^verbatim>\<open>get_free_page\<close> returns 0 exactly when every frame is in use; otherwise it returns the highest
  free frame, cleared, which no page table refers to; nothing else in memory changes, every linear
  address still translates as before, and the caller now holds the one reference to the frame.
\<close>

theorem get_free_page_allocates:
  assumes "mm_inv h s" and "get_free_page s = (p, t)"
  shows "p = 0 \<and> t = s \<and> (\<forall>i<PAGING_PAGES. mem_map s i \<noteq> 0) \<or>
    (\<exists>i<PAGING_PAGES. p = page_of i \<and> p \<noteq> 0 \<and> mem_map s i = 0 \<and>
       (\<forall>j. i < j \<longrightarrow> j < PAGING_PAGES \<longrightarrow> mem_map s j \<noteq> 0) \<and> fresh p s \<and>
       phys t = (\<lambda>a. if a \<in> slot p ` {..<1024} then 0 else phys s a) \<and>
       walk t = walk s \<and> mm_inv (h(i := 1)) t)"
proof (cases rule: get_free_page_spec [OF assms])
  case 1
  then show ?thesis by blast
next
  case (2 i)
  have "free_frame s = Some i"
  proof (cases "free_frame s")
    case None
    then show ?thesis using 2(2,9) free_frame_None by blast
  next
    case (Some j)
    then have "p = page_of j" using assms(2) by (simp add: get_free_page_def page_of_def Let_def)
    then show ?thesis using Some 2(1,2) free_frame_Some(1) [OF Some] page_of_inj [of i j] by simp
  qed
  then have "\<forall>j. i < j \<longrightarrow> j < PAGING_PAGES \<longrightarrow> mem_map s j \<noteq> 0" by (rule free_frame_Some(3))
  moreover have "walk t = walk s" using 2(5) by (simp add: walk_def fun_eq_iff del: entry.simps)
  moreover have "p \<noteq> 0" using page_of_simps(4) [OF 2(2)] 2(1) by simp
  ultimately show ?thesis using 2(1,2,4,6,9,11) by (intro disjI2 exI [of _ i] conjI) (assumption | simp)+
qed

theorem get_free_page_allocates_witness:
  "mm_inv (\<lambda>_. 0) mm_empty \<and> get_free_page mm_empty = (page_of 3839, mm_page) \<and> fresh (page_of 3839) mm_empty \<and>
   walk mm_page = walk mm_empty"
  using get_free_page_allocates [OF mm_empty_inv mm_page_eq] mm_empty_inv mm_page_eq page_of_simps(4) [of 3839] by auto

text \<open>
  C17. \<^verbatim>\<open>put_page(page, address)\<close> with a page the caller alone holds, at an address of user space that
  is not mapped: it returns 0 and changes nothing when a page table is needed and no frame is free;
  otherwise afterwards exactly the addresses of that page translate to the given frame (present,
  user, writable), all other translations are the old ones, and the caller's reference has become
  the table's.
\<close>

theorem put_page_maps:
  assumes "mm_inv (h(k := Suc (h k))) s" and "k < PAGING_PAGES" and "page_of k < HIGH_MEMORY s" and "mem_map s k = 1"
    and "4 \<le> dir_nr a" and "walk s a = None" and "put_page (page_of k) a s = (r, t)"
  shows "r = 0 \<and> t = s \<and> (\<forall>i<PAGING_PAGES. mem_map s i \<noteq> 0) \<or>
    r = page_of k \<and> mm_inv h t \<and> walk t = (\<lambda>b. if frame b = frame a then Some (page_of k OR 7) else walk s b)"
proof (cases rule: put_page_spec [OF assms])
  case 2
  have "walk t = (\<lambda>b. if frame b = frame a then Some (page_of k OR 7) else walk s b)"
    by (rule walk_upd) (rule 2(4))
  then show ?thesis using 2(1,2) by simp
qed simp

theorem put_page_maps_witness:
  "mm_inv ((\<lambda>_. 0)(3839 := Suc 0)) mm_page \<and> put_page (page_of 3839) 0x4000000 mm_page = (page_of 3839, mm_task) \<and>
   walk mm_task = (\<lambda>b. if frame b = 0x4000000 then Some (page_of 3839 OR 7) else None)"
proof -
  have p: "put_page (page_of 3839) 0x4000000 mm_page = (page_of 3839, mm_task)"
    using mm_task_facts(1) by (simp add: mm_task_def prod_eq_iff)
  have c: "3839 < PAGING_PAGES" "page_of 3839 < HIGH_MEMORY mm_page" "mem_map mm_page 3839 = 1"
    "4 \<le> dir_nr 0x4000000" "walk mm_page 0x4000000 = None"
    using page_of_simps(3) [of 3839] by (simp_all add: dir_nr_64M mm_page_facts walk_def)
  have inv: "mm_inv ((\<lambda>_. 0)(3839 := Suc 0)) mm_page" using mm_page_facts(1) by simp
  have w: "walk mm_page b = None" for b by (simp add: walk_def mm_page_facts)
  have "frame 0x4000000 = 0x4000000" by (simp add: frame_def)
  then show ?thesis
    using put_page_maps [where h = "\<lambda>_. 0", OF _ c p] inv p page_of_simps(4) [of 3839] by (auto simp: w)
qed

subsection \<open>Sharing an address space\<close>

definition fork_pages :: "u32 \<Rightarrow> nat" where
  "fork_pages from = (if from = 0 then 0xA0 else 1024)"

text \<open>
  When \<^verbatim>\<open>copy_page_tables(from, to, size)\<close> may be called: both bases are multiples of 4 MB, the ranges
  lie in the address space and do not overlap, nothing is mapped yet in the target, the entries to
  copy are those of a task or kernel pages below 1 MB, and the 8-bit counts can take one more
  reference for each of them.
\<close>

definition forkable :: "u32 \<Rightarrow> u32 \<Rightarrow> u32 \<Rightarrow> 'z mm_st_scheme \<Rightarrow> bool" where
  "forkable from to sz s \<longleftrightarrow>
     from AND 0x3fffff = 0 \<and> to AND 0x3fffff = 0 \<and> 4 \<le> dir_nr to \<and>
     dir_nr to + dirs_of sz \<le> 1024 \<and> dir_nr from + dirs_of sz \<le> 1024 \<and>
     (dir_nr from + dirs_of sz \<le> dir_nr to \<or> dir_nr to + dirs_of sz \<le> dir_nr from) \<and>
     (\<forall>d. dir_nr to \<le> d \<and> d < dir_nr to + dirs_of sz \<longrightarrow> entry s (d, None) = None) \<and>
     room (entry s) (mem_map s) (ptes (dir_nr from) (dirs_of sz) (fork_pages from)) \<and>
     src_ok (entry s) (ptes (dir_nr from) (dirs_of sz) (fork_pages from))"

lemma copy_forkable:
  assumes "mm_inv h s" and "forkable from to sz s"
  shows "okK (copy_page_tables from to sz s) (\<lambda>r t. mm_inv h t \<and> outside_kept (dirs_of sz) (dir_nr to) (entry s) (entry t) \<and>
     (r = 0 \<and> copied (fork_pages from) (dirs_of sz) (dir_nr from) (dir_nr to) (entry s) (entry t) \<or> r = -1))"
  by (rule copy_page_tables_spec [OF assms(1)]) (use assms(2) in \<open>simp_all add: forkable_def fork_pages_def del: entry.simps\<close>)

lemma copied_walk:
  assumes "copied nr n (dir_nr from) (dir_nr to) (entry s) (entry t)" and "n = dirs_of sz" and "forkable from to sz s"
  shows "dir_nr x < n \<Longrightarrow> walk t (to + x) = (if tbl_nr x < nr then map_option ro (walk s (from + x)) else None)"
    and "dir_nr x < n \<Longrightarrow> tbl_nr x < nr \<Longrightarrow> walk t (from + x) = map_option ro_high (walk s (from + x))"
    and "\<not> in_space to sz a \<Longrightarrow> \<not> in_space from sz a \<Longrightarrow> walk t a = walk s a"
proof -
  have al: "from AND 0x3fffff = 0" "to AND 0x3fffff = 0" and b: "dir_nr to + n \<le> 1024" "dir_nr from + n \<le> 1024"
    and dj: "dir_nr from + n \<le> dir_nr to \<or> dir_nr to + n \<le> dir_nr from"
    using assms(2,3) by (simp_all add: forkable_def)
  have c: "entry t (d, Some i) =
     (if dir_nr to \<le> d \<and> d < dir_nr to + n then if i < nr then map_option ro (entry s (dir_nr from + (d - dir_nr to), Some i)) else None
      else if dir_nr from \<le> d \<and> d < dir_nr from + n \<and> i < nr then map_option ro_high (entry s (d, Some i)) else entry s (d, Some i))" for d i
    using assms(1) unfolding copied_def by blast
  show "walk t (to + x) = (if tbl_nr x < nr then map_option ro (walk s (from + x)) else None)" if "dir_nr x < n"
    using that b offset_nr [OF al(1), of x] offset_nr [OF al(2), of x] by (simp add: walk_def c del: entry.simps)
  show "walk t (from + x) = map_option ro_high (walk s (from + x))" if "dir_nr x < n" "tbl_nr x < nr"
    using that b dj offset_nr [OF al(1), of x] by (auto simp: walk_def c simp del: entry.simps)
  show "walk t a = walk s a" if "\<not> in_space to sz a" "\<not> in_space from sz a"
    using that assms(2) by (auto simp: walk_def c in_space_def simp del: entry.simps)
qed

text \<open>
  C6. \<^verbatim>\<open>copy_page_tables\<close>, as \<^verbatim>\<open>fork\<close> calls it, never panics. When it returns 0, every address of the child
  translates to the frame of the corresponding address of the parent, write protected; the parent's
  pages above 1 MB are write protected too, and all other translations are unchanged. It returns -1
  only otherwise, and in both cases the reference counts are exact.
\<close>

theorem copy_page_tables_shares:
  assumes "mm_inv h s" and "forkable from to sz s"
  shows "\<exists>r t. copy_page_tables from to sz s = Ok r t \<and> mm_inv h t \<and> (r = -1 \<or> r = 0 \<and>
     (\<forall>x. dir_nr x < dirs_of sz \<longrightarrow>
        walk t (to + x) = (if tbl_nr x < fork_pages from then map_option ro (walk s (from + x)) else None)) \<and>
     (\<forall>x. dir_nr x < dirs_of sz \<longrightarrow> tbl_nr x < fork_pages from \<longrightarrow>
        walk t (from + x) = map_option ro_high (walk s (from + x))) \<and>
     (\<forall>a. \<not> in_space to sz a \<longrightarrow> \<not> in_space from sz a \<longrightarrow> walk t a = walk s a))"
proof -
  obtain r t where t: "copy_page_tables from to sz s = Ok r t" "mm_inv h t"
    "r = 0 \<and> copied (fork_pages from) (dirs_of sz) (dir_nr from) (dir_nr to) (entry s) (entry t) \<or> r = -1"
    using copy_forkable [OF assms] by (auto simp: okK_iff)
  then show ?thesis
    using copied_walk [OF _ refl assms(2), of "fork_pages from" t] by (intro exI [of _ r] exI [of _ t]) blast
qed

text \<open>Task 1 of the example forks into the next 64 MB.\<close>

lemma mm_task_dom: "entry mm_task x \<noteq> None \<Longrightarrow> x = (16, None) \<or> x = (16, Some 0)"
proof (cases x rule: ptref_cases)
  case (dir d)
  then show "entry mm_task x \<noteq> None \<Longrightarrow> ?thesis" using mm_task_facts(5) [of d] by (cases "d = 16") auto
next
  case (pte d i)
  then show "entry mm_task x \<noteq> None \<Longrightarrow> ?thesis" by (simp add: mm_task_facts(4) del: entry.simps split: if_splits)
qed

lemma dirs_of_4M: "dirs_of 0x400000 = 1"
  by (simp add: dirs_of_def unat_drop_bit_eq drop_bit_nat_def)

lemma mm_task_refs: "card {x \<in> A. map_option frame (entry mm_task x) = Some p} \<le> 2"
proof -
  have "{x \<in> A. map_option frame (entry mm_task x) = Some p} \<subseteq> {(16, None), (16, Some 0)}"
    using mm_task_dom by fastforce
  then have "card {x \<in> A. map_option frame (entry mm_task x) = Some p} \<le> card {(16 :: nat, None :: nat option), (16, Some 0)}"
    by (rule card_mono [rotated]) simp
  then show ?thesis by simp
qed

lemma mm_task_forkable: "forkable 0x4000000 0x8000000 0x400000 mm_task"
proof -
  have "room (entry mm_task) (mem_map mm_task) R" for R
    unfolding room_def
  proof (intro allI impI)
    fix k assume k: "k < PAGING_PAGES"
    have "unat (mem_map mm_task k) \<le> 2"
      using counts_okD [OF mm_invD(2) [OF mm_task_facts(2)] k] mm_task_refs [of user_refs] by (simp add: refs_def del: map_option_eq_Some)
    then show "unat (mem_map mm_task k) + card {x \<in> R. map_option frame (entry mm_task x) = Some (page_of k)} \<le> 255"
      using mm_task_refs [of R "page_of k"] by linarith
  qed
  then show ?thesis
    unfolding forkable_def dir_nr_64M dirs_of_4M
    using mm_task_facts(5) by (auto simp: src_ok_def ptes_def simp del: entry.simps)
qed

theorem copy_page_tables_shares_witness:
  "mm_inv (\<lambda>_. 0) mm_task \<and> forkable 0x4000000 0x8000000 0x400000 mm_task \<and>
   (\<exists>r t. copy_page_tables 0x4000000 0x8000000 0x400000 mm_task = Ok r t \<and> mm_inv (\<lambda>_. 0) t \<and>
      (r = -1 \<or> r = 0 \<and> walk t 0x8000000 = map_option ro (walk mm_task 0x4000000)))"
proof -
  have x: "dir_nr 0 = 0" "tbl_nr 0 = 0" by (simp_all add: dir_nr_unat tbl_nr_unat)
  show ?thesis
    using copy_page_tables_shares [OF mm_task_facts(2) mm_task_forkable] mm_task_facts(2) mm_task_forkable
    by (force simp: dirs_of_4M x fork_pages_def dest: spec [of _ 0])
qed

subsection \<open>Giving an address space back\<close>

text \<open>
  C8. \<^verbatim>\<open>free_page_tables\<close> on an aligned range of user space never panics: the counts always allow the
  frees. Afterwards nothing in the range is mapped, every address outside it translates as before,
  and the reference counts are exact: no frame leaks, none is freed while still mapped.
\<close>

theorem free_page_tables_unmaps:
  assumes "mm_inv h s" and "from AND 0x3fffff = 0" and "4 \<le> dir_nr from" and "dir_nr from + dirs_of sz \<le> 1024"
  shows "\<exists>t. free_page_tables from sz s = Ok 0 t \<and> mm_inv h t \<and>
     walk t = (\<lambda>a. if in_space from sz a then None else walk s a)"
  using free_page_tables_spec [OF assms] by (auto simp: okK_iff walk_def in_space_def fun_eq_iff simp del: entry.simps)

theorem free_page_tables_unmaps_witness:
  "mm_inv (\<lambda>_. 0) mm_task \<and> (\<exists>t. free_page_tables 0x4000000 0x400000 mm_task = Ok 0 t \<and> mm_inv (\<lambda>_. 0) t \<and>
     walk t 0x4000000 = None)"
  using free_page_tables_unmaps [OF mm_task_facts(2), of "0x4000000" "0x400000"] mm_task_facts(2)
  by (auto simp: dir_nr_64M dirs_of_4M in_space_def)

lemma refs_cong: "(\<And>x. map_option frame (m' x) = map_option frame (m x)) \<Longrightarrow> refs m' p = refs m p"
  unfolding refs_def by (simp only:)

lemma counts_determined:
  assumes "counts_ok h m mp" and "counts_ok h m' mp'" and "\<And>x. map_option frame (m' x) = map_option frame (m x)"
    and "k < PAGING_PAGES"
  shows "mp' k = mp k"
proof -
  have "unat (mp' k) = unat (mp k)"
    using counts_okD [OF assms(1,4)] counts_okD [OF assms(2,4)] refs_cong [OF assms(3)] by simp
  then show ?thesis by (simp add: word_unat_eq_iff)
qed

lemma fork_exit_frames:
  assumes "forkable from to sz s" and "outside_kept (dirs_of sz) (dir_nr to) (entry s) (entry t)"
    and "entry u = (\<lambda>x. if dir_nr to \<le> fst x \<and> fst x < dir_nr to + dirs_of sz then None else entry t x)"
  shows "map_option frame (entry u x) = map_option frame (entry s x)"
proof (cases "dir_nr to \<le> fst x \<and> fst x < dir_nr to + dirs_of sz")
  case True
  then have "entry s (fst x, None) = None" using assms(1) by (simp add: forkable_def del: entry.simps)
  then have "entry s x = None"
    using entry_table [of s "fst x"] by (cases x rule: ptref_cases) (fastforce simp del: entry.simps)+
  then show ?thesis using True assms(3) by simp
next
  case False
  then have "entry u x = entry t x" using assms(3) by auto
  then show ?thesis using False assms(2) unfolding outside_kept_def by metis
qed

text \<open>
  C15. \<^verbatim>\<open>copy_page_tables\<close> followed by \<^verbatim>\<open>free_page_tables\<close> on the child, as \<^verbatim>\<open>exit\<close> does and as \<^verbatim>\<open>copy_mem\<close> does when
  the copy runs out of memory: whether or not the copy succeeded, both calls return, every reference
  count is back to what it was, and every address translates to the frame it had.
\<close>

theorem fork_exit_restores_counts:
  assumes "mm_inv h s" and "forkable from to sz s"
  shows "\<exists>r t u. copy_page_tables from to sz s = Ok r t \<and> free_page_tables to sz t = Ok 0 u \<and> mm_inv h u \<and>
     (\<forall>k<PAGING_PAGES. mem_map u k = mem_map s k) \<and> (\<forall>a. map_option frame (walk u a) = map_option frame (walk s a))"
proof -
  obtain r t where t: "copy_page_tables from to sz s = Ok r t" "mm_inv h t"
    "outside_kept (dirs_of sz) (dir_nr to) (entry s) (entry t)"
    using copy_forkable [OF assms] by (auto simp: okK_iff)
  obtain u where u: "free_page_tables to sz t = Ok 0 u" "mm_inv h u"
    "entry u = (\<lambda>x. if dir_nr to \<le> fst x \<and> fst x < dir_nr to + dirs_of sz then None else entry t x)"
    using free_page_tables_spec [OF t(2), of to sz] assms(2) by (auto simp: okK_iff forkable_def simp del: entry.simps)
  note f = fork_exit_frames [OF assms(2) t(3) u(3)]
  have "\<forall>k<PAGING_PAGES. mem_map u k = mem_map s k"
    using counts_determined [OF mm_invD(2) [OF assms(1)] mm_invD(2) [OF u(2)] f] by blast
  then show ?thesis using t(1) u(1,2) f by (auto simp: walk_def simp del: entry.simps)
qed

theorem fork_exit_restores_counts_witness:
  "mm_inv (\<lambda>_. 0) mm_task \<and> forkable 0x4000000 0x8000000 0x400000 mm_task \<and>
   (\<exists>r t u. copy_page_tables 0x4000000 0x8000000 0x400000 mm_task = Ok r t \<and>
      free_page_tables 0x8000000 0x400000 t = Ok 0 u \<and> mem_map u 3839 = mem_map mm_task 3839)"
  using fork_exit_restores_counts [OF mm_task_facts(2) mm_task_forkable] mm_task_facts(2) mm_task_forkable by auto

subsection \<open>Copy on write\<close>

lemma un_wp_page_spec:
  assumes "mm_inv h s" and "entry s (d, None) = Some pe" and "entry s (d, Some i) = Some e" and "4 \<le> d"
  shows "(\<exists>t. un_wp_page (slot (frame pe) i) s = Ok () t \<and> mm_inv h t \<and> unshared s d i e (slot (frame pe) i) t) \<or>
     un_wp_page (slot (frame pe) i) s = Exit SIGSEGV s \<and> (\<forall>k<PAGING_PAGES. mem_map s k \<noteq> 0)"
proof -
  have d: "d < 1024" "present pe" "pde s d = pe" using assms(2) unfolding entry_None_iff by auto
  have e: "phys s (slot (frame pe) i) = e"
    using assms(3) d by (auto simp: if_present_def split: if_splits)
  obtain p u where g: "get_free_page s = (p, u)" by (cases "get_free_page s")
  consider (sole) "LOW_MEM \<le> frame e" "mem_map s (MAP_NR (frame e)) = 1"
    | (copy) "\<not> (LOW_MEM \<le> frame e \<and> mem_map s (MAP_NR (frame e)) = 1)" "p \<noteq> 0"
    | (full) "\<not> (LOW_MEM \<le> frame e \<and> mem_map s (MAP_NR (frame e)) = 1)" "p = 0" by blast
  then show ?thesis
  proof cases
    case sole
    then show ?thesis using un_wp_sole [OF assms sole] by (simp add: un_wp_page_def e)
  next
    case copy
    then show ?thesis using un_wp_copy [OF assms g copy(2)] g by (auto simp: un_wp_page_def e Let_def)
  next
    case full
    have "u = s \<and> (\<forall>k<PAGING_PAGES. mem_map s k \<noteq> 0)"
      using full(2) by (cases rule: get_free_page_spec [OF assms(1) g]) (auto simp: page_of_simps)
    then show ?thesis using full g by (auto simp: un_wp_page_def e Let_def oom_def)
  qed
qed

lemma walk_Some:
  assumes "walk s a = Some e"
  obtains pe where "entry s (dir_nr a, None) = Some pe" and "pte_addr a s = slot (frame pe) (tbl_nr a)"
proof -
  obtain pe where pe: "entry s (dir_nr a, None) = Some pe" using entry_table assms unfolding walk_def by blast
  then have "phys s (dir_addr a) = pe" unfolding entry_None_iff pde_def dir_addr_slot by simp
  then show ?thesis using that pe by (simp add: pte_addr_slot)
qed

text \<open>
  C12. The page fault handler \<^verbatim>\<open>do_wp_page\<close>, at a mapped address of user space: either it returns and then
  the page is mapped writable, by this entry alone, with the contents it had, no other address
  translates differently and no other page or table is written (so the other sharers keep their
  page), with exact counts; or the page was shared, every frame is in use, and the task ends with
  \<^verbatim>\<open>SIGSEGV\<close>.
\<close>

theorem do_wp_page_unshares:
  assumes "mm_inv h s" and "walk s a = Some e" and "4 \<le> dir_nr a"
  shows "(\<exists>t e'. do_wp_page err a s = Ok () t \<and> mm_inv h t \<and>
       walk t = (\<lambda>b. if frame b = frame a then Some e' else walk s b) \<and> bit e' 1 \<and>
       sole_owner (entry t) (dir_nr a, Some (tbl_nr a)) e' \<and>
       (\<forall>w<1024. phys t (slot (frame e') w) = phys s (slot (frame e) w)) \<and>
       (\<forall>x. x \<noteq> pte_addr a s \<longrightarrow> x \<notin> slot (frame e') ` {..<1024} \<longrightarrow> phys t x = phys s x)) \<or>
     do_wp_page err a s = Exit SIGSEGV s \<and> (\<forall>k<PAGING_PAGES. mem_map s k \<noteq> 0)"
proof -
  obtain pe where pe: "entry s (dir_nr a, None) = Some pe" "pte_addr a s = slot (frame pe) (tbl_nr a)"
    by (rule walk_Some [OF assms(2)])
  have w: "walk t = (\<lambda>b. if frame b = frame a then Some e' else walk s b)"
    if "entry t = (entry s)((dir_nr a, Some (tbl_nr a)) := Some e')" for t e'
    by (rule walk_upd) (simp add: that del: entry.simps)
  show ?thesis
    using un_wp_page_spec [OF assms(1) pe(1) assms(2) [unfolded walk_def] assms(3)]
    unfolding do_wp_page_def pe(2) unshared_def by (elim disjE exE conjE) (use w in blast)+
qed

theorem do_wp_page_unshares_witness:
  "mm_inv (\<lambda>_. 0) mm_task \<and> walk mm_task 0x4000000 = Some (page_of 3839 OR 7) \<and>
   ((\<exists>t e'. do_wp_page 7 0x4000000 mm_task = Ok () t \<and> mm_inv (\<lambda>_. 0) t \<and> walk t 0x4000000 = Some e' \<and> bit e' 1) \<or>
     do_wp_page 7 0x4000000 mm_task = Exit 11 mm_task)"
proof -
  have w: "walk mm_task 0x4000000 = Some (page_of 3839 OR 7)"
    by (simp add: walk_def dir_nr_64M mm_task_facts(4) del: entry.simps)
  from do_wp_page_unshares [OF mm_task_facts(2) w, of 7] show ?thesis
    using w mm_task_facts(2) by (auto simp: dir_nr_64M)
qed

subsection \<open>Start-up\<close>

lemma mem_map_fold_upd:
  "mem_map (fold (\<lambda>i. upd_map (g i) (\<lambda>_. v)) xs s) k = (if k \<in> g ` set xs then v else mem_map s k)"
  by (induction xs arbitrary: s) auto

lemma mem_init_simps:
  "phys (mem_init a b s) = phys s" "HIGH_MEMORY (mem_init a b s) = b"
  unfolding mem_init_def Let_def
  by (simp_all add: fold_frame [where g = phys] fold_frame [where g = HIGH_MEMORY] del: upt_rec_numeral)

lemma mem_init_map:
  assumes "k < PAGING_PAGES"
  shows "mem_map (mem_init a b s) k =
    (if k \<in> (\<lambda>k. MAP_NR a + k) ` {0..<nat (sint (b - a) div 4096)} then 0 else USED)"
  unfolding mem_init_def Let_def
  using assms by (simp add: mem_map_fold_upd [of "\<lambda>k. MAP_NR a + k"] mem_map_fold_upd [of "\<lambda>k. k"] del: upt_rec_numeral)

lemma mem_init_frames:
  assumes "aligned a" and "aligned b" and "LOW_MEM \<le> a" and "a \<le> b" and "b \<le> 0x1000000" and "k < PAGING_PAGES"
  shows "mem_map (mem_init a b s) k = (if a \<le> page_of k \<and> page_of k < b then 0 else USED)"
proof -
  obtain A B where A: "unat a = 4096 * A" and B: "unat b = 4096 * B" using assms(1,2) by (auto simp: aligned_unat elim!: dvdE)
  have le: "256 \<le> A" "A \<le> B" "B \<le> 4096" using assms(3-5) A B by (auto simp: word_le_nat_alt)
  have "unat (b - a) = 4096 * (B - A)" using assms(4) A B by (simp add: unat_sub word_le_nat_alt diff_mult_distrib2)
  then have "uint (b - a) = 4096 * int (B - A)" by (metis of_nat_mult of_nat_numeral uint_nat)
  then have "sint (b - a) = 4096 * int (B - A)"
    using le unfolding sint_uint by (simp add: signed_take_bit_int_eq_self)
  then have n: "nat (sint (b - a) div 4096) = B - A" by simp
  have "MAP_NR a = A - 256" using A assms(3) by (simp add: MAP_NR_unat)
  then have "k \<in> (\<lambda>k. MAP_NR a + k) ` {0..<B - A} \<longleftrightarrow> A \<le> k + 256 \<and> k + 256 < B"
    using le by (auto simp: image_iff intro!: bexI [of _ "k + 256 - A"])
  moreover have "a \<le> page_of k \<and> page_of k < b \<longleftrightarrow> A \<le> k + 256 \<and> k + 256 < B"
    using A B unat_page_of [OF assms(6)] by (auto simp: word_le_nat_alt word_less_nat_alt)
  ultimately show ?thesis using mem_init_map [OF assms(6), of a b s] by (simp only: n)
qed

text \<open>
  C21. \<^verbatim>\<open>mem_init(start, end)\<close> establishes the invariant of memory management, given the directory set up
  by the boot code (no user entries, kernel tables below 1 MB): exactly the frames of the main memory
  from \<^verbatim>\<open>start\<close> to \<^verbatim>\<open>end\<close> are free, and every other frame is held with the count 100.
\<close>

theorem mem_init_establishes:
  assumes "aligned a" and "aligned b" and "LOW_MEM \<le> a" and "a \<le> b" and "b \<le> 0x1000000"
    and "\<forall>d e. entry s (d, None) = Some e \<longrightarrow> d < 4 \<and> frame e \<noteq> 0 \<and> frame e < LOW_MEM"
    and "\<forall>d d' e e'. entry s (d, None) = Some e \<longrightarrow> entry s (d', None) = Some e' \<longrightarrow> frame e = frame e' \<longrightarrow> d = d'"
  shows "mm_inv (\<lambda>k. if a \<le> page_of k \<and> page_of k < b then 0 else 100) (mem_init a b s) \<and>
     walk (mem_init a b s) = walk s"
proof -
  let ?t = "mem_init a b s" and ?h = "\<lambda>k. if a \<le> page_of k \<and> page_of k < b then 0 else 100"
  have et: "entry ?t = entry s" by (rule entry_phys_cong) (rule mem_init_simps)
  have none: "entry s (d, r) = None" if "4 \<le> d" for d r
  proof (rule ccontr)
    assume n: "entry s (d, r) \<noteq> None"
    then obtain e where "entry s (d, None) = Some e"
      using entry_table [of s d] by (cases r) (fastforce simp del: entry.simps)+
    then have "d < 4" using assms(6) by blast
    then show False using that by simp
  qed
  have "tables_ok (entry s) b"
    unfolding tables_ok_def using assms none by (simp del: entry.simps)
  moreover have "refs (entry s) p = 0" for p
  proof -
    have "{x \<in> user_refs. map_option frame (entry s x) = Some p} = {}"
      using none by (auto simp: user_refs_def simp del: entry.simps)
    then show ?thesis unfolding refs_def by (simp only: card.empty)
  qed
  then have "counts_ok ?h (entry s) (mem_map ?t)"
    using mem_init_frames [OF assms(1-5), of _ s] by (simp add: counts_ok_def)
  moreover have "high_held ?h b" by (auto simp: high_held_def)
  ultimately show ?thesis
    unfolding mm_inv_def walk_def [abs_def] et mem_init_simps by simp
qed

theorem mem_init_establishes_witness:
  "mm_inv (\<lambda>k. if 0x400000 \<le> page_of k \<and> page_of k < 0x1000000 then 0 else 100) (mem_init 0x400000 0x1000000 mm_empty) \<and>
   walk (mem_init 0x400000 0x1000000 mm_empty) = walk mm_empty"
  by (rule mem_init_establishes) (simp_all add: aligned_def mm_empty_entry del: entry.simps)

end
