(* ===== verification/Process.thy ===== *)
theory Process
  imports Mm_Properties
begin

unbundle bit_operations_syntax

section \<open>Processes\<close>

text \<open>
  The parts of \<^verbatim>\<open>kernel/fork.c\<close> below the file system: segment descriptors, \<^verbatim>\<open>verify_area\<close>, \<^verbatim>\<open>copy_mem\<close> and
  \<^verbatim>\<open>find_empty_process\<close>. \<open>task_page i\<close> is the address of the page that holds \<^verbatim>\<open>*task[i]\<close>.
\<close>

subsection \<open>Model\<close>

record proc_st = mm_st +
  task_page :: "nat \<Rightarrow> u32"

abbreviation (input) EPERM :: int where "EPERM \<equiv> 1"
abbreviation (input) ENOENT :: int where "ENOENT \<equiv> 2"
abbreviation (input) ESRCH :: int where "ESRCH \<equiv> 3"
abbreviation (input) EINTR :: int where "EINTR \<equiv> 4"
abbreviation (input) ECHILD :: int where "ECHILD \<equiv> 10"
abbreviation (input) EAGAIN :: int where "EAGAIN \<equiv> 11"
abbreviation (input) ENOMEM :: int where "ENOMEM \<equiv> 12"
abbreviation (input) EINVAL :: int where "EINVAL \<equiv> 22"
abbreviation (input) ENOSYS :: int where "ENOSYS \<equiv> 38"
abbreviation (input) ERROR :: int where "ERROR \<equiv> 99"

definition get_base :: "desc_struct \<Rightarrow> u32" where
  "get_base d = (desc_b d AND 0xff000000) OR push_bit 16 (desc_b d AND 0xff) OR drop_bit 16 (desc_a d)"

definition set_base :: "u32 \<Rightarrow> desc_struct \<Rightarrow> desc_struct" where
  "set_base base d =
     \<lparr>desc_a = push_bit 16 base OR (desc_a d AND 0xffff),
      desc_b = (base AND 0xff000000) OR (desc_b d AND 0x00ffff00) OR (drop_bit 16 base AND 0xff)\<rparr>"

text \<open>
  \<^verbatim>\<open>lsll\<close> loads the limit of a segment in bytes: the 20 bits of the descriptor, scaled by 4096 and
  filled with ones when the granularity bit is set.
\<close>

definition get_limit :: "desc_struct \<Rightarrow> u32" where
  "get_limit d =
     (let l = (desc_a d AND 0xffff) OR (desc_b d AND 0xf0000)
      in (if bit (desc_b d) 23 then push_bit 12 l OR 0xfff else l) + 1)"

function verify_loop :: "int \<Rightarrow> u32 \<Rightarrow> 'z mm_st_scheme \<Rightarrow> (unit, 'z mm_st_scheme) outcome" where
  "verify_loop sz start s =
     (if sz > 0 then bindK (write_verify start s) (\<lambda>_ s. verify_loop (sz - 4096) (start + 4096) s) else Ok () s)"
  by pat_completeness auto

termination verify_loop
  by (relation "measure (\<lambda>(sz, _, _). nat sz)") auto

declare verify_loop.simps [simp del]

definition area_start :: "u32 \<Rightarrow> 'z mm_st_scheme \<Rightarrow> u32" where
  "area_start addr s = (addr AND 0xfffff000) + get_base (t_ldt (cur s) 2)"

definition area_len :: "u32 \<Rightarrow> int \<Rightarrow> int" where
  "area_len addr sz = sz + uint (addr AND 0xfff)"

definition verify_area :: "u32 \<Rightarrow> int \<Rightarrow> 'z mm_st_scheme \<Rightarrow> (unit, 'z mm_st_scheme) outcome" where
  "verify_area addr sz s = verify_loop (area_len addr sz) (area_start addr s) s"

definition copy_mem :: "nat \<Rightarrow> 'z mm_st_scheme \<Rightarrow> (int, 'z mm_st_scheme) outcome" where
  "copy_mem nr s =
     (let code_limit = get_limit (t_ldt (cur s) 1); data_limit = get_limit (t_ldt (cur s) 2);
          old_code_base = get_base (t_ldt (cur s) 1); old_data_base = get_base (t_ldt (cur s) 2)
      in if old_data_base \<noteq> old_code_base then Panic ''We don't support separate I&D''
         else if data_limit < code_limit then Panic ''Bad data_limit''
         else let new_base = word_of_nat nr * 0x4000000;
                  s = upd_task nr (\<lambda>p. p\<lparr>t_start_code := new_base,
                        t_ldt := (t_ldt p)(1 := set_base new_base (t_ldt p 1), 2 := set_base new_base (t_ldt p 2))\<rparr>) s
              in bindK (copy_page_tables old_data_base new_base data_limit s) (\<lambda>r s.
                   if r \<noteq> 0 then bindK (free_page_tables new_base data_limit s) (\<lambda>_ s. Ok (- ENOMEM) s)
                   else Ok 0 s))"

text \<open>\<^verbatim>\<open>++last_pid\<close> on a 32-bit \<^verbatim>\<open>long\<close>, started again at 1 when it turns negative.\<close>

definition next_pid :: "int \<Rightarrow> int" where
  "next_pid p = (let p = (if p = 2147483647 then - 2147483648 else p + 1) in if p < 0 then 1 else p)"

definition pid_used :: "int \<Rightarrow> 'z sched_st_scheme \<Rightarrow> bool" where
  "pid_used p s \<longleftrightarrow> list_ex (\<lambda>i. case task s i of None \<Rightarrow> False | Some t \<Rightarrow> t_pid t = p) [0..<NR_TASKS]"

definition new_pid :: "'z sched_st_scheme \<Rightarrow> (unit, 'z sched_st_scheme) outcome" where
  "new_pid s = iterK (\<lambda>(_::unit) s.
     let s = s\<lparr>last_pid := next_pid (last_pid s)\<rparr>
     in if pid_used (last_pid s) s then Ok (Inl ()) s else Ok (Inr ()) s) () s"

definition find_empty_process :: "'z sched_st_scheme \<Rightarrow> (int, 'z sched_st_scheme) outcome" where
  "find_empty_process s = bindK (new_pid s) (\<lambda>_ s.
     case find (\<lambda>i. task s i = None) [1..<NR_TASKS] of
       Some i \<Rightarrow> Ok (int i) s
     | None \<Rightarrow> Ok (- EAGAIN) s)"

subsection \<open>Descriptors\<close>

text \<open>The base written by \<^verbatim>\<open>set_base\<close> is the base read by \<^verbatim>\<open>get_base\<close>, and the limit is kept.\<close>

lemma u32_eq_bits:
  assumes "list_all (\<lambda>n. bit (a :: u32) n = bit b n)
    [0, 1, 2, 3, 4, 5, 6, 7, 8, 9, 10, 11, 12, 13, 14, 15,
     16, 17, 18, 19, 20, 21, 22, 23, 24, 25, 26, 27, 28, 29, 30, 31]"
  shows "a = b"
proof (rule bit_word_eqI)
  have "[0..<32] = [0, 1, 2, 3, 4, 5, 6, 7, 8, 9, 10, 11, 12, 13, 14, 15,
     16, 17, 18, 19, 20, 21, 22, 23, 24, 25, 26, 27, 28, 29, 30, 31]"
    by (simp add: upt_conv_Cons numeral_eq_Suc)
  with assms have "list_all (\<lambda>n. bit a n = bit b n) [0..<32]" by (simp only:)
  then show "bit a n = bit b n" if "n < LENGTH(32)" for n
    using that by (simp add: list_all_iff)
qed

lemma get_set_base: "get_base (set_base b d) = b"
  unfolding get_base_def set_base_def by (rule u32_eq_bits) (simp add: bit_simps)

lemma get_limit_set_base: "get_limit (set_base b d) = get_limit d"
proof -
  have a: "desc_a (set_base b d) AND 0xffff = desc_a d AND 0xffff"
    unfolding set_base_def by (rule u32_eq_bits) (simp add: bit_simps)
  have b: "desc_b (set_base b d) AND 0xf0000 = desc_b d AND 0xf0000"
    unfolding set_base_def by (rule u32_eq_bits) (simp add: bit_simps)
  have "bit (desc_b (set_base b d)) 23 = bit (desc_b d) 23"
    unfolding set_base_def by (simp add: bit_simps)
  with a b show ?thesis
    by (simp add: get_limit_def)
qed

subsection \<open>Memory management touches nothing else\<close>

text \<open>Everything in \<^verbatim>\<open>mm/memory.c\<close> changes physical memory and the map of frames only.\<close>

definition mm_only :: "'z mm_st_scheme \<Rightarrow> 'z mm_st_scheme \<Rightarrow> bool" where
  "mm_only s t \<longleftrightarrow> (\<exists>p m. t = s\<lparr>phys := p, mem_map := m\<rparr>)"

lemma mm_onlyI: "t = s\<lparr>phys := p, mem_map := m\<rparr> \<Longrightarrow> mm_only s t"
  by (auto simp: mm_only_def)

lemma mm_only_refl [simp]: "mm_only s s"
  by (rule mm_onlyI [where p = "phys s" and m = "mem_map s"]) simp

lemma mm_only_trans: "mm_only s t \<Longrightarrow> mm_only t u \<Longrightarrow> mm_only s u"
  unfolding mm_only_def by (elim exE) (simp, blast)

lemma mm_only_fields:
  assumes "mm_only s t"
  shows "task t = task s" "current t = current s" "fs_mem t = fs_mem s" "jiffies t = jiffies s"
    "HIGH_MEMORY t = HIGH_MEMORY s" "cur t = cur s" "cur_ok t = cur_ok s" "mm_st.more t = mm_st.more s"
proof -
  from assms obtain p m where t: "t = s\<lparr>phys := p, mem_map := m\<rparr>" unfolding mm_only_def by blast
  show "task t = task s" "current t = current s" "fs_mem t = fs_mem s" "jiffies t = jiffies s"
    "HIGH_MEMORY t = HIGH_MEMORY s" "cur t = cur s" "cur_ok t = cur_ok s" "mm_st.more t = mm_st.more s"
    by (simp_all add: t cur_def cur_ok_def)
qed

lemma mm_only_basic [simp]: "mm_only s (poke a v s)" "mm_only s (upd_map i f s)"
proof -
  show "mm_only s (poke a v s)"
    by (rule mm_onlyI [where p = "(phys s)(a := v)" and m = "mem_map s"]) (simp add: poke_def)
  show "mm_only s (upd_map i f s)"
    by (rule mm_onlyI [where p = "phys s" and m = "(mem_map s)(i := f (mem_map s i))"]) (simp add: upd_map_def)
qed

lemma mm_only_fold:
  assumes "\<And>i s. mm_only s (f i s)"
  shows "mm_only s (fold f xs s)"
proof (induction xs arbitrary: s)
  case (Cons x xs)
  show ?case using mm_only_trans [OF assms [of s x] Cons] by simp
qed simp

lemma mm_only_page [simp]: "mm_only s (zero_page p s)" "mm_only s (copy_page a b s)"
  unfolding zero_page_def copy_page_def by (rule mm_only_fold, simp)+

lemma mm_only_store [simp]:
  assumes "mm_only s t"
  shows "mm_only s (poke a v t)" "mm_only s (upd_map i f t)" "mm_only s (zero_page p t)" "mm_only s (copy_page p q t)"
  by (rule mm_only_trans [OF assms], simp)+

lemma mm_only_get_free_page: "get_free_page s = (p, t) \<Longrightarrow> mm_only s t"
  by (auto simp: get_free_page_def Let_def split: option.splits)

lemma mm_only_put_page: "put_page p a s = (r, t) \<Longrightarrow> mm_only s t"
  by (auto simp: put_page_def Let_def dest: mm_only_get_free_page split: if_splits prod.splits)

lemma mm_only_un_wp_page: "wpK (un_wp_page te s) (\<lambda>_. mm_only s)"
  by (auto simp: un_wp_page_def Let_def oom_def dest!: mm_only_get_free_page split: prod.splits)

lemma mm_only_verify_loop: "wpK (verify_loop sz a s) (\<lambda>_. mm_only s)"
proof (induction sz a s rule: verify_loop.induct)
  case (1 sz a s)
  have "wpK (write_verify a s) (\<lambda>_. mm_only s)" by (simp add: write_verify_def mm_only_un_wp_page)
  then have "wpK (write_verify a s) (\<lambda>_ t. wpK (verify_loop (sz - 4096) (a + 4096) t) (\<lambda>_. mm_only s))" if "sz > 0"
    by (rule wpK_mono) (rule wpK_mono [OF 1 [OF that]], erule mm_only_trans)
  then show ?case by (simp add: verify_loop.simps [of sz])
qed

lemma mm_only_verify_area: "verify_area addr sz s = Ok x t \<Longrightarrow> mm_only s t"
  using mm_only_verify_loop unfolding verify_area_def by (blast dest: wpK_D)

subsection \<open>Process numbers\<close>

lemma find_upt_Some:
  assumes "find P [a..<b] = Some i"
  shows "a \<le> i \<and> i < b \<and> P i \<and> (\<forall>j. a \<le> j \<and> j < i \<longrightarrow> \<not> P j)"
proof -
  from assms obtain k where k: "k < b - a" "i = a + k" "P (a + k)" "\<forall>m < k. \<not> P (a + m)"
    by (auto simp: find_Some_iff)
  then have "\<not> P j" if "a \<le> j" "j < i" for j
    using that spec [OF k(4), of "j - a"] by simp
  with k show ?thesis by auto
qed

definition pids :: "'z sched_st_scheme \<Rightarrow> int set" where
  "pids s = {t_pid t | i t. i < NR_TASKS \<and> task s i = Some t}"

lemma pid_used_iff: "pid_used p s \<longleftrightarrow> p \<in> pids s"
  by (fastforce simp: pid_used_def pids_def list_ex_iff split: option.splits)

lemma finite_pids: "finite (pids s)" and card_pids: "card (pids s) \<le> NR_TASKS"
proof -
  have "pids s \<subseteq> (\<lambda>i. t_pid (the (task s i))) ` {..<NR_TASKS}"
    by (auto simp: pids_def image_iff) (metis lessThan_iff option.sel)
  then show "finite (pids s)" "card (pids s) \<le> NR_TASKS"
    using surj_card_le [of "{..<NR_TASKS}" "pids s"] by (auto intro: finite_subset)
qed

lemma pids_last_pid [simp]: "pids (s\<lparr>last_pid := p\<rparr>) = pids s"
  by (simp add: pids_def)

lemma next_pid_mod: "0 \<le> p \<Longrightarrow> p \<le> 2147483647 \<Longrightarrow> next_pid p = p mod 2147483647 + 1"
  by (cases "p = 2147483647") (auto simp: next_pid_def)

lemma next_pid_range: "0 \<le> p \<Longrightarrow> p \<le> 2147483647 \<Longrightarrow> 1 \<le> next_pid p \<and> next_pid p \<le> 2147483647"
  by (auto simp: next_pid_def)

lemma next_pid_funpow:
  assumes "0 \<le> p" "p \<le> 2147483647"
  shows "(next_pid ^^ Suc k) p = (p + int k) mod 2147483647 + 1"
proof (induction k)
  case (Suc k)
  have "next_pid ((p + int k) mod 2147483647 + 1) = ((p + int k) mod 2147483647 + 1) mod 2147483647 + 1"
    using pos_mod_bound [of 2147483647 "p + int k"]
    by (intro next_pid_mod) (auto intro: add_nonneg_nonneg)
  with Suc show ?case by (simp add: mod_add_right_eq ac_simps)
qed (use assms in \<open>simp add: next_pid_mod\<close>)

lemma next_pid_inj:
  assumes "0 \<le> p" "p \<le> 2147483647"
  shows "inj_on (\<lambda>k. (next_pid ^^ Suc k) p) {..NR_TASKS}"
proof (rule inj_onI)
  fix i j :: nat
  assume b: "i \<in> {..NR_TASKS}" "j \<in> {..NR_TASKS}"
    and "(next_pid ^^ Suc i) p = (next_pid ^^ Suc j) p"
  then have "(p + int i) mod 2147483647 = (p + int j) mod 2147483647"
    by (simp only: next_pid_funpow [OF assms])
  then have "(2147483647 :: int) dvd int i - int j"
    by (simp add: mod_eq_dvd_iff)
  with b zdvd_imp_le [of 2147483647 "\<bar>int i - int j\<bar>"] show "i = j"
    by (cases "i = j") auto
qed

text \<open>More process numbers are tried than there are tasks, so one of them is free.\<close>

lemma free_pid:
  assumes "0 \<le> p" "p \<le> 2147483647"
  shows "\<exists>k \<le> NR_TASKS. (next_pid ^^ Suc k) p \<notin> pids s"
proof (rule ccontr)
  assume "\<not> ?thesis"
  then have "(\<lambda>k. (next_pid ^^ Suc k) p) ` {..NR_TASKS} \<subseteq> pids s" by auto
  then have "card ((\<lambda>k. (next_pid ^^ Suc k) p) ` {..NR_TASKS}) \<le> NR_TASKS"
    using card_mono [OF finite_pids] card_pids order_trans by blast
  then show False by (simp only: card_image [OF next_pid_inj [OF assms]]) simp
qed

lemma new_pid_ok:
  assumes "0 \<le> last_pid s" "last_pid s \<le> 2147483647"
  shows "okK (new_pid s) (\<lambda>_ t. \<exists>p. t = s\<lparr>last_pid := p\<rparr> \<and> 0 < p \<and> p \<le> 2147483647 \<and> p \<notin> pids s)"
  unfolding new_pid_def
proof (rule okK_iterK [where f = "\<lambda>_ t. LEAST k. (next_pid ^^ Suc k) (last_pid t) \<notin> pids t"
      and I = "\<lambda>_ t. \<exists>p. t = s\<lparr>last_pid := p\<rparr> \<and> 0 \<le> p \<and> p \<le> 2147483647"])
  fix a :: unit and t
  assume "\<exists>p. t = s\<lparr>last_pid := p\<rparr> \<and> 0 \<le> p \<and> p \<le> 2147483647"
  then obtain p where t: "t = s\<lparr>last_pid := p\<rparr>" and p: "0 \<le> p" "p \<le> 2147483647" by blast
  let ?f = "\<lambda>p. LEAST k. (next_pid ^^ Suc k) p \<notin> pids s"
  from free_pid [OF p] obtain k where k: "(next_pid ^^ Suc k) p \<notin> pids s" by blast
  have "?f (next_pid p) < ?f p" if u: "next_pid p \<in> pids s"
  proof -
    have "?f p = Suc (LEAST m. (next_pid ^^ Suc (Suc m)) p \<notin> pids s)"
      using Least_Suc [where P = "\<lambda>k. (next_pid ^^ Suc k) p \<notin> pids s" and n = k] k u by simp
    then show ?thesis by (simp add: funpow_swap1)
  qed
  then show "okK (let s = t\<lparr>last_pid := next_pid (last_pid t)\<rparr>
      in if pid_used (last_pid s) s then Ok (Inl ()) s else Ok (Inr ()) s)
      (\<lambda>r u. case r of Inl a' \<Rightarrow> (\<exists>p. u = s\<lparr>last_pid := p\<rparr> \<and> 0 \<le> p \<and> p \<le> 2147483647)
          \<and> (LEAST k. (next_pid ^^ Suc k) (last_pid u) \<notin> pids u) < (LEAST k. (next_pid ^^ Suc k) (last_pid t) \<notin> pids t)
        | Inr b \<Rightarrow> \<exists>p. u = s\<lparr>last_pid := p\<rparr> \<and> 0 < p \<and> p \<le> 2147483647 \<and> p \<notin> pids s)"
    using next_pid_range [OF p] by (auto simp: t Let_def pid_used_iff)
qed (use assms in \<open>auto intro!: exI [of _ "last_pid s"]\<close>)

text \<open>
  C27. \<^verbatim>\<open>find_empty_process\<close> always returns, also when \<^verbatim>\<open>last_pid\<close> wraps around. It leaves in
  \<^verbatim>\<open>last_pid\<close> a positive number no task uses, and changes nothing else. Its result is the
  first free slot after slot 0, or \<^verbatim>\<open>-EAGAIN\<close> exactly when slots 1 to 63 are all taken.
\<close>

theorem find_empty_process_fresh:
  assumes "0 \<le> last_pid s" "last_pid s \<le> 2147483647"
  shows "\<exists>p r. find_empty_process s = Ok r (s\<lparr>last_pid := p\<rparr>) \<and> 0 < p \<and> p \<le> 2147483647
    \<and> (\<forall>i < NR_TASKS. \<forall>t. task s i = Some t \<longrightarrow> t_pid t \<noteq> p)
    \<and> (if \<forall>i < NR_TASKS. 0 < i \<longrightarrow> task s i \<noteq> None then r = - EAGAIN
       else \<exists>i. r = int i \<and> 0 < i \<and> i < NR_TASKS \<and> task s i = None
              \<and> (\<forall>j. 0 < j \<and> j < i \<longrightarrow> task s j \<noteq> None))"
proof -
  from new_pid_ok [OF assms] obtain p where p: "new_pid s = Ok () (s\<lparr>last_pid := p\<rparr>)"
    "0 < p" "p \<le> 2147483647" "p \<notin> pids s"
    by (auto simp: okK_iff)
  then have f: "\<forall>i < NR_TASKS. \<forall>t. task s i = Some t \<longrightarrow> t_pid t \<noteq> p"
    by (auto simp: pids_def)
  show ?thesis
  proof (cases "find (\<lambda>i. task s i = None) [1..<NR_TASKS]")
    case None
    then have "\<forall>i < NR_TASKS. 0 < i \<longrightarrow> task s i \<noteq> None"
      unfolding find_None_iff by auto
    with p f None show ?thesis
      by (intro exI [of _ p] exI [of _ "- EAGAIN"]) (simp add: find_empty_process_def)
  next
    case (Some i)
    then have "0 < i" "i < NR_TASKS" "task s i = None" "\<forall>j. 0 < j \<and> j < i \<longrightarrow> task s j \<noteq> None"
      using find_upt_Some [of "\<lambda>i. task s i = None" 1 NR_TASKS i] by auto
    with p f Some show ?thesis
      by (intro exI [of _ p] exI [of _ "int i"]) (auto simp: find_empty_process_def)
  qed
qed

text \<open>With \<^verbatim>\<open>last_pid\<close> at its largest value and only the idle task present, the number found is small again.\<close>

theorem find_empty_process_witness:
  "\<exists>p r. find_empty_process (mm_empty\<lparr>last_pid := 2147483647\<rparr>) = Ok r (mm_empty\<lparr>last_pid := p\<rparr>) \<and> 0 < p \<and> p \<le> 2147483647"
  using find_empty_process_fresh [of "mm_empty\<lparr>last_pid := 2147483647\<rparr>"] by auto

subsection \<open>Preparing user memory for a store\<close>

text \<open>
  \<open>writable_in s b\<close>: a store to address \<open>b\<close> hits no read-only entry. \<open>prepared P s t\<close>: how the pages
  \<open>P\<close> change when they are made writable.
\<close>

definition writable_in :: "'z mm_st_scheme \<Rightarrow> u32 \<Rightarrow> bool" where
  "writable_in s b \<longleftrightarrow> (case walk s b of None \<Rightarrow> True | Some e \<Rightarrow> bit e 1)"

definition prepared :: "u32 set \<Rightarrow> 'z mm_st_scheme \<Rightarrow> 'z mm_st_scheme \<Rightarrow> bool" where
  "prepared P s t \<longleftrightarrow> (\<forall>b. (frame b \<in> P \<longrightarrow> writable_in t b) \<and> (frame b \<notin> P \<longrightarrow> walk t b = walk s b)
     \<and> (walk t b = None \<longleftrightarrow> walk s b = None))"

fun verified :: "(nat \<Rightarrow> nat) \<Rightarrow> u32 set \<Rightarrow> 'z mm_st_scheme \<Rightarrow> (unit, 'z mm_st_scheme) outcome \<Rightarrow> bool" where
  "verified h P s (Ok _ t) = (mm_inv h t \<and> prepared P s t)"
| "verified h P s (Exit c t) = (c = SIGSEGV \<and> mm_inv h t \<and> (\<forall>k<PAGING_PAGES. mem_map t k \<noteq> 0))"
| "verified h P s _ = False"

lemma bit_not_ro: "3 AND e \<noteq> 1 \<Longrightarrow> bit e 0 \<Longrightarrow> bit (e :: u32) 1"
proof (rule ccontr)
  assume n: "3 AND e \<noteq> 1" and b: "bit e 0" "\<not> bit e 1"
  have "3 AND e = 1" by (rule u32_eq_bits) (use b in \<open>simp add: bit_simps\<close>)
  with n show False by simp
qed

lemma same_page_walk: "frame b = frame a \<Longrightarrow> walk s b = walk s a"
  unfolding walk_def by (simp flip: same_page_iff)

lemma prepared_page:
  assumes "\<And>b. walk t b = (if frame b = frame a then v else walk s b)"
    and "v = None \<longleftrightarrow> walk s a = None" and "\<And>e. v = Some e \<Longrightarrow> bit e 1"
  shows "prepared {frame a} s t"
proof -
  have "walk s b = None \<longleftrightarrow> v = None" if "frame b = frame a" for b
    using same_page_walk [OF that, of s] assms(2) by simp
  then show ?thesis using assms(1,3) by (auto simp: prepared_def writable_in_def split: option.splits)
qed

lemma prepared_refl: "(\<And>e. walk s a = Some e \<Longrightarrow> bit e 1) \<Longrightarrow> prepared {frame a} s s"
  by (rule prepared_page [of s a "walk s a"]) (auto dest: same_page_walk)

lemma write_verify_spec:
  assumes "mm_inv h s" and "4 \<le> dir_nr a"
  shows "verified h {frame a} s (write_verify a s)"
proof (cases "walk s a")
  case None
  have w: "write_verify a s = Ok () s"
  proof (cases "present (phys s (dir_addr a))")
    case True
    then have "\<not> present (phys s (pte_addr a s))"
      using None dir_nr_less [of a] tbl_nr_less [of a]
      by (auto simp: walk_def pde_def dir_addr_slot pte_addr_slot if_present_def split: if_splits)
    then have "\<not> bit (phys s (pte_addr a s)) 0" by (simp add: present_bit)
    then have "3 AND phys s (pte_addr a s) \<noteq> 1" by (metis bit_and_iff bit_1_0)
    then show ?thesis by (simp add: write_verify_def)
  qed (simp add: write_verify_def)
  then show ?thesis using assms(1) prepared_refl [of s a] None by simp
next
  case (Some e)
  obtain pe where pe: "entry s (dir_nr a, None) = Some pe" "pte_addr a s = slot (frame pe) (tbl_nr a)"
    by (rule walk_Some [OF Some])
  have d: "present (phys s (dir_addr a))" "phys s (pte_addr a s) = e" "bit e 0"
    using pe(1) Some unfolding pe(2) entry_None_iff walk_def pde_def dir_addr_slot
    by (auto simp: pde_def if_present_def present_bit split: if_splits)
  show ?thesis
  proof (cases "3 AND e = 1")
    case True
    then have w: "write_verify a s = un_wp_page (slot (frame pe) (tbl_nr a)) s" using d pe by (simp add: write_verify_def)
    have "prepared {frame a} s t"
      if "entry t = (entry s)((dir_nr a, Some (tbl_nr a)) := Some e')" "bit e' 1" for t e'
    proof -
      have "walk t = (\<lambda>b. if frame b = frame a then Some e' else walk s b)"
        by (rule walk_upd) (simp add: that del: entry.simps)
      then show ?thesis using that(2) Some by (intro prepared_page [of t a "Some e'"]) simp_all
    qed
    then show ?thesis
      using un_wp_page_spec [OF assms(1) pe(1) Some [unfolded walk_def] assms(2)] unfolding w unshared_def
      by (elim disjE exE conjE) (simp_all add: assms del: entry.simps)
  next
    case False
    then have "bit e 1" using bit_not_ro d by blast
    then show ?thesis using False d assms(1) prepared_refl [of s a] Some by (simp add: write_verify_def)
  qed
qed

lemma prepared_trans: "prepared P s t \<Longrightarrow> prepared Q t u \<Longrightarrow> prepared (P \<union> Q) s u"
  by (simp add: prepared_def writable_in_def) metis

lemma verified_bind:
  assumes "verified h P s m" and "\<And>t. mm_inv h t \<Longrightarrow> verified h Q t (f () t)"
  shows "verified h (P \<union> Q) s (bindK m f)"
proof (cases m)
  case (Ok x t)
  with assms have t: "prepared P s t" "verified h Q t (f () t)" by auto
  then show ?thesis using Ok prepared_trans by (cases "f () t") auto
qed (use assms in auto)

definition npages :: "int \<Rightarrow> nat" where
  "npages sz = nat ((sz + 4095) div 4096)"

definition pages_from :: "u32 \<Rightarrow> int \<Rightarrow> u32 set" where
  "pages_from start sz = {frame (start + 4096 * word_of_nat k) | k. k < npages sz}"

lemma npages_step: "sz > 0 \<Longrightarrow> npages sz = Suc (npages (sz - 4096))"
  by (simp add: npages_def)

lemma pages_from_step:
  assumes "sz > 0"
  shows "pages_from start sz = {frame start} \<union> pages_from (start + 4096) (sz - 4096)"
proof -
  have "{k. k < npages sz} = insert 0 (Suc ` {k. k < npages (sz - 4096)})"
    unfolding npages_step [OF assms] by (auto simp: less_Suc_eq_0_disj)
  then show ?thesis
    by (simp add: pages_from_def setcompr_eq_image image_image distrib_left add.assoc)
qed

lemma verify_loop_spec:
  assumes "mm_inv h s" and "\<forall>k < npages sz. 4 \<le> dir_nr (start + 4096 * word_of_nat k)"
  shows "verified h (pages_from start sz) s (verify_loop sz start s)"
  using assms
proof (induction sz start s rule: verify_loop.induct)
  case (1 sz start s)
  show ?case
  proof (cases "sz > 0")
    case True
    have r: "\<forall>k < npages (sz - 4096). 4 \<le> dir_nr (start + 4096 + 4096 * word_of_nat k)"
    proof (intro allI impI)
      fix k assume "k < npages (sz - 4096)"
      then have "Suc k < npages sz" using npages_step [OF True] by simp
      with 1(3) have "4 \<le> dir_nr (start + 4096 * word_of_nat (Suc k))" by blast
      then show "4 \<le> dir_nr (start + 4096 + 4096 * word_of_nat k)" by (simp add: distrib_left add.assoc)
    qed
    have "4 \<le> dir_nr start" using 1(3) npages_step [OF True] spec [of _ 0] by fastforce
    then show ?thesis
      using verified_bind [OF write_verify_spec [OF 1(2)] 1(1) [OF True _ r]] True
      by (simp add: verify_loop.simps [of sz] pages_from_step)
  next
    case False
    then show ?thesis using 1(2)
      by (simp add: verify_loop.simps [of sz] prepared_def pages_from_def npages_def)
  qed
qed


lemma mm_task_only: "mm_only mm_empty mm_task"
proof -
  obtain r t where t: "put_page (page_of 3839) 0x4000000 mm_page = (r, t)" by fastforce
  then show ?thesis
    using mm_only_trans [OF mm_only_get_free_page [OF mm_page_eq] mm_only_put_page [OF t]] by (simp add: mm_task_def)
qed

lemma mm_task_cur: "cur mm_task = INIT_TASK 0"
  using mm_only_fields(6) [OF mm_task_only] by (simp add: cur_def mm_empty_def sched_boot_def sched_st.defs)


end
