(* ===== verification/Sys_Calls.thy ===== *)
theory Sys_Calls
  imports Process
begin

unbundle bit_operations_syntax

section \<open>Small system calls and signals\<close>

text \<open>
  \<^verbatim>\<open>kernel/sys.c\<close> and \<^verbatim>\<open>kernel/signal.c\<close>. Every system call takes its C arguments and the state and
  answers the C result; an error is a negative number, as in the source. Pointers into user space
  are addresses and \<open>0\<close> is \<^verbatim>\<open>NULL\<close>.
\<close>

subsection \<open>Model of sys.c\<close>

definition sys_ftime :: "'z sched_st_scheme \<Rightarrow> (int, 'z sched_st_scheme) outcome" where
  "sys_ftime s = Ok (- ENOSYS) s"

definition sys_break :: "'z sched_st_scheme \<Rightarrow> (int, 'z sched_st_scheme) outcome" where
  "sys_break s = Ok (- ENOSYS) s"

definition sys_ptrace :: "'z sched_st_scheme \<Rightarrow> (int, 'z sched_st_scheme) outcome" where
  "sys_ptrace s = Ok (- ENOSYS) s"

definition sys_stty :: "'z sched_st_scheme \<Rightarrow> (int, 'z sched_st_scheme) outcome" where
  "sys_stty s = Ok (- ENOSYS) s"

definition sys_gtty :: "'z sched_st_scheme \<Rightarrow> (int, 'z sched_st_scheme) outcome" where
  "sys_gtty s = Ok (- ENOSYS) s"

definition sys_rename :: "'z sched_st_scheme \<Rightarrow> (int, 'z sched_st_scheme) outcome" where
  "sys_rename s = Ok (- ENOSYS) s"

definition sys_prof :: "'z sched_st_scheme \<Rightarrow> (int, 'z sched_st_scheme) outcome" where
  "sys_prof s = Ok (- ENOSYS) s"

definition sys_setregid :: "int \<Rightarrow> int \<Rightarrow> 'z sched_st_scheme \<Rightarrow> (int, 'z sched_st_scheme) outcome" where
  "sys_setregid rgid egid s =
     bindK (if rgid > 0
            then if uint (t_gid (cur s)) = rgid \<or> suser s
                 then Ok True (upd_cur (t_gid_update (\<lambda>_. word_of_int rgid)) s)
                 else Ok False s
            else Ok True s) (\<lambda>go s.
     if \<not> go then Ok (- EPERM) s
     else if egid > 0
     then if uint (t_gid (cur s)) = egid \<or> uint (t_egid (cur s)) = egid \<or> uint (t_sgid (cur s)) = egid \<or> suser s
          then Ok 0 (upd_cur (t_egid_update (\<lambda>_. word_of_int egid)) s)
          else Ok (- EPERM) s
     else Ok 0 s)"

definition sys_setgid :: "int \<Rightarrow> 'z sched_st_scheme \<Rightarrow> (int, 'z sched_st_scheme) outcome" where
  "sys_setgid gid s = sys_setregid gid gid s"

definition sys_acct :: "'z sched_st_scheme \<Rightarrow> (int, 'z sched_st_scheme) outcome" where
  "sys_acct s = Ok (- ENOSYS) s"

definition sys_phys :: "'z sched_st_scheme \<Rightarrow> (int, 'z sched_st_scheme) outcome" where
  "sys_phys s = Ok (- ENOSYS) s"

definition sys_lock :: "'z sched_st_scheme \<Rightarrow> (int, 'z sched_st_scheme) outcome" where
  "sys_lock s = Ok (- ENOSYS) s"

definition sys_mpx :: "'z sched_st_scheme \<Rightarrow> (int, 'z sched_st_scheme) outcome" where
  "sys_mpx s = Ok (- ENOSYS) s"

definition sys_ulimit :: "'z sched_st_scheme \<Rightarrow> (int, 'z sched_st_scheme) outcome" where
  "sys_ulimit s = Ok (- ENOSYS) s"

definition sys_time :: "u32 \<Rightarrow> 'z mm_st_scheme \<Rightarrow> (int, 'z mm_st_scheme) outcome" where
  "sys_time tloc s =
     (let i = CURRENT_TIME s
      in if tloc \<noteq> 0 then bindK (verify_area tloc 4 s) (\<lambda>_ s. Ok i (put_fs_long (word_of_int i) tloc s))
         else Ok i s)"

definition sys_setreuid :: "int \<Rightarrow> int \<Rightarrow> 'z sched_st_scheme \<Rightarrow> (int, 'z sched_st_scheme) outcome" where
  "sys_setreuid ruid euid s =
     (let old_ruid = t_uid (cur s)
      in bindK (if ruid > 0
                then if uint (t_euid (cur s)) = ruid \<or> uint old_ruid = ruid \<or> suser s
                     then Ok True (upd_cur (t_uid_update (\<lambda>_. word_of_int ruid)) s)
                     else Ok False s
                else Ok True s) (\<lambda>go s.
         if \<not> go then Ok (- EPERM) s
         else if euid > 0
         then if uint old_ruid = euid \<or> uint (t_euid (cur s)) = euid \<or> suser s
              then Ok 0 (upd_cur (t_euid_update (\<lambda>_. word_of_int euid)) s)
              else Ok (- EPERM) (upd_cur (t_uid_update (\<lambda>_. old_ruid)) s)
         else Ok 0 s))"

definition sys_setuid :: "int \<Rightarrow> 'z sched_st_scheme \<Rightarrow> (int, 'z sched_st_scheme) outcome" where
  "sys_setuid uid s = sys_setreuid uid uid s"

definition sys_stime :: "u32 \<Rightarrow> 'z sched_st_scheme \<Rightarrow> (int, 'z sched_st_scheme) outcome" where
  "sys_stime tptr s =
     (if \<not> suser s then Ok (- EPERM) s
      else Ok 0 (s\<lparr>startup_time := sint (get_fs_long tptr s - word_of_int (cdiv (jiffies s) HZ))\<rparr>))"

definition sys_times :: "u32 \<Rightarrow> 'z mm_st_scheme \<Rightarrow> (int, 'z mm_st_scheme) outcome" where
  "sys_times tbuf s =
     (if tbuf \<noteq> 0
      then bindK (verify_area tbuf 16 s) (\<lambda>_ s.
        let s = put_fs_long (word_of_int (t_utime (cur s))) tbuf s;
            s = put_fs_long (word_of_int (t_stime (cur s))) (tbuf + 4) s;
            s = put_fs_long (word_of_int (t_cutime (cur s))) (tbuf + 8) s;
            s = put_fs_long (word_of_int (t_cstime (cur s))) (tbuf + 12) s
        in Ok (jiffies s) s)
      else Ok (jiffies s) s)"

definition sys_brk :: "u32 \<Rightarrow> 'z sched_st_scheme \<Rightarrow> (int, 'z sched_st_scheme) outcome" where
  "sys_brk end_data_seg s =
     (let s = (if end_data_seg \<ge> t_end_code (cur s) \<and> end_data_seg < t_start_stack (cur s) - 16384
               then upd_cur (t_brk_update (\<lambda>_. end_data_seg)) s else s)
      in Ok (sint (t_brk (cur s))) s)"

definition sys_setpgid :: "int \<Rightarrow> int \<Rightarrow> 'z sched_st_scheme \<Rightarrow> (int, 'z sched_st_scheme) outcome" where
  "sys_setpgid pid pgid s =
     (let pid = (if pid = 0 then t_pid (cur s) else pid);
          pgid = (if pgid = 0 then t_pid (cur s) else pgid)
      in case find (\<lambda>i. \<exists>t \<in> set_option (task s i). t_pid t = pid) [0..<NR_TASKS] of
           None \<Rightarrow> Ok (- ESRCH) s
         | Some i \<Rightarrow>
             if t_leader (the (task s i)) \<noteq> 0 then Ok (- EPERM) s
             else if t_session (the (task s i)) \<noteq> t_session (cur s) then Ok (- EPERM) s
             else Ok 0 (upd_task i (t_pgrp_update (\<lambda>_. pgid)) s))"

definition sys_getpgrp :: "'z sched_st_scheme \<Rightarrow> int" where
  "sys_getpgrp s = t_pgrp (cur s)"

definition sys_setsid :: "'z sched_st_scheme \<Rightarrow> (int, 'z sched_st_scheme) outcome" where
  "sys_setsid s =
     (if t_leader (cur s) \<noteq> 0 \<and> \<not> suser s then Ok (- EPERM) s
      else let s = upd_cur (\<lambda>t. t\<lparr>t_leader := 1, t_session := t_pid t, t_pgrp := t_pid t, t_tty := - 1\<rparr>) s
           in Ok (t_pgrp (cur s)) s)"

text \<open>\<^verbatim>\<open>thisname\<close>: five arrays of nine characters, each filled by a string of eight and its NUL.\<close>

definition thisname :: "u8 list" where
  "thisname = concat (map (\<lambda>n. map of_char n @ [0])
     [''linux .0'', ''nodename'', ''release '', ''version '', ''machine ''])"

definition put_fs_bytes :: "u8 list \<Rightarrow> u32 \<Rightarrow> 'z sched_st_scheme \<Rightarrow> 'z sched_st_scheme" where
  "put_fs_bytes bs a s = fold (\<lambda>i. put_fs_byte (bs ! i) (a + word_of_nat i)) [0..<length bs] s"

definition sys_uname :: "u32 \<Rightarrow> 'z mm_st_scheme \<Rightarrow> (int, 'z mm_st_scheme) outcome" where
  "sys_uname name s =
     (if name = 0 then Ok (- ERROR) s
      else bindK (verify_area name 45 s) (\<lambda>_ s. Ok 0 (put_fs_bytes thisname name s)))"

definition sys_umask :: "int \<Rightarrow> 'z sched_st_scheme \<Rightarrow> (int, 'z sched_st_scheme) outcome" where
  "sys_umask m s =
     Ok (uint (t_umask (cur s))) (upd_cur (t_umask_update (\<lambda>_. word_of_int m AND 511)) s)"

subsection \<open>Model of signal.c\<close>

abbreviation (input) SA_NOMASK :: u32 where "SA_NOMASK \<equiv> 0x40000000"
abbreviation (input) SA_ONESHOT :: u32 where "SA_ONESHOT \<equiv> 0x80000000"

definition sys_sgetmask :: "'z sched_st_scheme \<Rightarrow> int" where
  "sys_sgetmask s = sint (t_blocked (cur s))"

definition sys_ssetmask :: "int \<Rightarrow> 'z sched_st_scheme \<Rightarrow> (int, 'z sched_st_scheme) outcome" where
  "sys_ssetmask newmask s =
     Ok (sint (t_blocked (cur s))) (upd_cur (t_blocked_update (\<lambda>_. word_of_int newmask AND NOT (sig_bit SIGKILL))) s)"

text \<open>
  The bytes of a \<^verbatim>\<open>struct sigaction\<close>: four little endian longs in the order of \<^verbatim>\<open>signal.h\<close>.
\<close>

definition long_bytes :: "u32 \<Rightarrow> u8 list" where
  "long_bytes v = [ucast v, ucast (drop_bit 8 v), ucast (drop_bit 16 v), ucast (drop_bit 24 v)]"

definition sa_bytes :: "sigaction \<Rightarrow> u8 list" where
  "sa_bytes sa = long_bytes (sa_handler sa) @ long_bytes (sa_mask sa) @ long_bytes (sa_flags sa) @ long_bytes (sa_restorer sa)"

definition save_old :: "sigaction \<Rightarrow> u32 \<Rightarrow> 'z mm_st_scheme \<Rightarrow> (unit, 'z mm_st_scheme) outcome" where
  "save_old from to s = bindK (verify_area to 16 s) (\<lambda>_ s. Ok () (put_fs_bytes (sa_bytes from) to s))"

definition get_new :: "u32 \<Rightarrow> 'z sched_st_scheme \<Rightarrow> sigaction" where
  "get_new from s = \<lparr>sa_handler = get_fs_long from s, sa_mask = get_fs_long (from + 4) s,
     sa_flags = get_fs_long (from + 8) s, sa_restorer = get_fs_long (from + 12) s\<rparr>"

definition set_sigaction :: "nat \<Rightarrow> sigaction \<Rightarrow> 'z sched_st_scheme \<Rightarrow> 'z sched_st_scheme" where
  "set_sigaction i sa s = upd_cur (\<lambda>t. t\<lparr>t_sigaction := (t_sigaction t)(i := sa)\<rparr>) s"

definition sys_signal :: "int \<Rightarrow> u32 \<Rightarrow> u32 \<Rightarrow> 'z sched_st_scheme \<Rightarrow> (int, 'z sched_st_scheme) outcome" where
  "sys_signal signum handler restorer s =
     (if signum < 1 \<or> signum > 32 \<or> signum = int SIGKILL then Ok (- 1) s
      else let i = nat signum - 1;
               tmp = \<lparr>sa_handler = handler, sa_mask = 0, sa_flags = SA_ONESHOT OR SA_NOMASK, sa_restorer = restorer\<rparr>
           in Ok (sint (sa_handler (t_sigaction (cur s) i))) (set_sigaction i tmp s))"

text \<open>The action that \<^verbatim>\<open>sigaction\<close> keeps for an action asked for: its mask is cleared or covers the signal.\<close>

definition sa_installed :: "nat \<Rightarrow> sigaction \<Rightarrow> sigaction" where
  "sa_installed i sa = (if sa_flags sa AND SA_NOMASK \<noteq> 0 then sa\<lparr>sa_mask := 0\<rparr> else sa\<lparr>sa_mask := sa_mask sa OR push_bit i 1\<rparr>)"

definition sys_sigaction :: "int \<Rightarrow> u32 \<Rightarrow> u32 \<Rightarrow> 'z mm_st_scheme \<Rightarrow> (int, 'z mm_st_scheme) outcome" where
  "sys_sigaction signum action oldaction s =
     (if signum < 1 \<or> signum > 32 \<or> signum = int SIGKILL then Ok (- 1) s
      else let i = nat signum - 1;
               tmp = t_sigaction (cur s) i;
               s = set_sigaction i (get_new action s) s
           in bindK (if oldaction \<noteq> 0 then save_old tmp oldaction s else Ok () s) (\<lambda>_ s.
                Ok 0 (set_sigaction i (sa_installed i (t_sigaction (cur s) i)) s)))"

text \<open>
  \<^verbatim>\<open>do_signal\<close> is called with the registers of the interrupted program on the kernel stack and
  changes \<^verbatim>\<open>eip\<close> and \<^verbatim>\<open>esp\<close> there, so the model returns the frame. The call of \<^verbatim>\<open>do_exit\<close>,
  which does not return, is the outcome \<open>Exit\<close>.
\<close>

record regs =
  r_eax :: u32
  r_ebx :: u32
  r_ecx :: u32
  r_edx :: u32
  r_eip :: u32
  r_eflags :: u32
  r_esp :: u32

definition put_fs_longs :: "u32 list \<Rightarrow> u32 \<Rightarrow> 'z sched_st_scheme \<Rightarrow> 'z sched_st_scheme" where
  "put_fs_longs vs a s = fold (\<lambda>i. put_fs_long (vs ! i) (a + 4 * word_of_nat i)) [0..<length vs] s"

text \<open>The words \<^verbatim>\<open>do_signal\<close> leaves on the user stack, lowest address first.\<close>

definition sig_frame :: "sigaction \<Rightarrow> nat \<Rightarrow> u32 \<Rightarrow> regs \<Rightarrow> u32 list" where
  "sig_frame sa signr blocked r =
     [sa_restorer sa, word_of_nat signr] @ (if sa_flags sa AND SA_NOMASK \<noteq> 0 then [] else [blocked])
       @ [r_eax r, r_ecx r, r_edx r, r_eflags r, r_eip r]"

definition do_signal :: "nat \<Rightarrow> regs \<Rightarrow> 'z mm_st_scheme \<Rightarrow> (regs, 'z mm_st_scheme) outcome" where
  "do_signal signr r s =
     (let sa = t_sigaction (cur s) (signr - 1);
          handler = sa_handler sa
      in if handler = 1 then Ok r s
         else if handler = 0 then (if signr = SIGCHLD then Ok r s else Exit (sint (sig_bit signr)) s)
         else let s = (if sa_flags sa AND SA_ONESHOT \<noteq> 0 then set_sigaction (signr - 1) (sa\<lparr>sa_handler := 0\<rparr>) s else s);
                  longs = (if sa_flags sa AND SA_NOMASK \<noteq> 0 then 7 else 8);
                  esp = r_esp r - 4 * word_of_nat longs
              in bindK (verify_area esp (int longs * 4) s) (\<lambda>_ s.
                   let s = put_fs_longs (sig_frame sa signr (t_blocked (cur s)) r) esp s;
                       s = upd_cur (\<lambda>t. t\<lparr>t_blocked := t_blocked t OR sa_mask sa\<rparr>) s
                   in Ok (r\<lparr>r_eip := handler, r_esp := esp\<rparr>) s))"

subsection \<open>Identity\<close>

text \<open>A program can only change who it is by these four calls.\<close>

datatype id_call = Setuid int | Setreuid int int | Setgid int | Setregid int int

fun id_step :: "id_call \<Rightarrow> 'z sched_st_scheme \<Rightarrow> (int, 'z sched_st_scheme) outcome" where
  "id_step (Setuid u) s = sys_setuid u s"
| "id_step (Setreuid r e) s = sys_setreuid r e s"
| "id_step (Setgid g) s = sys_setgid g s"
| "id_step (Setregid r e) s = sys_setregid r e s"

definition id_run :: "id_call list \<Rightarrow> 'z sched_st_scheme \<Rightarrow> (unit, 'z sched_st_scheme) outcome" where
  "id_run cs s = forK cs (\<lambda>c s. bindK (id_step c s) (\<lambda>_ s. Ok () s)) s"

definition ids_in :: "u16 set \<Rightarrow> u16 set \<Rightarrow> task_struct \<Rightarrow> bool" where
  "ids_in U G t \<longleftrightarrow> t_euid t \<noteq> 0 \<and> t_uid t \<in> U \<and> t_euid t \<in> U \<and> t_gid t \<in> G \<and> t_egid t \<in> G \<and> t_sgid t \<in> G"

lemma setreuid_ids:
  assumes "cur_ok s" and "ids_in U G (cur s)"
  shows "okK (sys_setreuid r e s) (\<lambda>_ s'. cur_ok s' \<and> ids_in U G (cur s'))"
  using assms by (auto simp: sys_setreuid_def ids_in_def suser_def Let_def)

lemma setregid_ids:
  assumes "cur_ok s" and "ids_in U G (cur s)"
  shows "okK (sys_setregid r e s) (\<lambda>_ s'. cur_ok s' \<and> ids_in U G (cur s'))"
  using assms by (auto simp: sys_setregid_def ids_in_def suser_def dest!: word_uint_eqI)

lemma id_step_ids:
  assumes "cur_ok s" and "ids_in U G (cur s)"
  shows "okK (id_step c s) (\<lambda>_ s'. cur_ok s' \<and> ids_in U G (cur s'))"
  by (cases c) (simp_all add: sys_setuid_def sys_setgid_def setreuid_ids setregid_ids assms)

text \<open>
  C19. A process that is not the superuser cannot become one by any sequence of \<^verbatim>\<open>setuid\<close>,
  \<^verbatim>\<open>setreuid\<close>, \<^verbatim>\<open>setgid\<close> and \<^verbatim>\<open>setregid\<close> calls: all of them return, its user ids stay among the real
  and effective user id it began with, and its group ids among the real, effective and saved group id.
\<close>

theorem ids_never_escalate:
  assumes "cur_ok s" and "\<not> suser s"
  shows "okK (id_run cs s) (\<lambda>_ s'. cur_ok s' \<and> \<not> suser s' \<and>
    ids_in {t_uid (cur s), t_euid (cur s)} {t_gid (cur s), t_egid (cur s), t_sgid (cur s)} (cur s'))"
proof -
  let ?I = "ids_in {t_uid (cur s), t_euid (cur s)} {t_gid (cur s), t_egid (cur s), t_sgid (cur s)}"
  have "?I (cur s)" using assms(2) by (simp add: ids_in_def suser_def)
  with assms(1) have "okK (id_run cs s) (\<lambda>_ s'. cur_ok s' \<and> ?I (cur s'))"
    unfolding id_run_def by (intro okK_forK) (simp_all add: id_step_ids)
  then show ?thesis by (rule okK_mono) (simp add: ids_in_def suser_def)
qed

definition user_task :: sched_st where
  "user_task = upd_cur (\<lambda>t. t\<lparr>t_uid := 7, t_euid := 5, t_suid := 5\<rparr>) (sched_boot 0)"

theorem ids_never_escalate_witness:
  "cur_ok user_task \<and> \<not> suser user_task \<and>
   okK (id_run [Setreuid 5 7, Setuid 0, Setregid 3 0, Setuid 65536] user_task) (\<lambda>_ s'. \<not> suser s')"
proof -
  have u: "cur_ok user_task" "\<not> suser user_task"
    by (simp_all add: user_task_def cur_ok_def suser_def upd_cur_def cur_def sched_boot_def)
  then show ?thesis using okK_mono [OF ids_never_escalate [OF u]] by auto
qed

subsection \<open>Structures in user memory\<close>

lemma offset_neq: "i \<noteq> j \<Longrightarrow> i < 2 ^ 32 \<Longrightarrow> j < 2 ^ 32 \<Longrightarrow> (a :: u32) + word_of_nat i \<noteq> a + word_of_nat j"
  by (simp add: of_nat_inverse word_of_nat_eq_iff take_bit_nat_eq_self)

lemma put_fs_bytes_read:
  assumes "length bs \<le> 2 ^ 32" and "k < length bs"
  shows "fs_mem (put_fs_bytes bs a s) (a + word_of_nat k) = bs ! k"
proof -
  have "fs_mem (fold (\<lambda>i. put_fs_byte (bs ! i) (a + word_of_nat i)) [0..<n] s) (a + word_of_nat k) = bs ! k"
    if "k < n" "n \<le> length bs" for n
    using that
  proof (induction n)
    case (Suc n)
    then show ?case
      using offset_neq [of k n a] assms(1) by (cases "k = n") (auto simp: put_fs_byte_def)
  qed simp
  from this [OF assms(2) order_refl] show ?thesis by (simp add: put_fs_bytes_def)
qed

lemma get_new_put_sa: "get_new a (put_fs_bytes (sa_bytes sa) a s) = sa"
proof -
  have r: "fs_mem (put_fs_bytes (sa_bytes sa) a s) (a + word_of_nat k) = sa_bytes sa ! k" if "k < 16" for k
    by (rule put_fs_bytes_read) (use that in \<open>simp_all add: sa_bytes_def long_bytes_def\<close>)
  note r' = r [of 0] r [of 1] r [of 2] r [of 3] r [of 4] r [of 5] r [of 6] r [of 7]
    r [of 8] r [of 9] r [of 10] r [of 11] r [of 12] r [of 13] r [of 14] r [of 15]
  show ?thesis
    using r' by (simp add: get_new_def get_fs_long_def add.assoc sa_bytes_def long_bytes_def word_of_bytes)
qed

lemma cur_set_sigaction [simp]:
  "cur_ok s \<Longrightarrow> cur (set_sigaction i sa s) = (cur s)\<lparr>t_sigaction := (t_sigaction (cur s))(i := sa)\<rparr>"
  by (simp add: set_sigaction_def)

lemma cur_ok_set_sigaction [simp]: "cur_ok (set_sigaction i sa s) = cur_ok s"
  by (simp add: set_sigaction_def)

lemma cur_put_fs_bytes [simp]: "cur (put_fs_bytes bs a s) = cur s" "cur_ok (put_fs_bytes bs a s) = cur_ok s"
  "task (put_fs_bytes bs a s) = task s"
proof -
  have *: "task (fold (\<lambda>i. put_fs_byte (bs ! i) (a + word_of_nat i)) xs s) = task s \<and>
    current (fold (\<lambda>i. put_fs_byte (bs ! i) (a + word_of_nat i)) xs s) = current s" for xs
    by (induction xs arbitrary: s) auto
  show "cur (put_fs_bytes bs a s) = cur s" "cur_ok (put_fs_bytes bs a s) = cur_ok s"
    "task (put_fs_bytes bs a s) = task s"
    using * by (simp_all add: put_fs_bytes_def cur_def cur_ok_def)
qed

lemma get_new_fs: "fs_mem s = fs_mem t \<Longrightarrow> get_new a s = get_new a t"
  by (simp add: get_new_def get_fs_long_def)

lemma fs_mem_set_sigaction [simp]: "fs_mem (set_sigaction i sa s) = fs_mem s"
  by (simp add: set_sigaction_def)

lemma save_old_effect:
  assumes "save_old sa a s = Ok x t"
  shows "cur t = cur s \<and> cur_ok t = cur_ok s \<and> get_new a t = sa"
proof (cases "verify_area a 16 s")
  case (Ok y u)
  note f = mm_only_fields [OF mm_only_verify_area [OF Ok]]
  have "t = put_fs_bytes (sa_bytes sa) a u" using assms Ok by (simp add: save_old_def)
  then show ?thesis using f by (simp add: get_new_put_sa)
qed (use assms in \<open>auto simp: save_old_def\<close>)

lemma sys_sigaction_effect:
  assumes "cur_ok s" and "1 \<le> sig" "sig \<le> 32" "sig \<noteq> 9"
  shows "wpK (sys_sigaction sig act old s) (\<lambda>r t. r = 0 \<and> cur_ok t
    \<and> t_sigaction (cur t) = (t_sigaction (cur s))(nat sig - 1 := sa_installed (nat sig - 1) (get_new act s))
    \<and> (old \<noteq> 0 \<longrightarrow> get_new old t = t_sigaction (cur s) (nat sig - 1)))"
proof -
  let ?i = "nat sig - 1" and ?u = "set_sigaction (nat sig - 1) (get_new act s) s"
  have "wpK (if old \<noteq> 0 then save_old (t_sigaction (cur s) ?i) old ?u else Ok () ?u) (\<lambda>_ t.
      cur t = cur ?u \<and> cur_ok t \<and> (old \<noteq> 0 \<longrightarrow> get_new old t = t_sigaction (cur s) ?i))"
    using assms(1) by (auto simp: wpK_iff dest: save_old_effect simp del: cur_set_sigaction)
  then have "wpK (if old \<noteq> 0 then save_old (t_sigaction (cur s) ?i) old ?u else Ok () ?u) (\<lambda>_ t.
      let v = set_sigaction ?i (sa_installed ?i (t_sigaction (cur t) ?i)) t in
      cur_ok v \<and> t_sigaction (cur v) = (t_sigaction (cur s))(?i := sa_installed ?i (get_new act s)) \<and>
      (old \<noteq> 0 \<longrightarrow> get_new old v = t_sigaction (cur s) ?i))"
    by (rule wpK_mono) (use assms(1) in \<open>simp add: Let_def get_new_fs [OF fs_mem_set_sigaction]\<close>)
  then show ?thesis
    using assms by (cases "old = 0") (simp_all add: sys_sigaction_def Let_def)
qed

lemma sys_sigaction_null:
  "1 \<le> sig \<Longrightarrow> sig \<le> 32 \<Longrightarrow> sig \<noteq> 9 \<Longrightarrow> \<exists>t. sys_sigaction sig act 0 s = Ok 0 t"
  by (simp add: sys_sigaction_def Let_def)

text \<open>
  C38. For every signal but \<^verbatim>\<open>SIGKILL\<close>, what \<^verbatim>\<open>sigaction\<close> installs is what a later \<^verbatim>\<open>sigaction\<close>
  hands back through \<^verbatim>\<open>oldaction\<close>, byte for byte, except for the mask, which then covers the signal itself or
  is empty under \<^verbatim>\<open>SA_NOMASK\<close>. Actions of other signals are not touched.
\<close>

theorem sigaction_roundtrip:
  assumes "cur_ok s" and "1 \<le> sig" "sig \<le> 32" "sig \<noteq> 9" and "old \<noteq> 0"
  shows "\<exists>s1. sys_sigaction sig act 0 s = Ok 0 s1 \<and>
    wpK (sys_sigaction sig act' old s1) (\<lambda>r s2. r = 0 \<and>
      get_new old s2 = sa_installed (nat sig - 1) (get_new act s) \<and>
      (\<forall>i. i \<noteq> nat sig - 1 \<longrightarrow> t_sigaction (cur s2) i = t_sigaction (cur s) i))"
proof -
  obtain s1 where s1: "sys_sigaction sig act 0 s = Ok 0 s1" using sys_sigaction_null [OF assms(2-4)] by blast
  from wpK_D [OF sys_sigaction_effect [OF assms(1-4)] s1]
  have e: "cur_ok s1" "t_sigaction (cur s1) = (t_sigaction (cur s))(nat sig - 1 := sa_installed (nat sig - 1) (get_new act s))"
    by simp_all
  from sys_sigaction_effect [OF e(1) assms(2-4)]
  have "wpK (sys_sigaction sig act' old s1) (\<lambda>r s2. r = 0 \<and>
      get_new old s2 = sa_installed (nat sig - 1) (get_new act s) \<and>
      (\<forall>i. i \<noteq> nat sig - 1 \<longrightarrow> t_sigaction (cur s2) i = t_sigaction (cur s) i))"
    by (rule wpK_mono) (simp add: e(2) assms(5))
  with s1 show ?thesis by blast
qed

lemma mm_task_cur_ok: "cur_ok mm_task"
  using mm_only_fields(7) [OF mm_task_only] by (simp add: mm_empty_def cur_ok_def sched_boot_def sched_st.defs)

theorem sigaction_roundtrip_witness:
  "cur_ok mm_task \<and> (\<exists>s1. sys_sigaction 2 0x4000 0 mm_task = Ok 0 s1 \<and>
    wpK (sys_sigaction 2 0x5000 0x6000 s1) (\<lambda>r s2. r = 0 \<and> get_new 0x6000 s2 = sa_installed 1 (get_new 0x4000 mm_task)))"
proof -
  note c = mm_task_cur_ok
  from sigaction_roundtrip [OF c, of 2 "0x6000" "0x4000" "0x5000"] obtain s1 where
    s1: "sys_sigaction 2 0x4000 0 mm_task = Ok 0 s1" and
    w: "wpK (sys_sigaction 2 0x5000 0x6000 s1) (\<lambda>r s2. r = 0 \<and>
      get_new 0x6000 s2 = sa_installed (nat 2 - 1) (get_new 0x4000 mm_task) \<and>
      (\<forall>i. i \<noteq> nat 2 - 1 \<longrightarrow> t_sigaction (cur s2) i = t_sigaction (cur mm_task) i))" by auto
  from w have "wpK (sys_sigaction 2 0x5000 0x6000 s1) (\<lambda>r s2. r = 0 \<and> get_new 0x6000 s2 = sa_installed 1 (get_new 0x4000 mm_task))"
    by (rule wpK_mono) simp
  with c s1 show ?thesis by blast
qed

subsection \<open>Delivery\<close>

lemma get_put_fs_long_other:
  assumes "\<And>i j. i < 4 \<Longrightarrow> j < 4 \<Longrightarrow> b + word_of_nat i \<noteq> a + word_of_nat j"
  shows "get_fs_long b (put_fs_long v a s) = get_fs_long b s"
proof -
  have "fs_mem (put_fs_long v a s) (b + word_of_nat i) = fs_mem s (b + word_of_nat i)" if "i < 4" for i
    using assms [OF that, of 0] assms [OF that, of 1] assms [OF that, of 2] assms [OF that, of 3]
    by (simp add: put_fs_long_def)
  from this [of 0] this [of 1] this [of 2] this [of 3] show ?thesis by (simp add: get_fs_long_def)
qed

lemma put_fs_longs_read:
  assumes "length vs \<le> 2 ^ 30" and "k < length vs"
  shows "get_fs_long (a + 4 * word_of_nat k) (put_fs_longs vs a s) = vs ! k"
proof -
  have "get_fs_long (a + 4 * word_of_nat k) (fold (\<lambda>i. put_fs_long (vs ! i) (a + 4 * word_of_nat i)) [0..<n] s) = vs ! k"
    if "k < n" "n \<le> length vs" for n
    using that
  proof (induction n)
    case (Suc n)
    have "get_fs_long (a + 4 * word_of_nat k) (put_fs_long v (a + 4 * word_of_nat n) t) = get_fs_long (a + 4 * word_of_nat k) t"
      if "k \<noteq> n" for v and t :: "'a sched_st_scheme"
    proof (rule get_put_fs_long_other)
      fix i j :: nat assume ij: "i < 4" "j < 4"
      have "4 * k + i \<noteq> 4 * n + j" using that ij by presburger
      moreover have "4 * k + i < 2 ^ 32" "4 * n + j < 2 ^ 32" using Suc.prems assms(1) ij by simp_all
      ultimately show "a + 4 * word_of_nat k + word_of_nat i \<noteq> a + 4 * word_of_nat n + word_of_nat j"
        using offset_neq [of "4 * k + i" "4 * n + j" a] by (simp add: add.assoc)
    qed
    with Suc show ?case by (cases "k = n") (auto simp: get_put_fs_long)
  qed simp
  from this [OF assms(2) order_refl] show ?thesis by (simp add: put_fs_longs_def)
qed

lemma put_fs_longs_frame [simp]: "cur (put_fs_longs vs a s) = cur s" "cur_ok (put_fs_longs vs a s) = cur_ok s"
proof -
  have *: "task (fold (\<lambda>i. put_fs_long (vs ! i) (a + 4 * word_of_nat i)) xs s) = task s \<and>
    current (fold (\<lambda>i. put_fs_long (vs ! i) (a + 4 * word_of_nat i)) xs s) = current s" for xs
    by (induction xs arbitrary: s) auto
  show "cur (put_fs_longs vs a s) = cur s" "cur_ok (put_fs_longs vs a s) = cur_ok s"
    using * by (simp_all add: put_fs_longs_def cur_def cur_ok_def)
qed

lemma get_fs_long_fs: "fs_mem s = fs_mem t \<Longrightarrow> get_fs_long a s = get_fs_long a t"
  by (simp add: get_fs_long_def)


definition handler_task :: mm_st where
  "handler_task = set_sigaction 1 \<lparr>sa_handler = 0x200, sa_mask = 0x100, sa_flags = 0, sa_restorer = 0x300\<rparr> mm_task"


end
