(* ===== verification/Kill_Wait.thy ===== *)
theory Kill_Wait
  imports Sys_Calls
begin

unbundle bit_operations_syntax

section \<open>Sending signals and waiting for children\<close>

text \<open>
  \<^verbatim>\<open>kernel/exit.c\<close> without \<^verbatim>\<open>do_exit\<close>. A pointer to a task is its slot number, and \<open>None\<close> in the slot is
  \<^verbatim>\<open>NULL\<close>. When the running task gives the processor away, other tasks and interrupts run before it
  continues: the argument \<open>env\<close> of an operation that calls \<^verbatim>\<open>schedule()\<close> is what they do, from the moment
  task \<open>i\<close> stops running until it runs again.
\<close>

subsection \<open>Model\<close>

type_synonym 's env = "nat \<Rightarrow> 's \<Rightarrow> (unit, 's) outcome"

definition yield :: "'z sched_st_scheme env \<Rightarrow> 'z sched_st_scheme \<Rightarrow> (unit, 'z sched_st_scheme) outcome" where
  "yield env s = bindK (schedule s) (\<lambda>_ t. if current t = current s then Ok () t else env (current s) t)"

definition release :: "'z proc_st_scheme env \<Rightarrow> nat \<Rightarrow> 'z proc_st_scheme \<Rightarrow> (unit, 'z proc_st_scheme) outcome" where
  "release env p s =
     (case find (\<lambda>i. i = p \<and> task s i \<noteq> None) [1..<NR_TASKS] of
        Some i \<Rightarrow> bindK (free_page (task_page s p) (s\<lparr>task := (task s)(i := None)\<rparr>)) (\<lambda>_ s. yield env s)
      | None \<Rightarrow> Panic ''trying to release non-existent task'')"

definition send_sig :: "int \<Rightarrow> nat \<Rightarrow> bool \<Rightarrow> 'z sched_st_scheme \<Rightarrow> int \<times> 'z sched_st_scheme" where
  "send_sig sig p priv s =
     (case task s p of
        None \<Rightarrow> (- EINVAL, s)
      | Some t \<Rightarrow>
          if sig < 1 \<or> sig > 32 then (- EINVAL, s)
          else if priv \<or> t_euid (cur s) = t_euid t \<or> suser s
          then (0, upd_task p (\<lambda>t. t\<lparr>t_signal := t_signal t OR sig_bit (nat sig)\<rparr>) s)
          else (- EPERM, s))"

definition kill_session :: "'z sched_st_scheme \<Rightarrow> 'z sched_st_scheme" where
  "kill_session s = fold (\<lambda>i s.
     case task s i of
       None \<Rightarrow> s
     | Some t \<Rightarrow> if t_session t = t_session (cur s)
                 then upd_task i (\<lambda>t. t\<lparr>t_signal := t_signal t OR sig_bit SIGHUP\<rparr>) s else s) task_order s"

text \<open>
  The loops of \<^verbatim>\<open>sys_kill\<close>: \<open>kill_some\<close> is \<^verbatim>\<open>if (*p && cond) if (err=send_sig(sig,*p,priv)) retval = err;\<close>
  for each entry of the list.
\<close>

definition kill_one :: "(task_struct \<Rightarrow> bool) \<Rightarrow> int \<Rightarrow> bool \<Rightarrow> nat \<Rightarrow> int \<times> 'z sched_st_scheme \<Rightarrow> int \<times> 'z sched_st_scheme" where
  "kill_one cond sig priv i rs =
     (case rs of (retval, s) \<Rightarrow>
        (case task s i of
           None \<Rightarrow> (retval, s)
         | Some t \<Rightarrow> if cond t
                     then (case send_sig sig i priv s of (err, s) \<Rightarrow> (if err \<noteq> 0 then err else retval, s))
                     else (retval, s)))"

definition kill_some :: "(task_struct \<Rightarrow> bool) \<Rightarrow> int \<Rightarrow> bool \<Rightarrow> nat list \<Rightarrow> int \<times> 'z sched_st_scheme \<Rightarrow> int \<times> 'z sched_st_scheme" where
  "kill_some cond sig priv ps rs = fold (kill_one cond sig priv) ps rs"

text \<open>
  The last \<^verbatim>\<open>else\<close> of \<^verbatim>\<open>sys_kill\<close> belongs to the \<^verbatim>\<open>if\<close> inside the loop before it: after the first signal that
  could be sent, the \<^verbatim>\<open>pid == -1\<close> loop hands the rest of the table to the process group loop, which runs
  \<^verbatim>\<open>p\<close> down to the first task and so ends both.
\<close>

fun kill_all :: "int \<Rightarrow> int \<Rightarrow> nat list \<Rightarrow> int \<times> 'z sched_st_scheme \<Rightarrow> int \<times> 'z sched_st_scheme" where
  "kill_all pid sig [] rs = rs"
| "kill_all pid sig (p # ps) (retval, s) =
     (case send_sig sig p False s of (err, s) \<Rightarrow>
        if err \<noteq> 0 then kill_all pid sig ps (err, s)
        else kill_some (\<lambda>t. t_pgrp t = - pid) sig False ps (retval, s))"

definition sys_kill :: "int \<Rightarrow> int \<Rightarrow> 'z sched_st_scheme \<Rightarrow> int \<times> 'z sched_st_scheme" where
  "sys_kill pid sig s =
     (if pid = 0 then kill_some (\<lambda>t. t_pgrp t = t_pid (cur s)) sig True task_order (0, s)
      else if pid > 0 then kill_some (\<lambda>t. t_pid t = pid) sig False task_order (0, s)
      else if pid = - 1 then kill_all pid sig task_order (0, s)
      else (0, s))"

definition tell_father :: "'z proc_st_scheme env \<Rightarrow> int \<Rightarrow> 'z proc_st_scheme \<Rightarrow> (unit, 'z proc_st_scheme) outcome" where
  "tell_father env pid s =
     (case (if pid \<noteq> 0 then find (\<lambda>i. \<exists>t \<in> set_option (task s i). t_pid t = pid) [0..<NR_TASKS] else None) of
        Some i \<Rightarrow> Ok () (upd_task i (\<lambda>t. t\<lparr>t_signal := t_signal t OR sig_bit SIGCHLD\<rparr>) s)
      | None \<Rightarrow> release env (current s) s)"

abbreviation (input) WNOHANG :: u32 where "WNOHANG \<equiv> 1"
abbreviation (input) WUNTRACED :: u32 where "WUNTRACED \<equiv> 2"

text \<open>\<open>wait_child\<close>: the tests of \<^verbatim>\<open>sys_waitpid\<close> before its \<^verbatim>\<open>switch\<close>; \<open>wait_stop\<close>: the cases that return.\<close>

definition wait_child :: "int \<Rightarrow> 'z sched_st_scheme \<Rightarrow> nat \<Rightarrow> bool" where
  "wait_child pid s p =
     (case task s p of
        None \<Rightarrow> False
      | Some t \<Rightarrow> p \<noteq> current s \<and> t_father t = t_pid (cur s) \<and>
          (if pid > 0 then t_pid t = pid
           else if pid = 0 then t_pgrp t = t_pgrp (cur s)
           else if pid \<noteq> - 1 then t_pgrp t = - pid else True))"

definition wait_stop :: "int \<Rightarrow> u32 \<Rightarrow> 'z sched_st_scheme \<Rightarrow> nat \<Rightarrow> bool" where
  "wait_stop pid options s p \<longleftrightarrow>
     wait_child pid s p \<and>
     (t_state (the (task s p)) = TASK_STOPPED \<and> options AND WUNTRACED \<noteq> 0 \<or> t_state (the (task s p)) = TASK_ZOMBIE)"

definition wait_found :: "'z proc_st_scheme env \<Rightarrow> nat \<Rightarrow> u32 \<Rightarrow> 'z proc_st_scheme \<Rightarrow> (int, 'z proc_st_scheme) outcome" where
  "wait_found env p stat_addr s =
     (let t = the (task s p) in
      if t_state t = TASK_STOPPED then Ok (t_pid t) (put_fs_long 0x7f stat_addr s)
      else bindK (release env p (upd_cur (\<lambda>c. c\<lparr>t_cutime := t_cutime c + t_utime t, t_cstime := t_cstime c + t_stime t\<rparr>) s))
             (\<lambda>_ s. Ok (t_pid t) (put_fs_long (word_of_int (t_exit_code t)) stat_addr s)))"

text \<open>One round from the label \<^verbatim>\<open>repeat\<close>; \<open>Inl\<close> is \<^verbatim>\<open>goto repeat\<close>.\<close>

definition wait_round ::
    "'z proc_st_scheme env \<Rightarrow> int \<Rightarrow> u32 \<Rightarrow> u32 \<Rightarrow> 'z proc_st_scheme \<Rightarrow> (unit + int, 'z proc_st_scheme) outcome" where
  "wait_round env pid stat_addr options s =
     (case find (wait_stop pid options s) task_order of
        Some p \<Rightarrow> bindK (wait_found env p stat_addr s) (\<lambda>r s. Ok (Inr r) s)
      | None \<Rightarrow>
          if list_ex (\<lambda>p. wait_child pid s p \<and> t_state (the (task s p)) \<noteq> TASK_STOPPED) task_order
          then if options AND WNOHANG \<noteq> 0 then Ok (Inr 0) s
               else bindK (yield env (upd_cur (t_state_update (\<lambda>_. TASK_INTERRUPTIBLE)) s)) (\<lambda>_ s.
                      let s = upd_cur (\<lambda>c. c\<lparr>t_signal := t_signal c AND NOT (sig_bit SIGCHLD)\<rparr>) s
                      in if t_signal (cur s) = 0 then Ok (Inl ()) s else Ok (Inr (- EINTR)) s)
          else Ok (Inr (- ECHILD)) s)"

definition sys_waitpid ::
    "'z proc_st_scheme env \<Rightarrow> int \<Rightarrow> u32 \<Rightarrow> u32 \<Rightarrow> 'z proc_st_scheme \<Rightarrow> (int, 'z proc_st_scheme) outcome" where
  "sys_waitpid env pid stat_addr options s =
     bindK (verify_area stat_addr 4 s) (\<lambda>_ s. iterK (\<lambda>_. wait_round env pid stat_addr options) () s)"

subsection \<open>Who receives a signal\<close>

definition may_signal :: "'z sched_st_scheme \<Rightarrow> bool \<Rightarrow> int \<Rightarrow> task_struct \<Rightarrow> bool" where
  "may_signal s priv sig t \<longleftrightarrow> 1 \<le> sig \<and> sig \<le> 32 \<and> (priv \<or> t_euid (cur s) = t_euid t \<or> suser s)"

definition signalled :: "'z sched_st_scheme \<Rightarrow> (task_struct \<Rightarrow> bool) \<Rightarrow> int \<Rightarrow> bool \<Rightarrow> nat set \<Rightarrow> nat \<Rightarrow> task_struct option" where
  "signalled s cond sig priv A i =
     (case task s i of
        None \<Rightarrow> None
      | Some t \<Rightarrow> Some (if i \<in> A \<and> cond t \<and> may_signal s priv sig t
                        then t\<lparr>t_signal := t_signal t OR sig_bit (nat sig)\<rparr> else t))"

definition all_signalled :: "'z sched_st_scheme \<Rightarrow> (task_struct \<Rightarrow> bool) \<Rightarrow> int \<Rightarrow> bool \<Rightarrow> nat set \<Rightarrow> bool" where
  "all_signalled s cond sig priv A \<longleftrightarrow> (\<forall>i\<in>A. \<forall>t. task s i = Some t \<longrightarrow> cond t \<longrightarrow> may_signal s priv sig t)"

lemma cur_signalled:
  "task t = signalled s cond sig priv A \<Longrightarrow> current t = current s \<Longrightarrow> cur_ok s \<Longrightarrow>
    t_euid (cur t) = t_euid (cur s) \<and> suser t = suser s"
  by (auto simp: cur_def signalled_def suser_def cur_ok_def split: if_splits option.splits)

lemma kill_one_spec:
  assumes "cur_ok s" and "p \<notin> A"
    and s': "s' = s\<lparr>task := signalled s cond sig priv A\<rparr>"
  shows "\<exists>r'. kill_one cond sig priv p (r, s') = (r', s\<lparr>task := signalled s cond sig priv (insert p A)\<rparr>)
    \<and> (r' = 0 \<longleftrightarrow> r = 0 \<and> all_signalled s cond sig priv {p})"
proof (cases "\<exists>t. task s p = Some t \<and> cond t")
  case False
  then have "signalled s cond sig priv (insert p A) = signalled s cond sig priv A"
    by (auto simp: signalled_def fun_eq_iff split: option.splits)
  moreover have "kill_one cond sig priv p (r, s') = (r, s')"
    using False assms by (auto simp: kill_one_def signalled_def split: option.splits)
  ultimately show ?thesis using False s' by (auto simp: all_signalled_def)
next
  case True
  then obtain t where t: "task s p = Some t" "cond t" by blast
  have p: "task s' p = Some t" using t assms(2,3) by (simp add: signalled_def)
  have m: "may_signal s' priv sig t = may_signal s priv sig t"
    using cur_signalled [of s' s cond sig priv A] assms(1) by (simp add: may_signal_def s')
  have up: "upd_task p (\<lambda>t. t\<lparr>t_signal := t_signal t OR sig_bit (nat sig)\<rparr>) s' = s\<lparr>task := signalled s cond sig priv (insert p A)\<rparr>"
    if "may_signal s priv sig t"
    using that t assms(2) by (auto simp: upd_task_def s' signalled_def fun_eq_iff split: option.splits)
  have same: "signalled s cond sig priv (insert p A) = signalled s cond sig priv A" if "\<not> may_signal s priv sig t"
    using that t assms(2) by (auto simp: signalled_def fun_eq_iff split: option.splits)
  show ?thesis
  proof (cases "may_signal s priv sig t")
    case True
    then have "send_sig sig p priv s' = (0, s\<lparr>task := signalled s cond sig priv (insert p A)\<rparr>)"
      using up m by (simp add: send_sig_def p may_signal_def)
    then show ?thesis using True t p by (simp add: kill_one_def all_signalled_def)
  next
    case False
    then have "snd (send_sig sig p priv s') = s' \<and> fst (send_sig sig p priv s') \<noteq> 0"
      using m by (auto simp: send_sig_def p may_signal_def)
    then obtain e where "send_sig sig p priv s' = (e, s')" "e \<noteq> 0"
      by (cases "send_sig sig p priv s'") auto
    then show ?thesis using False t p same s' by (simp add: kill_one_def all_signalled_def)
  qed
qed

lemma kill_some_spec:
  assumes "cur_ok s" and "distinct ps" and "A \<inter> set ps = {}"
  shows "\<exists>r'. kill_some cond sig priv ps (r, s\<lparr>task := signalled s cond sig priv A\<rparr>)
      = (r', s\<lparr>task := signalled s cond sig priv (A \<union> set ps)\<rparr>)
    \<and> (r' = 0 \<longleftrightarrow> r = 0 \<and> all_signalled s cond sig priv (set ps))"
  using assms(2,3)
proof (induction ps arbitrary: A r)
  case (Cons p ps)
  obtain r1 where r1: "kill_one cond sig priv p (r, s\<lparr>task := signalled s cond sig priv A\<rparr>)
      = (r1, s\<lparr>task := signalled s cond sig priv (insert p A)\<rparr>)"
    "r1 = 0 \<longleftrightarrow> r = 0 \<and> all_signalled s cond sig priv {p}"
    using kill_one_spec [OF assms(1) _ refl, of p A cond sig priv r] Cons.prems by auto
  have "insert p A \<inter> set ps = {}" using Cons.prems by auto
  from Cons.IH [OF _ this, of r1] Cons.prems(1) obtain r2 where
    "kill_some cond sig priv ps (r1, s\<lparr>task := signalled s cond sig priv (insert p A)\<rparr>)
      = (r2, s\<lparr>task := signalled s cond sig priv (insert p A \<union> set ps)\<rparr>)"
    "r2 = 0 \<longleftrightarrow> r1 = 0 \<and> all_signalled s cond sig priv (set ps)" by auto
  with r1 show ?case by (auto simp: kill_some_def all_signalled_def)
qed (simp add: kill_some_def all_signalled_def)

lemma signalled_none: "signalled s cond sig priv {} = task s"
  by (auto simp: signalled_def fun_eq_iff split: option.splits)

lemma kill_table:
  assumes "cur_ok s"
  shows "\<exists>r. kill_some cond sig priv task_order (0, s) = (r, s\<lparr>task := signalled s cond sig priv {1..<NR_TASKS}\<rparr>)
    \<and> (r = 0 \<longleftrightarrow> all_signalled s cond sig priv {1..<NR_TASKS})"
  using kill_some_spec [OF assms, of task_order "{}" cond sig priv 0]
  by (simp add: signalled_none set_task_order distinct_task_order)

definition kill_target :: "int \<Rightarrow> 'z sched_st_scheme \<Rightarrow> task_struct \<Rightarrow> bool" where
  "kill_target pid s t \<longleftrightarrow> (if pid = 0 then t_pgrp t = t_pid (cur s) else t_pid t = pid)"

lemma kill_target_eq:
  "kill_target pid s = (if pid = 0 then (\<lambda>t. t_pgrp t = t_pid (cur s)) else (\<lambda>t. t_pid t = pid))"
  by (simp add: kill_target_def fun_eq_iff)

text \<open>
  C18. \<^verbatim>\<open>kill\<close> with a process number: the signal is added to exactly those tasks (other than the idle
  task) that have this number and that the caller may signal, that is with the caller's effective user or when the
  caller is the superuser; nothing else changes in the whole state. With \<^verbatim>\<open>pid == 0\<close> the same for the
  tasks whose process group is the caller's number, without a permission check. The result is 0 exactly
  when no addressed task was refused.
\<close>

theorem sys_kill_exact:
  assumes "cur_ok s" and "0 \<le> pid"
  shows "\<exists>r. sys_kill pid sig s = (r, s\<lparr>task := signalled s (kill_target pid s) sig (pid = 0) {1..<NR_TASKS}\<rparr>)
    \<and> (r = 0 \<longleftrightarrow> all_signalled s (kill_target pid s) sig (pid = 0) {1..<NR_TASKS})"
proof (cases "pid = 0")
  case True
  then show ?thesis
    using kill_table [OF assms(1), of "\<lambda>t. t_pgrp t = t_pid (cur s)" sig True]
    by (simp add: sys_kill_def kill_target_eq)
next
  case False
  then show ?thesis
    using kill_table [OF assms(1), of "\<lambda>t. t_pid t = pid" sig False] assms(2)
    by (simp add: sys_kill_def kill_target_eq)
qed

definition two_tasks :: sched_st where
  "two_tasks = (sched_boot 0)\<lparr>task := [0 \<mapsto> INIT_TASK 0, 3 \<mapsto> (INIT_TASK 0)\<lparr>t_pid := 17, t_euid := 5, t_state := 3, t_father := 4\<rparr>,
     4 \<mapsto> (INIT_TASK 0)\<lparr>t_pid := 4\<rparr>], current := 4\<rparr>"

lemma two_tasks_cur: "cur_ok two_tasks" "suser two_tasks"
  by (simp_all add: two_tasks_def cur_ok_def suser_def cur_def INIT_TASK_def)

theorem sys_kill_exact_witness:
  "cur_ok two_tasks \<and> (\<exists>r. sys_kill 17 9 two_tasks =
     (r, two_tasks\<lparr>task := signalled two_tasks (kill_target 17 two_tasks) 9 False {1..<NR_TASKS}\<rparr>) \<and> r = 0)"
proof -
  have "all_signalled two_tasks (kill_target 17 two_tasks) 9 False {1..<NR_TASKS}"
    using two_tasks_cur by (simp add: all_signalled_def may_signal_def)
  then show ?thesis using sys_kill_exact [OF two_tasks_cur(1), of 17 9] two_tasks_cur by simp
qed



subsection \<open>Collecting a child\<close>

lemma mm_only_wait [simp]:
  assumes "mm_only s t"
  shows "wait_child pid t = wait_child pid s" "wait_stop pid options t = wait_stop pid options s"
  using mm_only_fields [OF assms] by (simp_all add: wait_child_def wait_stop_def fun_eq_iff cong: option.case_cong)


definition waiting_task :: proc_st where
  "waiting_task = mm_st.extend (mm_task\<lparr>task := (task mm_task)(3 \<mapsto> (INIT_TASK 0)\<lparr>t_pid := 17, t_father := 0\<rparr>)\<rparr>) (proc_st.fields (\<lambda>_. 0))"


end
