(* ===== verification/Fs_Data.thy ===== *)
theory Fs_Data
  imports Kill_Wait Wait_Queue
begin

unbundle bit_operations_syntax

section \<open>The data of the file system\<close>

text \<open>
  The structures of \<^verbatim>\<open>include/linux/fs.h\<close> and \<^verbatim>\<open>blk.h\<close> and the global tables of \<^verbatim>\<open>fs/\<close>.
  \<^item> A pointer to a table entry is the entry's number; \<open>None\<close> is \<^verbatim>\<open>NULL\<close>. Wait queues
    (\<^verbatim>\<open>b_wait\<close>, \<^verbatim>\<open>i_wait\<close>, \<^verbatim>\<open>s_wait\<close>) are the heads of \<open>wait_head\<close>.
  \<^item> \<^verbatim>\<open>b_data\<close> points to a block of 1024 bytes that no other buffer has, so the block is a component
    of the buffer: a function from the offset to the byte.
  \<^item> Flags that only hold 0 or 1 are \<open>bool\<close>; counts keep their width.
  \<^item> Where C leaves open what happens (a store through a null pointer into a table, an index past the end
    of a map) the call ends in \<open>UB\<close>, so that nothing can be proved about what comes after.
  \<^item> What the code below cannot contain is collected in a context: \<open>c_env\<close> is what other tasks and
    interrupts do while the running task is off the processor, \<open>c_dev m\<close> the request function of the
    block device with major number \<open>m\<close> other than the RAM disk, \<open>c_floppy\<close> the answer of
    \<^verbatim>\<open>floppy_change\<close>, \<open>c_tty_read\<close>, \<open>c_tty_write\<close> and \<open>c_tty_ioctl\<close> the terminal calls, and \<open>c_depth\<close> bounds the nesting of \<^verbatim>\<open>getblk\<close> inside \<^verbatim>\<open>sync_dev\<close> inside \<^verbatim>\<open>getblk\<close>.
\<close>

abbreviation UB :: "('a, 's) outcome" where "UB \<equiv> Panic ''undefined behaviour''"

abbreviation (input) READ :: nat where "READ \<equiv> 0"
abbreviation (input) WRITE :: nat where "WRITE \<equiv> 1"
abbreviation (input) READA :: nat where "READA \<equiv> 2"
abbreviation (input) WRITEA :: nat where "WRITEA \<equiv> 3"
abbreviation (input) NR_INODE :: nat where "NR_INODE \<equiv> 32"
abbreviation (input) NR_FILE :: nat where "NR_FILE \<equiv> 64"
abbreviation (input) NR_SUPER :: nat where "NR_SUPER \<equiv> 8"
abbreviation (input) NR_HASH :: nat where "NR_HASH \<equiv> 307"
abbreviation (input) NR_REQUEST :: nat where "NR_REQUEST \<equiv> 32"
abbreviation (input) NR_BLK_DEV :: nat where "NR_BLK_DEV \<equiv> 7"
abbreviation (input) NAME_LEN :: nat where "NAME_LEN \<equiv> 14"
abbreviation (input) ROOT_INO :: u16 where "ROOT_INO \<equiv> 1"
abbreviation (input) SUPER_MAGIC :: u16 where "SUPER_MAGIC \<equiv> 0x137F"

definition MAJOR :: "u16 \<Rightarrow> nat" where "MAJOR a = unat (drop_bit 8 a)"
definition MINOR :: "u16 \<Rightarrow> nat" where "MINOR a = unat (a AND 0xff)"

definition S_ISREG :: "u16 \<Rightarrow> bool" where "S_ISREG m \<longleftrightarrow> m AND 0xf000 = 0x8000"
definition S_ISDIR :: "u16 \<Rightarrow> bool" where "S_ISDIR m \<longleftrightarrow> m AND 0xf000 = 0x4000"
definition S_ISCHR :: "u16 \<Rightarrow> bool" where "S_ISCHR m \<longleftrightarrow> m AND 0xf000 = 0x2000"
definition S_ISBLK :: "u16 \<Rightarrow> bool" where "S_ISBLK m \<longleftrightarrow> m AND 0xf000 = 0x6000"

type_synonym block = "nat \<Rightarrow> u8"

record buffer_head =
  b_data :: block
  b_blocknr :: u32
  b_dev :: u16
  b_uptodate :: bool
  b_dirt :: bool
  b_count :: u8
  b_lock :: bool
  b_prev :: "nat option"
  b_next :: "nat option"
  b_prev_free :: "nat option"
  b_next_free :: "nat option"

record m_inode =
  i_mode :: u16
  i_uid :: u16
  i_size :: u32
  i_mtime :: u32
  i_gid :: u8
  i_nlinks :: u8
  i_zone :: "nat \<Rightarrow> u16"
  i_atime :: u32
  i_ctime :: u32
  i_dev :: u16
  i_num :: u16
  i_count :: u16
  i_lock :: bool
  i_dirt :: bool
  i_pipe :: bool
  i_mount :: bool

record file_str =
  f_mode :: u16
  f_flags :: u16
  f_count :: u16
  f_inode :: "nat option"
  f_pos :: int

record super_block =
  s_ninodes :: u16
  s_nzones :: u16
  s_imap_blocks :: u16
  s_zmap_blocks :: u16
  s_firstdatazone :: u16
  s_log_zone_size :: u16
  s_max_size :: u32
  s_magic :: u16
  s_imap :: "nat \<Rightarrow> nat option"
  s_zmap :: "nat \<Rightarrow> nat option"
  s_dev :: u16
  s_isup :: "nat option"
  s_imount :: "nat option"
  s_time :: u32
  s_lock :: bool
  s_rd_only :: bool
  s_dirt :: bool

record request =
  r_dev :: int
  r_cmd :: nat
  r_errors :: int
  r_sector :: u32
  r_nr_sectors :: u32
  r_bh :: "nat option"
  r_next :: "nat option"

record fs_st = proc_st +
  buf :: "nat \<Rightarrow> buffer_head"
  NR_BUFFERS :: nat
  start_buffer :: u32
  hash_table :: "nat \<Rightarrow> nat option"
  free_list :: nat
  request_tab :: "nat \<Rightarrow> request"
  request_fn :: "nat \<Rightarrow> bool"
  current_request :: "nat \<Rightarrow> nat option"
  rd_mem :: block
  rd_start :: u32
  rd_length :: u32
  inode :: "nat \<Rightarrow> m_inode"
  last_inode :: nat
  sblock :: "nat \<Rightarrow> super_block"
  ROOT_DEV :: u16
  file_tab :: "nat \<Rightarrow> file_str"
  tty_pgrp :: "nat \<Rightarrow> int"

record 's ctx =
  c_depth :: nat
  c_env :: "'s env"
  c_dev :: "nat \<Rightarrow> 's \<Rightarrow> (unit, 's) outcome"
  c_floppy :: "nat \<Rightarrow> 's \<Rightarrow> (bool, 's) outcome"
  c_tty_read :: "nat \<Rightarrow> u32 \<Rightarrow> int \<Rightarrow> 's \<Rightarrow> (int, 's) outcome"
  c_tty_write :: "nat \<Rightarrow> u32 \<Rightarrow> int \<Rightarrow> 's \<Rightarrow> (int, 's) outcome"
  c_tty_ioctl :: "u16 \<Rightarrow> u32 \<Rightarrow> u32 \<Rightarrow> 's \<Rightarrow> (int, 's) outcome"

subsection \<open>Access\<close>

definition upd_buf :: "nat \<Rightarrow> (buffer_head \<Rightarrow> buffer_head) \<Rightarrow> 'z fs_st_scheme \<Rightarrow> 'z fs_st_scheme" where
  "upd_buf i f s = s\<lparr>buf := (buf s)(i := f (buf s i))\<rparr>"

definition upd_inode :: "nat \<Rightarrow> (m_inode \<Rightarrow> m_inode) \<Rightarrow> 'z fs_st_scheme \<Rightarrow> 'z fs_st_scheme" where
  "upd_inode i f s = s\<lparr>inode := (inode s)(i := f (inode s i))\<rparr>"

definition upd_super :: "nat \<Rightarrow> (super_block \<Rightarrow> super_block) \<Rightarrow> 'z fs_st_scheme \<Rightarrow> 'z fs_st_scheme" where
  "upd_super i f s = s\<lparr>sblock := (sblock s)(i := f (sblock s i))\<rparr>"

definition upd_file :: "nat \<Rightarrow> (file_str \<Rightarrow> file_str) \<Rightarrow> 'z fs_st_scheme \<Rightarrow> 'z fs_st_scheme" where
  "upd_file i f s = s\<lparr>file_tab := (file_tab s)(i := f (file_tab s i))\<rparr>"

definition upd_req :: "nat \<Rightarrow> (request \<Rightarrow> request) \<Rightarrow> 'z fs_st_scheme \<Rightarrow> 'z fs_st_scheme" where
  "upd_req i f s = s\<lparr>request_tab := (request_tab s)(i := f (request_tab s i))\<rparr>"

definition get16 :: "block \<Rightarrow> nat \<Rightarrow> u16" where
  "get16 d i = ucast (d i) OR push_bit 8 (ucast (d (i + 1)))"

definition put16 :: "u16 \<Rightarrow> nat \<Rightarrow> block \<Rightarrow> block" where
  "put16 v i d = d(i := ucast v, i + 1 := ucast (drop_bit 8 v))"

definition get32 :: "block \<Rightarrow> nat \<Rightarrow> u32" where
  "get32 d i = ucast (get16 d i) OR push_bit 16 (ucast (get16 d (i + 2)))"

definition put32 :: "u32 \<Rightarrow> nat \<Rightarrow> block \<Rightarrow> block" where
  "put32 v i d = put16 (ucast (drop_bit 16 v)) (i + 2) (put16 (ucast v) i d)"

text \<open>The time as it is stored in inodes.\<close>

definition now :: "'z sched_st_scheme \<Rightarrow> u32" where
  "now s = word_of_int (CURRENT_TIME s)"

text \<open>\<^verbatim>\<open>sleep_on\<close> as its callers see it: both halves and what happens in between.\<close>

definition sleep_on :: "('z fs_st_scheme) ctx \<Rightarrow> waitq \<Rightarrow> 'z fs_st_scheme \<Rightarrow> (unit, 'z fs_st_scheme) outcome" where
  "sleep_on E q s =
     bindK (sleep_on_enter q s) (\<lambda>tmp t.
     bindK (if current t = current s then Ok () t else c_env E (current s) t) (\<lambda>_ t.
     Ok () (sleep_on_leave tmp t)))"

text \<open>\<^verbatim>\<open>while (lock) sleep_on(&wait);\<close>\<close>

definition wait_while :: "('z fs_st_scheme) ctx \<Rightarrow> ('z fs_st_scheme \<Rightarrow> bool) \<Rightarrow> waitq \<Rightarrow> 'z fs_st_scheme \<Rightarrow> (unit, 'z fs_st_scheme) outcome" where
  "wait_while E locked q s = iterK (\<lambda>(_ :: unit) s.
     if locked s then bindK (sleep_on E q s) (\<lambda>_ s. Ok (Inl ()) s) else Ok (Inr ()) s) () s"

lemma wait_while_free [simp]: "\<not> locked s \<Longrightarrow> wait_while E locked q s = Ok () s"
  unfolding wait_while_def by (subst iterK_unfold) simp

lemma upd_buf_simps [simp]:
  "buf (upd_buf i f s) = (buf s)(i := f (buf s i))" "hash_table (upd_buf i f s) = hash_table s"
  "free_list (upd_buf i f s) = free_list s" "NR_BUFFERS (upd_buf i f s) = NR_BUFFERS s"
  "request_tab (upd_buf i f s) = request_tab s" "current_request (upd_buf i f s) = current_request s"
  "request_fn (upd_buf i f s) = request_fn s" "rd_mem (upd_buf i f s) = rd_mem s" "rd_length (upd_buf i f s) = rd_length s" "rd_start (upd_buf i f s) = rd_start s"
  "inode (upd_buf i f s) = inode s" "sblock (upd_buf i f s) = sblock s" "file_tab (upd_buf i f s) = file_tab s"
  by (simp_all add: upd_buf_def)

lemma upd_inode_simps [simp]:
  "inode (upd_inode i f s) = (inode s)(i := f (inode s i))" "buf (upd_inode i f s) = buf s"
  "sblock (upd_inode i f s) = sblock s" "file_tab (upd_inode i f s) = file_tab s" "fs_mem (upd_inode i f s) = fs_mem s"
  "task (upd_inode i f s) = task s" "current (upd_inode i f s) = current s"
  by (simp_all add: upd_inode_def)

lemma upd_file_simps [simp]:
  "file_tab (upd_file i f s) = (file_tab s)(i := f (file_tab s i))" "inode (upd_file i f s) = inode s"
  "task (upd_file i f s) = task s" "current (upd_file i f s) = current s"
  by (simp_all add: upd_file_def)

lemma upd_req_simps [simp]:
  "request_tab (upd_req i f s) = (request_tab s)(i := f (request_tab s i))" "buf (upd_req i f s) = buf s"
  "current_request (upd_req i f s) = current_request s" "request_fn (upd_req i f s) = request_fn s"
  "rd_mem (upd_req i f s) = rd_mem s" "rd_length (upd_req i f s) = rd_length s" "rd_start (upd_req i f s) = rd_start s" "wait_head (upd_req i f s) = wait_head s"
  by (simp_all add: upd_req_def)

lemma wake_up_fs [simp]:
  "buf (wake_up q s) = buf s" "hash_table (wake_up q s) = hash_table s" "free_list (wake_up q s) = free_list s"
  "NR_BUFFERS (wake_up q s) = NR_BUFFERS s" "request_tab (wake_up q s) = request_tab s"
  "current_request (wake_up q s) = current_request s" "request_fn (wake_up q s) = request_fn s"
  "rd_mem (wake_up q s) = rd_mem s" "rd_length (wake_up q s) = rd_length s" "rd_start (wake_up q s) = rd_start s" "inode (wake_up q s) = inode s"
  "sblock (wake_up q s) = sblock s" "file_tab (wake_up q s) = file_tab s" "fs_mem (wake_up q s) = fs_mem s"
  by (simp_all add: wake_up_def upd_task_def split: option.splits)

text \<open>The global variables of the file system before any of it has run, on a given machine.\<close>

definition empty_buffer :: buffer_head where
  "empty_buffer = \<lparr>b_data = (\<lambda>_. 0), b_blocknr = 0, b_dev = 0, b_uptodate = False, b_dirt = False, b_count = 0, b_lock = False,
     b_prev = None, b_next = None, b_prev_free = None, b_next_free = None\<rparr>"

definition empty_inode :: m_inode where
  "empty_inode = \<lparr>i_mode = 0, i_uid = 0, i_size = 0, i_mtime = 0, i_gid = 0, i_nlinks = 0, i_zone = (\<lambda>_. 0), i_atime = 0,
     i_ctime = 0, i_dev = 0, i_num = 0, i_count = 0, i_lock = False, i_dirt = False, i_pipe = False, i_mount = False\<rparr>"

definition empty_super :: super_block where
  "empty_super = \<lparr>s_ninodes = 0, s_nzones = 0, s_imap_blocks = 0, s_zmap_blocks = 0, s_firstdatazone = 0, s_log_zone_size = 0,
     s_max_size = 0, s_magic = 0, s_imap = (\<lambda>_. None), s_zmap = (\<lambda>_. None), s_dev = 0, s_isup = None, s_imount = None,
     s_time = 0, s_lock = False, s_rd_only = False, s_dirt = False\<rparr>"

definition fs_boot :: "mm_st \<Rightarrow> fs_st" where
  "fs_boot m = proc_st.extend (mm_st.extend m (proc_st.fields (\<lambda>_. 0)))
     (fs_st.fields (\<lambda>_. empty_buffer) 0 0 (\<lambda>_. None) 0
        (\<lambda>_. \<lparr>r_dev = - 1, r_cmd = 0, r_errors = 0, r_sector = 0, r_nr_sectors = 0, r_bh = None, r_next = None\<rparr>)
        (\<lambda>_. False) (\<lambda>_. None) (\<lambda>_. 0) 0 0 (\<lambda>_. empty_inode) 0 (\<lambda>_. empty_super) 0
        (\<lambda>_. \<lparr>f_mode = 0, f_flags = 0, f_count = 0, f_inode = None, f_pos = 0\<rparr>) (\<lambda>_. 0))"

lemma fs_boot_simps [simp]:
  "buf (fs_boot m) = (\<lambda>_. empty_buffer)" "hash_table (fs_boot m) = (\<lambda>_. None)" "free_list (fs_boot m) = 0"
  "request_tab (fs_boot m) = (\<lambda>_. \<lparr>r_dev = - 1, r_cmd = 0, r_errors = 0, r_sector = 0, r_nr_sectors = 0, r_bh = None, r_next = None\<rparr>)"
  "current_request (fs_boot m) = (\<lambda>_. None)" "inode (fs_boot m) = (\<lambda>_. empty_inode)" "sblock (fs_boot m) = (\<lambda>_. empty_super)"
  "file_tab (fs_boot m) = (\<lambda>_. \<lparr>f_mode = 0, f_flags = 0, f_count = 0, f_inode = None, f_pos = 0\<rparr>)"
  "start_buffer (fs_boot m) = 0" "NR_BUFFERS (fs_boot m) = 0" "last_inode (fs_boot m) = 0" "ROOT_DEV (fs_boot m) = 0"
  "request_fn (fs_boot m) = (\<lambda>_. False)" "rd_start (fs_boot m) = 0" "rd_length (fs_boot m) = 0"
  "task (fs_boot m) = task m" "current (fs_boot m) = current m" "fs_mem (fs_boot m) = fs_mem m"
  "mem_map (fs_boot m) = mem_map m" "phys (fs_boot m) = phys m" "HIGH_MEMORY (fs_boot m) = HIGH_MEMORY m"
  by (simp_all add: fs_boot_def proc_st.defs mm_st.defs fs_st.defs)

definition idle_ctx :: "('z fs_st_scheme) ctx" where
  "idle_ctx = \<lparr>c_depth = 3, c_env = (\<lambda>_ s. Hang), c_dev = (\<lambda>_ s. Ok () s), c_floppy = (\<lambda>_ s. Ok False s),
     c_tty_read = (\<lambda>_ _ _ s. Ok 0 s), c_tty_write = (\<lambda>_ _ n s. Ok n s), c_tty_ioctl = (\<lambda>_ _ _ s. Ok 0 s)\<rparr>"

end
