(* ===== verification/Block_Dev.thy ===== *)
theory Block_Dev
  imports Fs_Data "HOL-Library.Product_Lexorder"
begin

unbundle bit_operations_syntax

section \<open>Block devices\<close>

text \<open>
  The request queue of \<^verbatim>\<open>kernel/blk_drv/ll_rw_blk.c\<close> and \<^verbatim>\<open>blk.h\<close>, and the RAM disk driver
  \<^verbatim>\<open>ramdisk.c\<close>, whose request function finishes every request before it returns. The field \<^verbatim>\<open>waiting\<close> of a
  request is \<^verbatim>\<open>NULL\<close> in every request that is made, so waking it up does nothing and it is left out.
\<close>

subsection \<open>Model\<close>

definition lock_buffer :: "('z fs_st_scheme) ctx \<Rightarrow> nat \<Rightarrow> 'z fs_st_scheme \<Rightarrow> (unit, 'z fs_st_scheme) outcome" where
  "lock_buffer E bh s =
     bindK (wait_while E (\<lambda>s. b_lock (buf s bh)) (WqBuffer bh) s) (\<lambda>_ s.
     Ok () (upd_buf bh (b_lock_update (\<lambda>_. True)) s))"

definition unlock_buffer :: "nat \<Rightarrow> 'z fs_st_scheme \<Rightarrow> 'z fs_st_scheme" where
  "unlock_buffer bh s = wake_up (WqBuffer bh) (upd_buf bh (b_lock_update (\<lambda>_. False)) s)"

definition IN_ORDER :: "request \<Rightarrow> request \<Rightarrow> bool" where
  "IN_ORDER s1 s2 \<longleftrightarrow>
     r_cmd s1 < r_cmd s2 \<or> r_cmd s1 = r_cmd s2 \<and>
     (r_dev s1 < r_dev s2 \<or> r_dev s1 = r_dev s2 \<and> r_sector s1 < r_sector s2)"

definition end_request :: "nat \<Rightarrow> bool \<Rightarrow> 'z fs_st_scheme \<Rightarrow> 'z fs_st_scheme" where
  "end_request major uptodate s =
     (let c = the (current_request s major);
          s = (case r_bh (request_tab s c) of
                 None \<Rightarrow> s
               | Some bh \<Rightarrow> unlock_buffer bh (upd_buf bh (b_uptodate_update (\<lambda>_. uptodate)) s));
          s = wake_up WqRequest s;
          s = upd_req c (r_dev_update (\<lambda>_. - 1)) s
      in s\<lparr>current_request := (current_request s)(major := r_next (request_tab s c))\<rparr>)"

definition copy_bytes :: "nat \<Rightarrow> block \<Rightarrow> nat \<Rightarrow> block \<Rightarrow> nat \<Rightarrow> block" where
  "copy_bytes len from foff to toff = (\<lambda>k. if toff \<le> k \<and> k < toff + len then from (foff + (k - toff)) else to k)"

text \<open>One round of \<^verbatim>\<open>do_rd_request\<close>, from \<^verbatim>\<open>INIT_REQUEST\<close> to \<^verbatim>\<open>goto repeat\<close>.\<close>

definition rd_round :: "'z fs_st_scheme \<Rightarrow> (unit + unit, 'z fs_st_scheme) outcome" where
  "rd_round s =
     (case current_request s 1 of
        None \<Rightarrow> Ok (Inr ()) s
      | Some c \<Rightarrow>
          let r = request_tab s c; dev = (word_of_int (r_dev r) :: u16);
              off = push_bit 9 (r_sector r); len = push_bit 9 (r_nr_sectors r)
          in if MAJOR dev \<noteq> 1 then Panic ''ramdisk: request list destroyed''
             else if (case r_bh r of None \<Rightarrow> False | Some bh \<Rightarrow> \<not> b_lock (buf s bh)) then Panic ''ramdisk: block not locked''
             else if MINOR dev \<noteq> 1 \<or> rd_start s + off + len > rd_start s + rd_length s
             then Ok (Inl ()) (end_request 1 False s)
             else let bh = the (r_bh r) in
                  if r_cmd r = WRITE
                  then Ok (Inl ()) (end_request 1 True
                         (s\<lparr>rd_mem := copy_bytes (unat len) (b_data (buf s bh)) 0 (rd_mem s) (unat off)\<rparr>))
                  else if r_cmd r = READ
                  then Ok (Inl ()) (end_request 1 True
                         (upd_buf bh (\<lambda>b. b\<lparr>b_data := copy_bytes (unat len) (rd_mem s) (unat off) (b_data b) 0\<rparr>) s))
                  else Panic ''unknown ramdisk-command'')"

definition do_rd_request :: "'z fs_st_scheme \<Rightarrow> (unit, 'z fs_st_scheme) outcome" where
  "do_rd_request s = iterK (\<lambda>(_ :: unit). rd_round) () s"

text \<open>\<^verbatim>\<open>(dev->request_fn)()\<close>\<close>

definition call_request_fn :: "('z fs_st_scheme) ctx \<Rightarrow> nat \<Rightarrow> 'z fs_st_scheme \<Rightarrow> (unit, 'z fs_st_scheme) outcome" where
  "call_request_fn E major s = (if major = 1 then do_rd_request s else c_dev E major s)"

definition elevator_stop :: "request \<Rightarrow> request \<Rightarrow> request \<Rightarrow> bool" where
  "elevator_stop req tmp nx \<longleftrightarrow> (IN_ORDER tmp req \<or> \<not> IN_ORDER tmp nx) \<and> IN_ORDER req nx"

definition elevator_find :: "nat \<Rightarrow> nat \<Rightarrow> 'z fs_st_scheme \<Rightarrow> (nat, 'z fs_st_scheme) outcome" where
  "elevator_find req tmp s = iterK (\<lambda>tmp s.
     case r_next (request_tab s tmp) of
       None \<Rightarrow> Ok (Inr tmp) s
     | Some nx \<Rightarrow> if elevator_stop (request_tab s req) (request_tab s tmp) (request_tab s nx) then Ok (Inr tmp) s
                  else Ok (Inl nx) s) tmp s"

definition add_request :: "('z fs_st_scheme) ctx \<Rightarrow> nat \<Rightarrow> nat \<Rightarrow> 'z fs_st_scheme \<Rightarrow> (unit, 'z fs_st_scheme) outcome" where
  "add_request E major req s =
     (let s = upd_req req (r_next_update (\<lambda>_. None)) s;
          s = (case r_bh (request_tab s req) of None \<Rightarrow> s | Some bh \<Rightarrow> upd_buf bh (b_dirt_update (\<lambda>_. False)) s)
      in case current_request s major of
           None \<Rightarrow> call_request_fn E major (s\<lparr>current_request := (current_request s)(major := Some req)\<rparr>)
         | Some tmp \<Rightarrow>
             bindK (elevator_find req tmp s) (\<lambda>tmp s.
               let s = upd_req req (r_next_update (\<lambda>_. r_next (request_tab s tmp))) s
               in Ok () (upd_req tmp (r_next_update (\<lambda>_. Some req)) s)))"

definition free_request :: "nat \<Rightarrow> 'z fs_st_scheme \<Rightarrow> nat option" where
  "free_request rw s = find (\<lambda>i. r_dev (request_tab s i) < 0) (rev [0..<if rw = READ then NR_REQUEST else NR_REQUEST * 2 div 3])"

definition fill_request :: "nat \<Rightarrow> nat \<Rightarrow> 'z fs_st_scheme \<Rightarrow> request" where
  "fill_request rw bh s =
     \<lparr>r_dev = uint (b_dev (buf s bh)), r_cmd = rw, r_errors = 0, r_sector = push_bit 1 (b_blocknr (buf s bh)),
      r_nr_sectors = 2, r_bh = Some bh, r_next = None\<rparr>"

definition queue_request ::
    "('z fs_st_scheme) ctx \<Rightarrow> nat \<Rightarrow> nat \<Rightarrow> bool \<Rightarrow> nat \<Rightarrow> 'z fs_st_scheme \<Rightarrow> (unit, 'z fs_st_scheme) outcome" where
  "queue_request E major rw rw_ahead bh s = iterK (\<lambda>(_ :: unit) s.
     case free_request rw s of
       None \<Rightarrow>
         if rw_ahead then Ok (Inr ()) (unlock_buffer bh s)
         else bindK (sleep_on E WqRequest s) (\<lambda>_ s. Ok (Inl ()) s)
     | Some req \<Rightarrow> bindK (add_request E major req (upd_req req (\<lambda>_. fill_request rw bh s) s)) (\<lambda>_ s. Ok (Inr ()) s)) () s"

definition make_request :: "('z fs_st_scheme) ctx \<Rightarrow> nat \<Rightarrow> nat \<Rightarrow> nat \<Rightarrow> 'z fs_st_scheme \<Rightarrow> (unit, 'z fs_st_scheme) outcome" where
  "make_request E major rw bh s =
     (let rw_ahead = (rw = READA \<or> rw = WRITEA)
      in if rw_ahead \<and> b_lock (buf s bh) then Ok () s
         else let rw = (if rw = READA then READ else if rw = WRITEA then WRITE else rw)
              in if rw \<noteq> READ \<and> rw \<noteq> WRITE then Panic ''Bad block dev command, must be R/W/RA/WA''
                 else bindK (lock_buffer E bh s) (\<lambda>_ s.
                   if rw = WRITE \<and> \<not> b_dirt (buf s bh) \<or> rw = READ \<and> b_uptodate (buf s bh)
                   then Ok () (unlock_buffer bh s)
                   else queue_request E major rw rw_ahead bh s))"

definition ll_rw_block :: "('z fs_st_scheme) ctx \<Rightarrow> nat \<Rightarrow> nat \<Rightarrow> 'z fs_st_scheme \<Rightarrow> (unit, 'z fs_st_scheme) outcome" where
  "ll_rw_block E rw bh s =
     (let major = MAJOR (b_dev (buf s bh))
      in if major \<ge> NR_BLK_DEV \<or> \<not> request_fn s major then Ok () s
         else make_request E major rw bh s)"

definition blk_dev_init :: "'z fs_st_scheme \<Rightarrow> 'z fs_st_scheme" where
  "blk_dev_init s = fold (\<lambda>i. upd_req i (\<lambda>r. r\<lparr>r_dev := - 1, r_next := None\<rparr>)) [0..<NR_REQUEST] s"

definition rd_init :: "u32 \<Rightarrow> u32 \<Rightarrow> 'z fs_st_scheme \<Rightarrow> u32 \<times> 'z fs_st_scheme" where
  "rd_init mem_start len s =
     (len, s\<lparr>request_fn := (request_fn s)(1 := True), rd_start := mem_start, rd_length := len,
            rd_mem := (\<lambda>k. if k < unat len then 0 else rd_mem s k)\<rparr>)"

subsection \<open>The elevator\<close>

text \<open>
  The queue of a device as a list, the position the elevator gives a new request, and why one pass
  over the queue moves the disk arm at most twice over the disk.
\<close>

definition rkey :: "request \<Rightarrow> nat \<times> int \<times> u32" where
  "rkey r = (r_cmd r, r_dev r, r_sector r)"

lemma IN_ORDER_key: "IN_ORDER r1 r2 \<longleftrightarrow> rkey r1 < rkey r2"
  by (auto simp: IN_ORDER_def rkey_def less_prod_def' less_le)

fun elevator_insert :: "('a \<Rightarrow> 'k :: linorder) \<Rightarrow> 'a \<Rightarrow> 'a list \<Rightarrow> 'a list" where
  "elevator_insert k r (x # y # ys) =
     (if (k x < k r \<or> \<not> k x < k y) \<and> k r < k y then x # r # y # ys else x # elevator_insert k r (y # ys))"
| "elevator_insert k r xs = xs @ [r]"

definition two_sweeps :: "'k :: linorder list \<Rightarrow> bool" where
  "two_sweeps ks \<longleftrightarrow> (\<exists>as bs. ks = as @ bs \<and> sorted as \<and> sorted bs)"

lemma set_elevator_insert: "set (elevator_insert k r xs) = insert r (set xs)"
  by (induction k r xs rule: elevator_insert.induct) auto

lemma elevator_insert_Cons: "\<exists>ys. elevator_insert k r (x # xs) = x # ys"
  by (cases xs) auto

lemma elevator_insert_sorted:
  "sorted (map k (x # xs)) \<Longrightarrow> k x < k r \<Longrightarrow> k r \<notin> k ` set xs \<Longrightarrow> sorted (map k (elevator_insert k r (x # xs)))"
proof (induction xs arbitrary: x)
  case (Cons y ys)
  show ?case
  proof (cases "(k x < k r \<or> \<not> k x < k y) \<and> k r < k y")
    case True
    with Cons.prems show ?thesis by auto
  next
    case False
    with Cons.prems have "k y < k r" by auto
    with Cons have "sorted (map k (elevator_insert k r (y # ys)))" by simp
    moreover have "\<forall>z \<in> set (elevator_insert k r (y # ys)). k x \<le> k z"
      using Cons.prems by (auto simp: set_elevator_insert)
    ultimately show ?thesis using False by auto
  qed
qed simp

lemma two_sweeps_first:
  assumes "two_sweeps (k # ks)"
  obtains as bs where "k # ks = (k # as) @ bs" "sorted (k # as)" "sorted bs"
proof -
  from assms obtain as bs where *: "k # ks = as @ bs" "sorted as" "sorted bs" by (auto simp: two_sweeps_def)
  show ?thesis
  proof (cases as)
    case Nil
    then show ?thesis using * that [of ks "[]"] by auto
  next
    case (Cons a as')
    then show ?thesis using * that [of as' bs] by auto
  qed
qed

lemma two_sweeps_tl:
  assumes "two_sweeps (k # k' # ks)"
  shows "if k \<le> k' then two_sweeps (k' # ks) else sorted (k' # ks)"
proof -
  from assms obtain as bs where *: "k # k' # ks = (k # as) @ bs" "sorted (k # as)" "sorted bs" by (rule two_sweeps_first)
  show ?thesis
  proof (cases as)
    case Nil
    then have "sorted (k' # ks)" using * by auto
    then show ?thesis unfolding two_sweeps_def by (metis append_Nil2 sorted_simps(1))
  next
    case (Cons a as')
    then have "k' # ks = (k' # as') @ bs" "sorted (k' # as')" "k \<le> k'" using * by auto
    with *(3) have "two_sweeps (k' # ks)" unfolding two_sweeps_def by blast
    with \<open>k \<le> k'\<close> show ?thesis by simp
  qed
qed

lemma two_sweeps_Cons: "two_sweeps (k' # ks) \<Longrightarrow> k \<le> k' \<Longrightarrow> two_sweeps (k # k' # ks)"
proof (erule two_sweeps_first)
  fix as bs assume "k' # ks = (k' # as) @ bs" "sorted (k' # as)" "sorted bs" "k \<le> k'"
  then show "two_sweeps (k # k' # ks)"
    unfolding two_sweeps_def by (intro exI [of _ "k # k' # as"] exI [of _ bs]) auto
qed

lemma two_sweeps_sorted: "sorted ks \<Longrightarrow> two_sweeps (k # ks)"
  unfolding two_sweeps_def by (intro exI [of _ "[k]"] exI [of _ ks]) simp

lemma elevator_two_sweeps:
  assumes "two_sweeps (map k (x # xs))" and "distinct (map k (r # x # xs))"
  shows "two_sweeps (map k (elevator_insert k r (x # xs)))"
  using assms
proof (induction xs arbitrary: x)
  case Nil
  then show ?case by (simp add: two_sweeps_def) (metis append_Cons append_Nil sorted1)
next
  case (Cons y ys)
  note tl = two_sweeps_tl [of "k x" "k y" "map k ys"]
  show ?case
  proof (cases "k x < k y")
    case True
    then have ts: "two_sweeps (map k (y # ys))" using tl Cons.prems(1) by auto
    show ?thesis
    proof (cases "k x < k r \<and> k r < k y")
      case True
      then show ?thesis using ts by (auto intro!: two_sweeps_Cons)
    next
      case False
      obtain zs where zs: "elevator_insert k r (y # ys) = y # zs" using elevator_insert_Cons [of k r y ys] by blast
      have "two_sweeps (map k (elevator_insert k r (y # ys)))" using Cons ts by simp
      then show ?thesis using False True zs by (auto intro!: two_sweeps_Cons)
    qed
  next
    case False
    with Cons.prems have s: "sorted (map k (y # ys))" using tl by auto
    show ?thesis
    proof (cases "k r < k y")
      case True
      then have "sorted (map k (r # y # ys))" using s by auto
      then show ?thesis using False True two_sweeps_sorted by fastforce
    next
      case f: False
      then have "sorted (map k (elevator_insert k r (y # ys)))" using Cons.prems by (intro elevator_insert_sorted s) auto
      then show ?thesis using False f two_sweeps_sorted by fastforce
    qed
  qed
qed

subsection \<open>The linked request queue\<close>

fun rq_path :: "(nat \<Rightarrow> request) \<Rightarrow> nat option \<Rightarrow> nat list \<Rightarrow> bool" where
  "rq_path R p [] \<longleftrightarrow> p = None"
| "rq_path R p (x # xs) \<longleftrightarrow> p = Some x \<and> rq_path R (r_next (R x)) xs"

lemma rq_path_cong: "(\<And>x. x \<in> set xs \<Longrightarrow> r_next (R x) = r_next (R' x)) \<Longrightarrow> rq_path R p xs = rq_path R' p xs"
  by (induction xs arbitrary: p) auto

lemma rq_path_insert:
  assumes "rq_path R p (pre @ x # post)" and "distinct (pre @ x # post)" and "r \<notin> set (pre @ x # post)"
    and "r_next (R' r) = r_next (R x)" and "r_next (R' x) = Some r"
    and "\<And>y. y \<noteq> r \<Longrightarrow> y \<noteq> x \<Longrightarrow> r_next (R' y) = r_next (R y)"
  shows "rq_path R' p (pre @ x # r # post)"
  using assms(1-3)
proof (induction pre arbitrary: p)
  case Nil
  have "r_next (R' y) = r_next (R y)" if "y \<in> set post" for y
    using Nil that by (intro assms(6)) auto
  with Nil have "rq_path R' (r_next (R x)) post" using rq_path_cong [of post R' R] by simp
  with Nil assms(4,5) show ?case by simp
next
  case (Cons y pre)
  then show ?case using assms(6) [of y] by auto
qed

lemma elevator_find_spec:
  assumes "rq_path (request_tab s) (Some h) (h # xs)"
  shows "\<exists>tmp pre post. elevator_find req h s = Ok tmp s \<and> h # xs = pre @ tmp # post \<and>
    elevator_insert (\<lambda>i. rkey (request_tab s i)) req (h # xs) = pre @ tmp # req # post"
  using assms
proof (induction xs arbitrary: h)
  case Nil
  then show ?case unfolding elevator_find_def by (subst iterK_unfold) (simp, blast)
next
  case (Cons y ys)
  let ?k = "\<lambda>i. rkey (request_tab s i)"
  have n: "r_next (request_tab s h) = Some y" using Cons.prems by simp
  show ?case
  proof (cases "(?k h < ?k req \<or> \<not> ?k h < ?k y) \<and> ?k req < ?k y")
    case True
    then have "elevator_find req h s = Ok h s"
      unfolding elevator_find_def by (subst iterK_unfold) (simp add: n elevator_stop_def IN_ORDER_key)
    with True show ?thesis by (intro exI [of _ h] exI [of _ "[]"] exI [of _ "y # ys"]) simp
  next
    case False
    then have f: "elevator_find req h s = elevator_find req y s"
      unfolding elevator_find_def by (subst iterK_unfold) (auto simp: n elevator_stop_def IN_ORDER_key)
    obtain tmp pre post where *: "elevator_find req y s = Ok tmp s" "y # ys = pre @ tmp # post"
      "elevator_insert ?k req (y # ys) = pre @ tmp # req # post"
      using Cons by fastforce
    have "h # y # ys = (h # pre) @ tmp # post" using *(2) by simp
    moreover have "elevator_insert ?k req (h # y # ys) = (h # pre) @ tmp # req # post" using False *(3) by auto
    ultimately show ?thesis using f *(1) by metis
  qed
qed

text \<open>
  C13. \<^verbatim>\<open>add_request\<close> on a busy device links the new request into the queue exactly where the elevator
  rule puts it in the list, behind the request being served, loses and reorders none of the others, and
  changes nothing else but the buffer's dirty mark. If the queue was one of at most two ascending sweeps over the disk
  (reads before writes, then by device and sector) and no request equals another, it still is.
\<close>

theorem add_request_elevator:
  assumes "current_request s major = Some h" and "rq_path (request_tab s) (Some h) (h # xs)"
    and "distinct (req # h # xs)" and "k = (\<lambda>i. rkey (request_tab s i))"
  shows "\<exists>t. add_request E major req s = Ok () t \<and> current_request t = current_request s \<and>
    rq_path (request_tab t) (Some h) (elevator_insert k req (h # xs)) \<and>
    (\<forall>i. rkey (request_tab t i) = k i) \<and>
    (distinct (map k (req # h # xs)) \<longrightarrow> two_sweeps (map k (h # xs)) \<longrightarrow> two_sweeps (map k (elevator_insert k req (h # xs))))"
proof -
  define u where "u = upd_req req (r_next_update (\<lambda>_. None)) s"
  define v where "v = (case r_bh (request_tab u req) of None \<Rightarrow> u | Some bh \<Rightarrow> upd_buf bh (b_dirt_update (\<lambda>_. False)) u)"
  have v: "request_tab v = request_tab u" "current_request v = current_request s"
    by (simp_all add: v_def u_def split: option.splits)
  have key: "rkey (request_tab v i) = k i" for i by (simp add: v u_def assms(4) rkey_def)
  have p: "rq_path (request_tab v) (Some h) (h # xs)"
    using assms(2,3) by (subst rq_path_cong [of _ _ "request_tab s"]) (auto simp: v u_def)
  obtain tmp pre post where f: "elevator_find req h v = Ok tmp v" "h # xs = pre @ tmp # post"
    "elevator_insert k req (h # xs) = pre @ tmp # req # post"
    using elevator_find_spec [OF p, of req] by (auto simp: key)
  define t where "t = upd_req tmp (r_next_update (\<lambda>_. Some req)) (upd_req req (r_next_update (\<lambda>_. r_next (request_tab v tmp))) v)"
  have "add_request E major req s = Ok () t"
    using f(1) assms(1) v unfolding add_request_def u_def [symmetric] Let_def v_def [symmetric] by (simp add: t_def)
  moreover have "rq_path (request_tab t) (Some h) (pre @ tmp # req # post)"
  proof (rule rq_path_insert [of "request_tab v"])
    show "rq_path (request_tab v) (Some h) (pre @ tmp # post)" using p f(2) by simp
    show "distinct (pre @ tmp # post)" "req \<notin> set (pre @ tmp # post)" using assms(3) f(2) by simp_all
    then show "r_next (request_tab t req) = r_next (request_tab v tmp)" "r_next (request_tab t tmp) = Some req"
      by (auto simp: t_def)
  qed (simp add: t_def)
  moreover have "rkey (request_tab t i) = k i" for i using key by (simp add: t_def rkey_def)
  moreover have "current_request t = current_request s" by (simp add: t_def v)
  ultimately show ?thesis using f(3) elevator_two_sweeps [of k h xs req] by simp
qed

definition busy_disk :: fs_st where
  "busy_disk = (fs_boot mm_empty)\<lparr>current_request := [3 \<mapsto> 0],
     request_tab := (\<lambda>i. \<lparr>r_dev = 0x301, r_cmd = 0, r_errors = 0, r_sector = (if i = 0 then 50 else if i = 1 then 90 else 20),
       r_nr_sectors = 2, r_bh = None, r_next = (if i = 0 then Some 1 else None)\<rparr>)\<rparr>"

theorem add_request_elevator_witness:
  "\<exists>t. add_request idle_ctx 3 2 busy_disk = Ok () t \<and> rq_path (request_tab t) (Some 0) [0, 1, 2] \<and>
    two_sweeps (map (\<lambda>i. rkey (request_tab busy_disk i)) [0, 1, 2])"
proof -
  have c: "current_request busy_disk 3 = Some 0" "rq_path (request_tab busy_disk) (Some 0) (0 # [1])" "distinct (2 # 0 # [1 :: nat])"
    by (simp_all add: busy_disk_def)
  let ?k = "\<lambda>i. rkey (request_tab busy_disk i)"
  have "distinct (map ?k [2, 0, 1])" by (simp add: busy_disk_def rkey_def)
  moreover have "two_sweeps (map ?k [0, 1])" by (simp add: two_sweeps_sorted)
  moreover have "elevator_insert ?k 2 [0, 1] = [0, 1, 2]" by (simp add: busy_disk_def rkey_def less_prod_def')
  ultimately show ?thesis using add_request_elevator [OF c refl, of idle_ctx] by auto
qed

subsection \<open>The RAM disk\<close>

lemma end_request_idle:
  assumes "current_request s m = Some c" and "r_bh (request_tab s c) = Some bh" and "r_next (request_tab s c) = None"
  shows "buf (end_request m u s) = (buf s)(bh := (buf s bh)\<lparr>b_uptodate := u, b_lock := False\<rparr>)"
    "current_request (end_request m u s) = (current_request s)(m := None)" "rd_mem (end_request m u s) = rd_mem s"
    "rd_length (end_request m u s) = rd_length s" "rd_start (end_request m u s) = rd_start s"
    "request_fn (end_request m u s) = request_fn s"
    "request_tab (end_request m u s) = (request_tab s)(c := (request_tab s c)\<lparr>r_dev := - 1\<rparr>)"
  using assms by (simp_all add: end_request_def unlock_buffer_def Let_def)

text \<open>The block lies on the disk, and the disk lies in memory.\<close>

definition rd_block :: "u32 \<Rightarrow> 'z fs_st_scheme \<Rightarrow> bool" where
  "rd_block b s \<longleftrightarrow> unat b * 1024 + 1024 \<le> unat (rd_length s) \<and> unat (rd_start s) + unat (rd_length s) < 2 ^ 32"

lemma rd_block_addr:
  assumes "rd_block b s"
  shows "unat (push_bit 9 (push_bit 1 b)) = 1024 * unat b"
    "\<not> rd_start s + push_bit 9 (push_bit 1 b) + push_bit 9 2 > rd_start s + rd_length s"
proof -
  have le: "1024 * unat b + 1024 \<le> unat (rd_length s)" "unat (rd_start s) + unat (rd_length s) < 4294967296"
    using assms by (simp_all add: rd_block_def)
  have p: "push_bit 9 (push_bit 1 b) = 1024 * b" by (simp add: push_bit_eq_mult)
  show u: "unat (push_bit 9 (push_bit 1 b)) = 1024 * unat b"
    unfolding p using le unsigned_less [of "rd_length s", where ?'a = nat] by (simp add: unat_word_ariths)
  have "unat (rd_start s + push_bit 9 (push_bit 1 b) + push_bit 9 2) = unat (rd_start s) + 1024 * unat b + 1024"
    using le u by (simp add: unat_word_ariths p)
  moreover have "unat (rd_start s + rd_length s) = unat (rd_start s) + unat (rd_length s)"
    using le by (simp add: unat_word_ariths)
  ultimately show "\<not> rd_start s + push_bit 9 (push_bit 1 b) + push_bit 9 2 > rd_start s + rd_length s"
    using le by (simp add: word_less_nat_alt)
qed

lemma do_rd_request_last: "rd_round s = Ok (Inl ()) t \<Longrightarrow> rd_round t = Ok (Inr ()) t \<Longrightarrow> do_rd_request s = Ok () t"
  unfolding do_rd_request_def by (subst iterK_unfold, simp, subst iterK_unfold, simp)

lemma do_rd_request_one:
  assumes "current_request s 1 = Some c" and "request_tab s c = fill_request rw bh u" and "b_lock (buf s bh)"
    and "b_dev (buf u bh) = 0x101" and "rd_block (b_blocknr (buf u bh)) s" and "rw \<in> {READ, WRITE}"
  shows "do_rd_request s = Ok () (end_request 1 True
    (if rw = WRITE then s\<lparr>rd_mem := copy_bytes 1024 (b_data (buf s bh)) 0 (rd_mem s) (1024 * unat (b_blocknr (buf u bh)))\<rparr>
     else upd_buf bh (\<lambda>b. b\<lparr>b_data := copy_bytes 1024 (rd_mem s) (1024 * unat (b_blocknr (buf u bh))) (b_data b) 0\<rparr>) s))"
proof -
  let ?t = "end_request 1 True
    (if rw = WRITE then s\<lparr>rd_mem := copy_bytes 1024 (b_data (buf s bh)) 0 (rd_mem s) (1024 * unat (b_blocknr (buf u bh)))\<rparr>
     else upd_buf bh (\<lambda>b. b\<lparr>b_data := copy_bytes 1024 (rd_mem s) (1024 * unat (b_blocknr (buf u bh))) (b_data b) 0\<rparr>) s)"
  note a = rd_block_addr [OF assms(5)]
  have "rd_round s = Ok (Inl ()) ?t"
    using assms a by (auto simp: rd_round_def fill_request_def Let_def MAJOR_def MINOR_def)
  moreover have "current_request ?t 1 = None"
    using assms by (simp add: end_request_idle [where c = c and bh = bh] fill_request_def)
  then have "rd_round ?t = Ok (Inr ()) ?t" by (simp add: rd_round_def)
  ultimately show ?thesis by (rule do_rd_request_last)
qed

text \<open>Block I/O on the RAM disk when it is idle: done when the call returns, without sleeping.\<close>

lemma rd_transfer:
  assumes "request_fn s 1" "current_request s 1 = None" "free_request rw s = Some c"
    and "b_dev (buf s bh) = 0x101" "\<not> b_lock (buf s bh)" "rd_block (b_blocknr (buf s bh)) s"
    and "rw = WRITE \<and> b_dirt (buf s bh) \<or> rw = READ \<and> \<not> b_uptodate (buf s bh)"
  shows "\<exists>t. ll_rw_block E rw bh s = Ok () t \<and> current_request t 1 = None \<and> request_fn t = request_fn s \<and>
    rd_start t = rd_start s \<and> rd_length t = rd_length s \<and> r_dev (request_tab t c) < 0 \<and>
    (\<forall>i. i \<noteq> c \<longrightarrow> request_tab t i = request_tab s i) \<and>
    (if rw = WRITE
     then rd_mem t = copy_bytes 1024 (b_data (buf s bh)) 0 (rd_mem s) (1024 * unat (b_blocknr (buf s bh))) \<and>
       buf t = (buf s)(bh := (buf s bh)\<lparr>b_uptodate := True, b_dirt := False, b_lock := False\<rparr>)
     else rd_mem t = rd_mem s \<and>
       buf t = (buf s)(bh := (buf s bh)\<lparr>b_data := copy_bytes 1024 (rd_mem s) (1024 * unat (b_blocknr (buf s bh))) (b_data (buf s bh)) 0,
         b_uptodate := True, b_dirt := False, b_lock := False\<rparr>))"
proof -
  define u where "u = upd_buf bh (b_lock_update (\<lambda>_. True)) s"
  define v where "v = (upd_buf bh (b_dirt_update (\<lambda>_. False)) (upd_req c (\<lambda>_. fill_request rw bh u) u))
      \<lparr>current_request := (current_request u)(1 := Some c)\<rparr>"
  have fr: "free_request rw u = Some c" using assms(3) by (simp add: u_def free_request_def)
  have ub: "b_dev (buf u bh) = 0x101" "b_blocknr (buf u bh) = b_blocknr (buf s bh)" using assms by (simp_all add: u_def)
  have "rd_block (b_blocknr (buf u bh)) v" using assms ub by (simp add: v_def u_def rd_block_def)
  then have d: "do_rd_request v = Ok () (end_request 1 True
    (if rw = WRITE then v\<lparr>rd_mem := copy_bytes 1024 (b_data (buf v bh)) 0 (rd_mem v) (1024 * unat (b_blocknr (buf u bh)))\<rparr>
     else upd_buf bh (\<lambda>b. b\<lparr>b_data := copy_bytes 1024 (rd_mem v) (1024 * unat (b_blocknr (buf u bh))) (b_data b) 0\<rparr>) v))"
    using assms ub by (intro do_rd_request_one [of v c rw bh u]) (auto simp: v_def u_def)
  have "add_request E 1 c (upd_req c (\<lambda>_. fill_request rw bh u) u) = do_rd_request v"
    using assms(2) by (simp add: add_request_def Let_def fill_request_def call_request_fn_def v_def u_def upd_req_def)
  then have "queue_request E 1 rw False bh u = bindK (do_rd_request v) (\<lambda>_ s. Ok () s)"
    unfolding queue_request_def using fr d by (subst iterK_unfold) simp
  moreover have "ll_rw_block E rw bh s = queue_request E 1 rw False bh u"
    using assms by (auto simp: ll_rw_block_def MAJOR_def make_request_def lock_buffer_def u_def Let_def)
  ultimately have "ll_rw_block E rw bh s = do_rd_request v" using d by simp
  then show ?thesis
    using assms(1,2) ub unfolding d
    by (auto simp: end_request_idle [where c = c and bh = bh] v_def u_def fill_request_def fun_eq_iff)
qed


definition ram_disk :: fs_st where
  "ram_disk = (snd (rd_init 0x200000 0x100000 (fs_boot mm_empty)))\<lparr>buf := (\<lambda>i. empty_buffer\<lparr>b_dev := 0x101, b_blocknr := 7, b_dirt := True, b_data := (\<lambda>k. word_of_nat k)\<rparr>)\<rparr>"


end
