(* ===== verification/Buffer_Cache.thy ===== *)
theory Buffer_Cache
  imports Block_Dev
begin

unbundle bit_operations_syntax

section \<open>The buffer cache\<close>

text \<open>
  \<^verbatim>\<open>fs/buffer.c\<close>, with the parts of \<^verbatim>\<open>fs/super.c\<close> and \<^verbatim>\<open>fs/inode.c\<close> that it calls when it has to write
  inodes back before it can reuse a buffer. \<^verbatim>\<open>getblk\<close> calls \<^verbatim>\<open>sync_dev\<close>, which calls \<^verbatim>\<open>sync_inodes\<close>,
  \<^verbatim>\<open>write_inode\<close> and \<^verbatim>\<open>bread\<close>, which calls \<^verbatim>\<open>getblk\<close> again. The functions on this cycle get the \<^verbatim>\<open>getblk\<close>
  they call as the argument \<open>gb\<close> (suffix \<open>_of\<close>), and \<open>getblk_n n\<close> ties the knot \<open>n\<close> levels deep.
\<close>

subsection \<open>Hash queues and free list\<close>

definition wait_on_buffer :: "('z fs_st_scheme) ctx \<Rightarrow> nat \<Rightarrow> 'z fs_st_scheme \<Rightarrow> (unit, 'z fs_st_scheme) outcome" where
  "wait_on_buffer E bh s = wait_while E (\<lambda>s. b_lock (buf s bh)) (WqBuffer bh) s"

definition hashfn :: "u16 \<Rightarrow> u32 \<Rightarrow> nat" where
  "hashfn dev block = unat (ucast dev XOR block) mod NR_HASH"

text \<open>\<^verbatim>\<open>remove_from_queues\<close> and \<^verbatim>\<open>insert_into_queues\<close>, each with its hash queue part and its free list part.\<close>

definition hash_unlink :: "nat \<Rightarrow> 'z fs_st_scheme \<Rightarrow> 'z fs_st_scheme" where
  "hash_unlink bh s =
     (let s = (case b_next (buf s bh) of None \<Rightarrow> s | Some n \<Rightarrow> upd_buf n (b_prev_update (\<lambda>_. b_prev (buf s bh))) s);
          s = (case b_prev (buf s bh) of None \<Rightarrow> s | Some p \<Rightarrow> upd_buf p (b_next_update (\<lambda>_. b_next (buf s bh))) s);
          h = hashfn (b_dev (buf s bh)) (b_blocknr (buf s bh))
      in if hash_table s h = Some bh then s\<lparr>hash_table := (hash_table s)(h := b_next (buf s bh))\<rparr> else s)"

definition free_unlink :: "nat \<Rightarrow> 'z fs_st_scheme \<Rightarrow> (unit, 'z fs_st_scheme) outcome" where
  "free_unlink bh s =
     (if b_prev_free (buf s bh) = None \<or> b_next_free (buf s bh) = None then Panic ''Free block list corrupted''
      else let s = upd_buf (the (b_prev_free (buf s bh))) (b_next_free_update (\<lambda>_. b_next_free (buf s bh))) s;
               s = upd_buf (the (b_next_free (buf s bh))) (b_prev_free_update (\<lambda>_. b_prev_free (buf s bh))) s
           in Ok () (if free_list s = bh then s\<lparr>free_list := the (b_next_free (buf s bh))\<rparr> else s))"

definition remove_from_queues :: "nat \<Rightarrow> 'z fs_st_scheme \<Rightarrow> (unit, 'z fs_st_scheme) outcome" where
  "remove_from_queues bh s = free_unlink bh (hash_unlink bh s)"

definition free_link :: "nat \<Rightarrow> 'z fs_st_scheme \<Rightarrow> 'z fs_st_scheme" where
  "free_link bh s =
     (let fl = free_list s; s = upd_buf bh (\<lambda>b. b\<lparr>b_next_free := Some fl, b_prev_free := b_prev_free (buf s fl)\<rparr>) s;
          s = upd_buf (the (b_prev_free (buf s fl))) (b_next_free_update (\<lambda>_. Some bh)) s
      in upd_buf fl (b_prev_free_update (\<lambda>_. Some bh)) s)"

text \<open>
  The last line of \<^verbatim>\<open>insert_into_queues\<close> stores through \<^verbatim>\<open>bh->b_next\<close> also when it is \<^verbatim>\<open>NULL\<close>. The field
  \<^verbatim>\<open>b_prev\<close> is 20 bytes into the structure of 36 bytes, so the store goes to physical address 20.
\<close>

definition hash_link :: "nat \<Rightarrow> 'z fs_st_scheme \<Rightarrow> 'z fs_st_scheme" where
  "hash_link bh s =
     (let s = upd_buf bh (\<lambda>b. b\<lparr>b_prev := None, b_next := None\<rparr>) s;
          h = hashfn (b_dev (buf s bh)) (b_blocknr (buf s bh))
      in if b_dev (buf s bh) = 0 then s
         else let s = upd_buf bh (b_next_update (\<lambda>_. hash_table s h)) s;
                  s = s\<lparr>hash_table := (hash_table s)(h := Some bh)\<rparr>
              in case b_next (buf s bh) of
                   None \<Rightarrow> poke 20 (start_buffer s + 36 * word_of_nat bh) s
                 | Some n \<Rightarrow> upd_buf n (b_prev_update (\<lambda>_. Some bh)) s)"

definition insert_into_queues :: "nat \<Rightarrow> 'z fs_st_scheme \<Rightarrow> 'z fs_st_scheme" where
  "insert_into_queues bh s = hash_link bh (free_link bh s)"

definition holds :: "u16 \<Rightarrow> u32 \<Rightarrow> buffer_head \<Rightarrow> bool" where
  "holds dev block b \<longleftrightarrow> b_dev b = dev \<and> b_blocknr b = block"

definition find_buffer :: "u16 \<Rightarrow> u32 \<Rightarrow> 'z fs_st_scheme \<Rightarrow> (nat option, 'z fs_st_scheme) outcome" where
  "find_buffer dev block s = iterK (\<lambda>tmp s.
     case tmp of
       None \<Rightarrow> Ok (Inr None) s
     | Some i \<Rightarrow> if holds dev block (buf s i) then Ok (Inr (Some i)) s else Ok (Inl (b_next (buf s i))) s)
     (hash_table s (hashfn dev block)) s"

definition get_hash_table :: "('z fs_st_scheme) ctx \<Rightarrow> u16 \<Rightarrow> u32 \<Rightarrow> 'z fs_st_scheme \<Rightarrow> (nat option, 'z fs_st_scheme) outcome" where
  "get_hash_table E dev block s = iterK (\<lambda>(_ :: unit) s.
     bindK (find_buffer dev block s) (\<lambda>r s.
     case r of
       None \<Rightarrow> Ok (Inr None) s
     | Some bh \<Rightarrow>
         bindK (wait_on_buffer E bh (upd_buf bh (b_count_update (\<lambda>c. c + 1)) s)) (\<lambda>_ s.
         if holds dev block (buf s bh) then Ok (Inr (Some bh)) s
         else Ok (Inl ()) (upd_buf bh (b_count_update (\<lambda>c. c - 1)) s)))) () s"

definition brelse :: "('z fs_st_scheme) ctx \<Rightarrow> nat option \<Rightarrow> 'z fs_st_scheme \<Rightarrow> (unit, 'z fs_st_scheme) outcome" where
  "brelse E b s =
     (case b of
        None \<Rightarrow> Ok () s
      | Some bh \<Rightarrow> bindK (wait_on_buffer E bh s) (\<lambda>_ s.
          if b_count (buf s bh) = 0 then Panic ''Trying to free free buffer''
          else Ok () (wake_up WqBufferWait (upd_buf bh (b_count_update (\<lambda>c. c - 1)) s))))"

subsection \<open>Super blocks in memory\<close>

definition lock_super :: "('z fs_st_scheme) ctx \<Rightarrow> nat \<Rightarrow> 'z fs_st_scheme \<Rightarrow> (unit, 'z fs_st_scheme) outcome" where
  "lock_super E sb s =
     bindK (wait_while E (\<lambda>s. s_lock (sblock s sb)) (WqSuper sb) s) (\<lambda>_ s.
     Ok () (upd_super sb (s_lock_update (\<lambda>_. True)) s))"

definition free_super :: "nat \<Rightarrow> 'z fs_st_scheme \<Rightarrow> 'z fs_st_scheme" where
  "free_super sb s = wake_up (WqSuper sb) (upd_super sb (s_lock_update (\<lambda>_. False)) s)"

definition wait_on_super :: "('z fs_st_scheme) ctx \<Rightarrow> nat \<Rightarrow> 'z fs_st_scheme \<Rightarrow> (unit, 'z fs_st_scheme) outcome" where
  "wait_on_super E sb s = wait_while E (\<lambda>s. s_lock (sblock s sb)) (WqSuper sb) s"

definition get_super :: "('z fs_st_scheme) ctx \<Rightarrow> u16 \<Rightarrow> 'z fs_st_scheme \<Rightarrow> (nat option, 'z fs_st_scheme) outcome" where
  "get_super E dev s =
     (if dev = 0 then Ok None s
      else iterK (\<lambda>i s.
        if i \<ge> NR_SUPER then Ok (Inr None) s
        else if s_dev (sblock s i) = dev
        then bindK (wait_on_super E i s) (\<lambda>_ s. if s_dev (sblock s i) = dev then Ok (Inr (Some i)) s else Ok (Inl 0) s)
        else Ok (Inl (i + 1)) s) 0 s)"

subsection \<open>Writing inodes back\<close>

definition wait_on_inode :: "('z fs_st_scheme) ctx \<Rightarrow> nat \<Rightarrow> 'z fs_st_scheme \<Rightarrow> (unit, 'z fs_st_scheme) outcome" where
  "wait_on_inode E i s = wait_while E (\<lambda>s. i_lock (inode s i)) (WqInode i) s"

definition lock_inode :: "('z fs_st_scheme) ctx \<Rightarrow> nat \<Rightarrow> 'z fs_st_scheme \<Rightarrow> (unit, 'z fs_st_scheme) outcome" where
  "lock_inode E i s = bindK (wait_on_inode E i s) (\<lambda>_ s. Ok () (upd_inode i (i_lock_update (\<lambda>_. True)) s))"

definition unlock_inode :: "nat \<Rightarrow> 'z fs_st_scheme \<Rightarrow> 'z fs_st_scheme" where
  "unlock_inode i s = wake_up (WqInode i) (upd_inode i (i_lock_update (\<lambda>_. False)) s)"

text \<open>A \<^verbatim>\<open>struct d_inode\<close> of 32 bytes at an offset of a block.\<close>

definition put_d_inode :: "m_inode \<Rightarrow> nat \<Rightarrow> block \<Rightarrow> block" where
  "put_d_inode n off d =
     (let d = put16 (i_mode n) off d; d = put16 (i_uid n) (off + 2) d; d = put32 (i_size n) (off + 4) d;
          d = put32 (i_mtime n) (off + 8) d; d = d(off + 12 := i_gid n, off + 13 := i_nlinks n)
      in fold (\<lambda>k. put16 (i_zone n k) (off + 14 + 2 * k)) [0..<9] d)"

definition get_d_inode :: "block \<Rightarrow> nat \<Rightarrow> m_inode \<Rightarrow> m_inode" where
  "get_d_inode d off n =
     n\<lparr>i_mode := get16 d off, i_uid := get16 d (off + 2), i_size := get32 d (off + 4), i_mtime := get32 d (off + 8),
       i_gid := d (off + 12), i_nlinks := d (off + 13), i_zone := (\<lambda>k. if k < 9 then get16 d (off + 14 + 2 * k) else i_zone n k)\<rparr>"

definition inode_block :: "super_block \<Rightarrow> u16 \<Rightarrow> u32" where
  "inode_block sb nr = 2 + ucast (s_imap_blocks sb) + ucast (s_zmap_blocks sb) + (ucast nr - 1) div 32"

definition inode_offset :: "u16 \<Rightarrow> nat" where
  "inode_offset nr = 32 * unat ((ucast nr - 1 :: u32) mod 32)"

definition bread_of ::
    "('z fs_st_scheme) ctx \<Rightarrow> (u16 \<Rightarrow> u32 \<Rightarrow> 'z fs_st_scheme \<Rightarrow> (nat, 'z fs_st_scheme) outcome)
       \<Rightarrow> u16 \<Rightarrow> u32 \<Rightarrow> 'z fs_st_scheme \<Rightarrow> (nat option, 'z fs_st_scheme) outcome" where
  "bread_of E gb dev block s =
     bindK (gb dev block s) (\<lambda>bh s.
     if b_uptodate (buf s bh) then Ok (Some bh) s
     else bindK (ll_rw_block E READ bh s) (\<lambda>_ s.
          bindK (wait_on_buffer E bh s) (\<lambda>_ s.
          if b_uptodate (buf s bh) then Ok (Some bh) s
          else bindK (brelse E (Some bh) s) (\<lambda>_ s. Ok None s))))"

definition write_inode_of ::
    "('z fs_st_scheme) ctx \<Rightarrow> (u16 \<Rightarrow> u32 \<Rightarrow> 'z fs_st_scheme \<Rightarrow> (nat, 'z fs_st_scheme) outcome)
       \<Rightarrow> nat \<Rightarrow> 'z fs_st_scheme \<Rightarrow> (unit, 'z fs_st_scheme) outcome" where
  "write_inode_of E gb i s =
     bindK (lock_inode E i s) (\<lambda>_ s.
     if \<not> i_dirt (inode s i) \<or> i_dev (inode s i) = 0 then Ok () (unlock_inode i s)
     else bindK (get_super E (i_dev (inode s i)) s) (\<lambda>sb s.
       case sb of
         None \<Rightarrow> Panic ''trying to write inode without device''
       | Some sb \<Rightarrow>
           bindK (bread_of E gb (i_dev (inode s i)) (inode_block (sblock s sb) (i_num (inode s i))) s) (\<lambda>bh s.
           case bh of
             None \<Rightarrow> Panic ''unable to read i-node block''
           | Some bh \<Rightarrow>
               let s = upd_buf bh (\<lambda>b. b\<lparr>b_data := put_d_inode (inode s i) (inode_offset (i_num (inode s i))) (b_data b), b_dirt := True\<rparr>) s;
                   s = upd_inode i (i_dirt_update (\<lambda>_. False)) s
               in bindK (brelse E (Some bh) s) (\<lambda>_ s. Ok () (unlock_inode i s)))))"

definition sync_inodes_of ::
    "('z fs_st_scheme) ctx \<Rightarrow> (u16 \<Rightarrow> u32 \<Rightarrow> 'z fs_st_scheme \<Rightarrow> (nat, 'z fs_st_scheme) outcome)
       \<Rightarrow> 'z fs_st_scheme \<Rightarrow> (unit, 'z fs_st_scheme) outcome" where
  "sync_inodes_of E gb s = forK [0..<NR_INODE] (\<lambda>i s.
     bindK (wait_on_inode E i s) (\<lambda>_ s.
     if i_dirt (inode s i) \<and> \<not> i_pipe (inode s i) then write_inode_of E gb i s else Ok () s)) s"

subsection \<open>Writing buffers back\<close>

definition sync_buffers :: "('z fs_st_scheme) ctx \<Rightarrow> u16 \<Rightarrow> 'z fs_st_scheme \<Rightarrow> (unit, 'z fs_st_scheme) outcome" where
  "sync_buffers E dev s = forK [0..<NR_BUFFERS s] (\<lambda>bh s.
     if b_dev (buf s bh) \<noteq> dev then Ok () s
     else bindK (wait_on_buffer E bh s) (\<lambda>_ s.
       if b_dev (buf s bh) = dev \<and> b_dirt (buf s bh) then ll_rw_block E WRITE bh s else Ok () s)) s"

definition sync_dev_of ::
    "('z fs_st_scheme) ctx \<Rightarrow> (u16 \<Rightarrow> u32 \<Rightarrow> 'z fs_st_scheme \<Rightarrow> (nat, 'z fs_st_scheme) outcome)
       \<Rightarrow> u16 \<Rightarrow> 'z fs_st_scheme \<Rightarrow> (int, 'z fs_st_scheme) outcome" where
  "sync_dev_of E gb dev s =
     bindK (sync_buffers E dev s) (\<lambda>_ s.
     bindK (sync_inodes_of E gb s) (\<lambda>_ s.
     bindK (sync_buffers E dev s) (\<lambda>_ s. Ok 0 s)))"

definition BADNESS :: "buffer_head \<Rightarrow> nat" where
  "BADNESS b = (if b_dirt b then 2 else 0) + (if b_lock b then 1 else 0)"

text \<open>The \<^verbatim>\<open>do ... while\<close> of \<^verbatim>\<open>getblk\<close>: the best unused buffer in the order of the free list.\<close>

definition free_scan :: "nat \<times> nat option \<Rightarrow> 'z fs_st_scheme \<Rightarrow> ((nat \<times> nat option) + nat option, 'z fs_st_scheme) outcome" where
  "free_scan = (\<lambda>(tmp, bh) s.
     let better = (b_count (buf s tmp) = 0 \<and> (case bh of None \<Rightarrow> True | Some b \<Rightarrow> BADNESS (buf s tmp) < BADNESS (buf s b)));
         bh = (if better then Some tmp else bh)
     in if better \<and> BADNESS (buf s tmp) = 0 then Ok (Inr bh) s
        else let nx = the (b_next_free (buf s tmp))
             in if nx = free_list s then Ok (Inr bh) s else Ok (Inl (nx, bh)) s)"

definition best_free :: "'z fs_st_scheme \<Rightarrow> (nat option, 'z fs_st_scheme) outcome" where
  "best_free s = iterK free_scan (free_list s, None) s"

text \<open>\<^verbatim>\<open>while (bh->b_dirt) ...\<close>; the result \<open>False\<close> is \<^verbatim>\<open>goto repeat\<close>.\<close>

definition clean_buffer ::
    "('z fs_st_scheme) ctx \<Rightarrow> (u16 \<Rightarrow> 'z fs_st_scheme \<Rightarrow> (int, 'z fs_st_scheme) outcome) \<Rightarrow> nat \<Rightarrow> 'z fs_st_scheme
       \<Rightarrow> (bool, 'z fs_st_scheme) outcome" where
  "clean_buffer E sync bh s = iterK (\<lambda>(_ :: unit) s.
     if \<not> b_dirt (buf s bh) then Ok (Inr True) s
     else bindK (sync (b_dev (buf s bh)) s) (\<lambda>_ s.
          bindK (wait_on_buffer E bh s) (\<lambda>_ s.
          if b_count (buf s bh) \<noteq> 0 then Ok (Inr False) s else Ok (Inl ()) s))) () s"

definition claim_buffer :: "u16 \<Rightarrow> u32 \<Rightarrow> nat \<Rightarrow> 'z fs_st_scheme \<Rightarrow> (unit, 'z fs_st_scheme) outcome" where
  "claim_buffer dev block bh s =
     bindK (remove_from_queues bh (upd_buf bh (\<lambda>b. b\<lparr>b_count := 1, b_dirt := False, b_uptodate := False\<rparr>) s)) (\<lambda>_ s.
     Ok () (insert_into_queues bh (upd_buf bh (\<lambda>b. b\<lparr>b_dev := dev, b_blocknr := block\<rparr>) s)))"

text \<open>One round of \<^verbatim>\<open>getblk\<close> from the label \<^verbatim>\<open>repeat\<close>.\<close>

definition getblk_round ::
    "('z fs_st_scheme) ctx \<Rightarrow> (u16 \<Rightarrow> 'z fs_st_scheme \<Rightarrow> (int, 'z fs_st_scheme) outcome) \<Rightarrow> u16 \<Rightarrow> u32
       \<Rightarrow> 'z fs_st_scheme \<Rightarrow> (unit + nat, 'z fs_st_scheme) outcome" where
  "getblk_round E sync dev block s =
     bindK (get_hash_table E dev block s) (\<lambda>r s.
     case r of
       Some bh \<Rightarrow> Ok (Inr bh) s
     | None \<Rightarrow>
         bindK (best_free s) (\<lambda>r s.
         case r of
           None \<Rightarrow> bindK (sleep_on E WqBufferWait s) (\<lambda>_ s. Ok (Inl ()) s)
         | Some bh \<Rightarrow>
             bindK (wait_on_buffer E bh s) (\<lambda>_ s.
             if b_count (buf s bh) \<noteq> 0 then Ok (Inl ()) s
             else bindK (clean_buffer E sync bh s) (\<lambda>go s.
               if \<not> go then Ok (Inl ()) s
               else bindK (find_buffer dev block s) (\<lambda>r s.
                 if r \<noteq> None then Ok (Inl ()) s
                 else bindK (claim_buffer dev block bh s) (\<lambda>_ s. Ok (Inr bh) s))))))"

primrec getblk_n ::
    "nat \<Rightarrow> ('z fs_st_scheme) ctx \<Rightarrow> u16 \<Rightarrow> u32 \<Rightarrow> 'z fs_st_scheme \<Rightarrow> (nat, 'z fs_st_scheme) outcome" where
  "getblk_n 0 E dev block s = Hang"
| "getblk_n (Suc n) E dev block s = iterK (\<lambda>(_ :: unit). getblk_round E (sync_dev_of E (getblk_n n E)) dev block) () s"

definition getblk :: "('z fs_st_scheme) ctx \<Rightarrow> u16 \<Rightarrow> u32 \<Rightarrow> 'z fs_st_scheme \<Rightarrow> (nat, 'z fs_st_scheme) outcome" where
  "getblk E = getblk_n (c_depth E) E"

definition bread :: "('z fs_st_scheme) ctx \<Rightarrow> u16 \<Rightarrow> u32 \<Rightarrow> 'z fs_st_scheme \<Rightarrow> (nat option, 'z fs_st_scheme) outcome" where
  "bread E = bread_of E (getblk E)"

definition write_inode :: "('z fs_st_scheme) ctx \<Rightarrow> nat \<Rightarrow> 'z fs_st_scheme \<Rightarrow> (unit, 'z fs_st_scheme) outcome" where
  "write_inode E = write_inode_of E (getblk E)"

definition sync_inodes :: "('z fs_st_scheme) ctx \<Rightarrow> 'z fs_st_scheme \<Rightarrow> (unit, 'z fs_st_scheme) outcome" where
  "sync_inodes E = sync_inodes_of E (getblk E)"

definition sync_dev :: "('z fs_st_scheme) ctx \<Rightarrow> u16 \<Rightarrow> 'z fs_st_scheme \<Rightarrow> (int, 'z fs_st_scheme) outcome" where
  "sync_dev E = sync_dev_of E (getblk E)"

definition sys_sync :: "('z fs_st_scheme) ctx \<Rightarrow> 'z fs_st_scheme \<Rightarrow> (int, 'z fs_st_scheme) outcome" where
  "sys_sync E s =
     bindK (sync_inodes E s) (\<lambda>_ s.
     bindK (forK [0..<NR_BUFFERS s] (\<lambda>bh s.
       bindK (wait_on_buffer E bh s) (\<lambda>_ s. if b_dirt (buf s bh) then ll_rw_block E WRITE bh s else Ok () s)) s) (\<lambda>_ s.
     Ok 0 s))"

definition invalidate_buffers :: "('z fs_st_scheme) ctx \<Rightarrow> u16 \<Rightarrow> 'z fs_st_scheme \<Rightarrow> (unit, 'z fs_st_scheme) outcome" where
  "invalidate_buffers E dev s = forK [0..<NR_BUFFERS s] (\<lambda>bh s.
     if b_dev (buf s bh) \<noteq> dev then Ok () s
     else bindK (wait_on_buffer E bh s) (\<lambda>_ s.
       Ok () (if b_dev (buf s bh) = dev then upd_buf bh (\<lambda>b. b\<lparr>b_uptodate := False, b_dirt := False\<rparr>) s else s))) s"

text \<open>\<^verbatim>\<open>COPYBLK\<close> into physical memory: 256 longs.\<close>

definition COPYBLK :: "block \<Rightarrow> u32 \<Rightarrow> 'z mm_st_scheme \<Rightarrow> 'z mm_st_scheme" where
  "COPYBLK from to s = fold (\<lambda>i. poke (slot to i) (get32 from (4 * i))) [0..<256] s"

definition bread_page :: "('z fs_st_scheme) ctx \<Rightarrow> u32 \<Rightarrow> u16 \<Rightarrow> (nat \<Rightarrow> u32) \<Rightarrow> 'z fs_st_scheme \<Rightarrow> (unit, 'z fs_st_scheme) outcome" where
  "bread_page E address dev b s =
     bindK (iterK (\<lambda>bhs s.
       let i = length bhs in
       if i \<ge> 4 then Ok (Inr bhs) s
       else if b i = 0 then Ok (Inl (bhs @ [None])) s
       else bindK (getblk E dev (b i) s) (\<lambda>bh s.
            bindK (if b_uptodate (buf s bh) then Ok () s else ll_rw_block E READ bh s) (\<lambda>_ s.
            Ok (Inl (bhs @ [Some bh])) s))) [] s) (\<lambda>bhs s.
     forK [0..<4] (\<lambda>i s.
       case bhs ! i of
         None \<Rightarrow> Ok () s
       | Some bh \<Rightarrow>
           bindK (wait_on_buffer E bh s) (\<lambda>_ s.
           let s = (if b_uptodate (buf s bh) then COPYBLK (b_data (buf s bh)) (address + 1024 * word_of_nat i) s else s)
           in brelse E (Some bh) s)) s)"

text \<open>
  \<^verbatim>\<open>breada\<close>: the blocks to read ahead are the variable arguments before the first negative one. The
  source passes \<^verbatim>\<open>bh\<close>, not \<^verbatim>\<open>tmp\<close>, to the read-ahead \<^verbatim>\<open>ll_rw_block\<close>.
\<close>

definition breada :: "('z fs_st_scheme) ctx \<Rightarrow> u16 \<Rightarrow> u32 \<Rightarrow> u32 list \<Rightarrow> 'z fs_st_scheme \<Rightarrow> (nat option, 'z fs_st_scheme) outcome" where
  "breada E dev first ahead s =
     bindK (getblk E dev first s) (\<lambda>bh s.
     bindK (if b_uptodate (buf s bh) then Ok () s else ll_rw_block E READ bh s) (\<lambda>_ s.
     bindK (forK (takeWhile (\<lambda>b. sint b \<ge> 0) ahead) (\<lambda>b s.
       bindK (getblk E dev b s) (\<lambda>tmp s.
       bindK (if b_uptodate (buf s tmp) then Ok () s else ll_rw_block E READA bh s) (\<lambda>_ s.
       Ok () (upd_buf tmp (b_count_update (\<lambda>c. c - 1)) s)))) s) (\<lambda>_ s.
     bindK (wait_on_buffer E bh s) (\<lambda>_ s.
     if b_uptodate (buf s bh) then Ok (Some bh) s
     else bindK (brelse E (Some bh) s) (\<lambda>_ s. Ok None s)))))"

text \<open>
  \<^verbatim>\<open>buffer_init\<close>: heads grow up from \<^verbatim>\<open>start_buffer\<close>, blocks grow down from the end of buffer memory
  and skip the hole from \<^verbatim>\<open>0xA0000\<close> to \<^verbatim>\<open>0x100000\<close>; \<open>n\<close> counts the buffers made so far.
\<close>

definition buffer_count :: "nat \<Rightarrow> nat \<Rightarrow> nat option" where
  "buffer_count start bend = map_option snd (while_option
     (\<lambda>(b, n). 1024 \<le> b \<and> start + 36 * (n + 1) \<le> b - 1024)
     (\<lambda>(b, n). (if b - 1024 = 0x100000 then 0xA0000 else b - 1024, n + 1)) (bend, 0))"

definition buffer_init :: "nat \<Rightarrow> 'z fs_st_scheme \<Rightarrow> (unit, 'z fs_st_scheme) outcome" where
  "buffer_init buffer_end s =
     (case buffer_count (unat (start_buffer s)) (if buffer_end = 0x100000 then 640 * 1024 else buffer_end) of
        None \<Rightarrow> Hang
      | Some n \<Rightarrow> Ok () (s\<lparr>NR_BUFFERS := n, free_list := 0, hash_table := (\<lambda>h. if h < NR_HASH then None else hash_table s h),
          wait_head := (\<lambda>q. case q of WqBuffer i \<Rightarrow> if i < n then None else wait_head s q | _ \<Rightarrow> wait_head s q),
          buf := (\<lambda>i. if i < n
            then (buf s i)\<lparr>b_dev := 0, b_dirt := False, b_count := 0, b_lock := False, b_uptodate := False, b_next := None, b_prev := None,
              b_prev_free := Some (if i = 0 then n - 1 else i - 1), b_next_free := Some (if i = n - 1 then 0 else i + 1)\<rparr>
            else buf s i)\<rparr>))"

subsection \<open>Doubly linked lists\<close>

text \<open>
  \<open>seg prv nxt q p xs q' p'\<close>: from the pointer \<open>p\<close> the links \<open>nxt\<close> run through \<open>xs\<close> and on to \<open>p'\<close>, the
  links \<open>prv\<close> run back to \<open>q\<close>, and \<open>q'\<close> is the last node passed. \<open>ring\<close>: the circular list of the free buffers.
\<close>

fun seg :: "(nat \<Rightarrow> nat option) \<Rightarrow> (nat \<Rightarrow> nat option) \<Rightarrow> nat option \<Rightarrow> nat option \<Rightarrow> nat list \<Rightarrow> nat option \<Rightarrow> nat option \<Rightarrow> bool" where
  "seg prv nxt q p [] q' p' \<longleftrightarrow> q' = q \<and> p' = p"
| "seg prv nxt q p (x # xs) q' p' \<longleftrightarrow> p = Some x \<and> prv x = q \<and> seg prv nxt (Some x) (nxt x) xs q' p'"

definition ring :: "(nat \<Rightarrow> nat option) \<Rightarrow> (nat \<Rightarrow> nat option) \<Rightarrow> nat list \<Rightarrow> bool" where
  "ring prv nxt xs \<longleftrightarrow> xs \<noteq> [] \<and> seg prv nxt (Some (last xs)) (Some (hd xs)) xs (Some (last xs)) (Some (hd xs))"

lemma seg_append: "seg prv nxt q p (xs @ ys) q' p' \<longleftrightarrow> (\<exists>q1 p1. seg prv nxt q p xs q1 p1 \<and> seg prv nxt q1 p1 ys q' p')"
  by (induction xs arbitrary: q p) auto

lemma seg_cong:
  "(\<And>x. x \<in> set xs \<Longrightarrow> prv x = prv' x \<and> nxt x = nxt' x) \<Longrightarrow> seg prv nxt q p xs q' p' = seg prv' nxt' q p xs q' p'"
  by (induction xs arbitrary: q p) auto

lemma seg_upd [simp]:
  "x \<notin> set xs \<Longrightarrow> seg (prv(x := v)) nxt q p xs q' p' = seg prv nxt q p xs q' p'"
  "x \<notin> set xs \<Longrightarrow> seg prv (nxt(x := v)) q p xs q' p' = seg prv nxt q p xs q' p'"
  by (rule seg_cong; auto)+

lemma seg_last: "seg prv nxt q p xs q' p' \<Longrightarrow> q' = (if xs = [] then q else Some (last xs))"
  by (induction xs arbitrary: q p) auto

lemma seg_hd: "seg prv nxt q p xs q' p' \<Longrightarrow> p = (if xs = [] then p' else Some (hd xs))"
  by (cases xs) auto

lemma seg_next: "seg prv nxt q p (xs @ x # y # ys) q' p' \<Longrightarrow> nxt x = Some y"
  by (auto simp: seg_append)

lemma seg_set_next:
  "seg prv nxt q p (xs @ [z]) q' p' \<Longrightarrow> z \<notin> set xs \<Longrightarrow> seg prv (nxt(z := v)) q p (xs @ [z]) (Some z) v"
  by (auto simp: seg_append)

lemma seg_set_prev:
  "seg prv nxt q p (y # ys) q' p' \<Longrightarrow> y \<notin> set ys \<Longrightarrow> seg (prv(y := v)) nxt v (Some y) (y # ys) q' p'"
  by auto

text \<open>Taking a node out of a list that ends in \<^verbatim>\<open>NULL\<close> on both sides.\<close>

lemma seg_remove:
  assumes "seg prv nxt None p (xs @ x # ys) q' None" and "distinct (xs @ x # ys)"
  shows "seg (case nxt x of None \<Rightarrow> prv | Some n \<Rightarrow> prv(n := prv x)) (case prv x of None \<Rightarrow> nxt | Some m \<Rightarrow> nxt(m := nxt x))
    None (if p = Some x then nxt x else p) (xs @ ys) (if ys = [] then prv x else q') None"
proof -
  from assms(1) obtain q1 p1 where s: "seg prv nxt None p xs q1 p1" "p1 = Some x" "prv x = q1" "seg prv nxt (Some x) (nxt x) ys q' None"
    by (auto simp: seg_append)
  note l = seg_last [OF s(1)] and h = seg_hd [OF s(4)] and hp = seg_hd [OF s(1)]
  have pre: "seg prv (case prv x of None \<Rightarrow> nxt | Some m \<Rightarrow> nxt(m := nxt x)) None (if p = Some x then nxt x else p) xs (prv x) (nxt x)"
  proof (cases xs rule: rev_cases)
    case Nil
    then show ?thesis using s by auto
  next
    case (snoc zs z)
    then have "hd xs \<in> set xs" using hd_in_set [of xs] by simp
    moreover have "x \<notin> set xs" using assms(2) by auto
    ultimately have "prv x = Some z" "p \<noteq> Some x" using snoc l s hp by auto
    then show ?thesis using snoc seg_set_next [of prv nxt None p zs z q1 p1 "nxt x"] s(1) assms(2) by auto
  qed
  show ?thesis
  proof (cases ys)
    case Nil
    then show ?thesis using pre h by (simp add: seg_append)
  next
    case (Cons y zs)
    then have y: "nxt x = Some y" using h by simp
    have "seg (prv(y := prv x)) nxt (prv x) (Some y) ys q' None"
      using s(4) Cons assms(2) by (intro seg_set_prev [of prv nxt "Some x" "Some y" y zs q' None, folded Cons]) auto
    moreover have "m \<notin> set ys" if "prv x = Some m" for m
      using that s(3) l assms(2) by (cases xs rule: rev_cases) auto
    moreover have "y \<notin> set xs" using Cons assms(2) by auto
    ultimately show ?thesis
      using pre y Cons by (auto simp: seg_append split: option.splits intro!: exI [of _ "prv x"] exI [of _ "Some y"])
  qed
qed

lemma ring_rotate:
  assumes "ring prv nxt (xs @ ys)"
  shows "ring prv nxt (ys @ xs)"
proof (cases "xs = [] \<or> ys = []")
  case False
  then obtain q1 p1 where s: "seg prv nxt (Some (last ys)) (Some (hd xs)) xs q1 p1" "seg prv nxt q1 p1 ys (Some (last ys)) (Some (hd xs))"
    using assms by (auto simp: ring_def seg_append)
  have "q1 = Some (last xs)" "p1 = Some (hd ys)" using seg_last [OF s(1)] seg_hd [OF s(2)] False by auto
  then show ?thesis using s False by (auto simp: ring_def seg_append)
qed (use assms in auto)

lemma ring_remove:
  assumes "ring prv nxt (x # zs)" and "distinct (x # zs)" and "zs \<noteq> []"
  shows "prv x = Some (last zs)" "nxt x = Some (hd zs)" "ring (prv(hd zs := prv x)) (nxt(last zs := nxt x)) zs"
proof -
  have s: "prv x = Some (last zs)" "seg prv nxt (Some x) (nxt x) zs (Some (last zs)) (Some x)"
    using assms by (simp_all add: ring_def)
  then show "prv x = Some (last zs)" "nxt x = Some (hd zs)" using seg_hd [OF s(2)] assms(3) by auto
  obtain y ys where zs: "zs = y # ys" using assms(3) by (cases zs) auto
  have 1: "seg (prv(y := prv x)) nxt (prv x) (Some y) zs (Some (last zs)) (Some x)"
    using s(2) assms(2) unfolding zs by (intro seg_set_prev) auto
  obtain ws w where ws: "zs = ws @ [w]" using assms(3) by (cases zs rule: rev_cases) auto
  have "seg (prv(y := prv x)) (nxt(w := nxt x)) (prv x) (Some y) zs (Some w) (nxt x)"
    using 1 assms(2) unfolding ws by (intro seg_set_next) auto
  then show "ring (prv(hd zs := prv x)) (nxt(last zs := nxt x)) zs"
    using s(1) \<open>nxt x = Some (hd zs)\<close> assms(3) arg_cong [OF ws, of last] arg_cong [OF zs, of hd] by (simp add: ring_def)
qed

lemma ring_insert:
  assumes "ring prv nxt (f # rest)" and "distinct (x # f # rest)"
  defines "m \<equiv> last (f # rest)"
  shows "prv f = Some m" "ring (prv(x := Some m, f := Some x)) (nxt(x := Some f, m := Some x)) ((f # rest) @ [x])"
proof -
  have s: "seg prv nxt (Some m) (Some f) (f # rest) (Some m) (Some f)" using assms(1) by (simp add: ring_def m_def)
  then show "prv f = Some m" by simp
  have 1: "seg (prv(f := Some x)) nxt (Some x) (Some f) (f # rest) (Some m) (Some f)"
    using s assms(2) by (intro seg_set_prev) auto
  obtain ws where ws: "f # rest = ws @ [m]" unfolding m_def by (metis append_butlast_last_id list.distinct(1))
  have 2: "seg (prv(f := Some x)) (nxt(m := Some x)) (Some x) (Some f) (f # rest) (Some m) (Some x)"
    using 1 assms(2) unfolding ws by (intro seg_set_next) auto
  have "x \<notin> set (f # rest)" "m \<in> set (f # rest)" using assms(2) m_def by auto
  then have "seg (prv(x := Some m, f := Some x)) (nxt(x := Some f, m := Some x)) (Some x) (Some f) ((f # rest) @ [x]) (Some x) (Some f)"
    using 2 unfolding seg_append
    by (intro exI [of _ "Some m"] exI [of _ "Some x"]) (auto simp: fun_upd_twist)
  then show "ring (prv(x := Some m, f := Some x)) (nxt(x := Some f, m := Some x)) ((f # rest) @ [x])"
    by (simp add: ring_def)
qed

subsection \<open>The invariant of the cache\<close>

text \<open>
  \<open>C h\<close> is the list of buffers in hash queue \<open>h\<close> and \<open>F\<close> the free list, which holds every buffer. Buffers in
  \<open>X\<close> are out of the hash queues, in the middle of an update.
\<close>

definition hash_ok :: "nat set \<Rightarrow> (nat \<Rightarrow> nat list) \<Rightarrow> 'z fs_st_scheme \<Rightarrow> bool" where
  "hash_ok X C s \<longleftrightarrow>
     (\<forall>h. distinct (C h) \<and> (\<exists>q. seg (\<lambda>i. b_prev (buf s i)) (\<lambda>i. b_next (buf s i)) None (hash_table s h) (C h) q None)) \<and>
     (\<forall>h i. i \<in> set (C h) \<longleftrightarrow> i < NR_BUFFERS s \<and> i \<notin> X \<and> b_dev (buf s i) \<noteq> 0 \<and> hashfn (b_dev (buf s i)) (b_blocknr (buf s i)) = h) \<and>
     (\<forall>i. i \<notin> X \<longrightarrow> b_dev (buf s i) = 0 \<longrightarrow> b_prev (buf s i) = None \<and> b_next (buf s i) = None) \<and>
     (\<forall>i j. i < NR_BUFFERS s \<longrightarrow> j < NR_BUFFERS s \<longrightarrow> i \<notin> X \<longrightarrow> j \<notin> X \<longrightarrow> b_dev (buf s i) \<noteq> 0 \<longrightarrow>
        b_dev (buf s i) = b_dev (buf s j) \<longrightarrow> b_blocknr (buf s i) = b_blocknr (buf s j) \<longrightarrow> i = j)"

definition free_ok :: "nat list \<Rightarrow> 'z fs_st_scheme \<Rightarrow> bool" where
  "free_ok F s \<longleftrightarrow>
     ring (\<lambda>i. b_prev_free (buf s i)) (\<lambda>i. b_next_free (buf s i)) F \<and> distinct F \<and> set F = {..<NR_BUFFERS s} \<and> hd F = free_list s"

text \<open>What the queues do not touch.\<close>

definition bcore :: "buffer_head \<Rightarrow> block \<times> u32 \<times> u16 \<times> bool \<times> bool \<times> u8 \<times> bool" where
  "bcore b = (b_data b, b_blocknr b, b_dev b, b_uptodate b, b_dirt b, b_count b, b_lock b)"

lemma bcore_eq:
  "bcore b = bcore b' \<longleftrightarrow> b_data b = b_data b' \<and> b_blocknr b = b_blocknr b' \<and> b_dev b = b_dev b' \<and> b_uptodate b = b_uptodate b' \<and>
     b_dirt b = b_dirt b' \<and> b_count b = b_count b' \<and> b_lock b = b_lock b'"
  by (auto simp: bcore_def)

lemma bcore_links [simp]:
  "bcore (b\<lparr>b_prev := v\<rparr>) = bcore b" "bcore (b\<lparr>b_next := v\<rparr>) = bcore b"
  "bcore (b\<lparr>b_prev_free := v\<rparr>) = bcore b" "bcore (b\<lparr>b_next_free := v\<rparr>) = bcore b"
  by (simp_all add: bcore_def)

lemma upd_buf_field: "(\<And>b. g (f b) = g b) \<Longrightarrow> g (buf (upd_buf i f s) j) = g (buf s j)"
  by simp

lemma hash_unlink_simps:
  assumes "b_next (buf s bh) \<noteq> Some bh" and "b_prev (buf s bh) \<noteq> Some bh"
  shows "(\<lambda>i. b_prev (buf (hash_unlink bh s) i)) =
      (case b_next (buf s bh) of None \<Rightarrow> \<lambda>i. b_prev (buf s i) | Some n \<Rightarrow> (\<lambda>i. b_prev (buf s i))(n := b_prev (buf s bh)))"
    "(\<lambda>i. b_next (buf (hash_unlink bh s) i)) =
      (case b_prev (buf s bh) of None \<Rightarrow> \<lambda>i. b_next (buf s i) | Some m \<Rightarrow> (\<lambda>i. b_next (buf s i))(m := b_next (buf s bh)))"
    "hash_table (hash_unlink bh s) = (let h = hashfn (b_dev (buf s bh)) (b_blocknr (buf s bh))
       in if hash_table s h = Some bh then (hash_table s)(h := b_next (buf s bh)) else hash_table s)"
  using assms by (auto simp: hash_unlink_def Let_def fun_eq_iff split: option.splits)

lemma hash_unlink_frame [simp]:
  "bcore (buf (hash_unlink bh s) i) = bcore (buf s i)" "b_prev_free (buf (hash_unlink bh s) i) = b_prev_free (buf s i)"
  "b_next_free (buf (hash_unlink bh s) i) = b_next_free (buf s i)" "free_list (hash_unlink bh s) = free_list s"
  "NR_BUFFERS (hash_unlink bh s) = NR_BUFFERS s"
  by (auto simp: hash_unlink_def Let_def bcore_def split: option.splits)

lemma hash_okD:
  assumes "hash_ok X C s"
  shows "distinct (C h)" "\<exists>q. seg (\<lambda>i. b_prev (buf s i)) (\<lambda>i. b_next (buf s i)) None (hash_table s h) (C h) q None"
    "i \<in> set (C h) \<longleftrightarrow> i < NR_BUFFERS s \<and> i \<notin> X \<and> b_dev (buf s i) \<noteq> 0 \<and> hashfn (b_dev (buf s i)) (b_blocknr (buf s i)) = h"
    "i \<notin> X \<Longrightarrow> b_dev (buf s i) = 0 \<Longrightarrow> b_prev (buf s i) = None \<and> b_next (buf s i) = None"
  using assms unfolding hash_ok_def by blast+

lemma hash_unique:
  "hash_ok X C s \<Longrightarrow> i < NR_BUFFERS s \<Longrightarrow> j < NR_BUFFERS s \<Longrightarrow> i \<notin> X \<Longrightarrow> j \<notin> X \<Longrightarrow> b_dev (buf s i) \<noteq> 0 \<Longrightarrow>
     b_dev (buf s i) = b_dev (buf s j) \<Longrightarrow> b_blocknr (buf s i) = b_blocknr (buf s j) \<Longrightarrow> i = j"
  unfolding hash_ok_def by blast

lemma hash_head: "hash_ok X C s \<Longrightarrow> hash_table s h = (if C h = [] then None else Some (hd (C h)))"
  using hash_okD(2) [of X C s h] seg_hd by fastforce

lemma hash_unlink_free:
  assumes "hash_ok {} C s" and "b_dev (buf s bh) = 0"
  shows "hash_unlink bh s = s"
proof -
  have "hash_table s h \<noteq> Some bh" for h
  proof
    assume "hash_table s h = Some bh"
    then have "bh \<in> set (C h)" using hash_head [OF assms(1), of h] by (auto split: if_splits)
    then show False using hash_okD(3) [OF assms(1), of bh h] assms(2) by simp
  qed
  then show ?thesis using hash_okD(4) [OF assms(1), of bh] assms(2) by (simp add: hash_unlink_def Let_def)
qed

text \<open>The neighbours of a buffer in its queue are other buffers of the same queue.\<close>

lemma seg_neighbours:
  assumes "seg prv nxt None p (xs @ x # ys) q None"
  shows "nxt x = (if ys = [] then None else Some (hd ys))" "prv x = (if xs = [] then None else Some (last xs))"
proof -
  from assms obtain q1 p1 where s: "seg prv nxt None p xs q1 p1" "prv x = q1" "seg prv nxt (Some x) (nxt x) ys q None"
    by (auto simp: seg_append)
  show "nxt x = (if ys = [] then None else Some (hd ys))" using seg_hd [OF s(3)] by simp
  show "prv x = (if xs = [] then None else Some (last xs))" using seg_last [OF s(1)] s(2) by simp
qed

lemma hash_neighbour:
  assumes "hash_ok {} C s" and "bh < NR_BUFFERS s" and "b_dev (buf s bh) \<noteq> 0"
    and "b_next (buf s bh) = Some n \<or> b_prev (buf s bh) = Some n"
  shows "n \<in> set (C (hashfn (b_dev (buf s bh)) (b_blocknr (buf s bh))))" "n \<noteq> bh"
proof -
  let ?h = "hashfn (b_dev (buf s bh)) (b_blocknr (buf s bh))"
  have "bh \<in> set (C ?h)" using hash_okD(3) [OF assms(1), of bh ?h] assms(2,3) by simp
  then obtain xs ys where c: "C ?h = xs @ bh # ys" by (meson split_list)
  then obtain q where "seg (\<lambda>i. b_prev (buf s i)) (\<lambda>i. b_next (buf s i)) None (hash_table s ?h) (xs @ bh # ys) q None"
    using hash_okD(2) [OF assms(1), of ?h] by auto
  from seg_neighbours [OF this] have "n \<in> set xs \<union> set ys"
    using assms(4) hd_in_set [of ys] last_in_set [of xs] by (auto split: if_splits)
  then show "n \<in> set (C ?h)" "n \<noteq> bh" using c hash_okD(1) [OF assms(1), of ?h] by auto
qed

lemma hash_unlink_chain:
  assumes "hash_ok {} C s" and "bh < NR_BUFFERS s" and "b_dev (buf s bh) \<noteq> 0"
    and h: "h = hashfn (b_dev (buf s bh)) (b_blocknr (buf s bh))"
  shows "\<exists>q. seg (\<lambda>i. b_prev (buf (hash_unlink bh s) i)) (\<lambda>i. b_next (buf (hash_unlink bh s) i)) None
    (hash_table (hash_unlink bh s) g) ((C(h := remove1 bh (C h))) g) q None"
proof -
  note nb = hash_neighbour [OF assms(1-3), folded h]
  have "b_next (buf s bh) \<noteq> Some bh" "b_prev (buf s bh) \<noteq> Some bh" using nb(2) by auto
  note u = hash_unlink_simps [OF this]
  show ?thesis
  proof (cases "g = h")
    case True
    have "bh \<in> set (C h)" using hash_okD(3) [OF assms(1), of bh h] assms(2,3) by (simp add: h)
    then obtain xs ys where c: "C h = xs @ bh # ys" by (meson split_list)
    have d: "distinct (xs @ bh # ys)" using hash_okD(1) [OF assms(1), of h] c by simp
    obtain q where q: "seg (\<lambda>i. b_prev (buf s i)) (\<lambda>i. b_next (buf s i)) None (hash_table s h) (xs @ bh # ys) q None"
      using hash_okD(2) [OF assms(1), of h] c by auto
    have r: "remove1 bh (C h) = xs @ ys" using c d by (simp add: remove1_append)
    show ?thesis using True seg_remove [OF q d] r unfolding u by (auto simp: h [symmetric] Let_def)
  next
    case False
    then have "n \<notin> set (C g)" if "b_next (buf s bh) = Some n \<or> b_prev (buf s bh) = Some n" for n
      using nb(1) [OF that] hash_okD(3) [OF assms(1), of n] by auto
    moreover have "hash_table (hash_unlink bh s) g = hash_table s g" using False by (simp add: u Let_def h)
    ultimately show ?thesis
      using hash_okD(2) [OF assms(1), of g] False unfolding u by (auto split: option.splits)
  qed
qed

lemma bcore_fields:
  assumes "bcore b = bcore b'"
  shows "b_dev b = b_dev b'" "b_blocknr b = b_blocknr b'" "b_lock b = b_lock b'" "b_count b = b_count b'" "b_dirt b = b_dirt b'"
    "b_uptodate b = b_uptodate b'" "b_data b = b_data b'"
  using assms by (simp_all add: bcore_eq)

lemmas hash_unlink_core [simp] = bcore_fields [OF hash_unlink_frame(1)]

lemma hash_unlink_ok:
  assumes "hash_ok {} C s" and "bh < NR_BUFFERS s"
  shows "\<exists>C'. hash_ok {bh} C' (hash_unlink bh s) \<and> (\<forall>h. set (C' h) = set (C h) - {bh})"
proof (cases "b_dev (buf s bh) = 0")
  case True
  then have "\<forall>h. bh \<notin> set (C h)" using hash_okD(3) [OF assms(1), of bh] by simp
  then show ?thesis
    using assms(1) unfolding hash_unlink_free [OF assms(1) True] by (intro exI [of _ C]) (auto simp: hash_ok_def)
next
  case False
  let ?h = "hashfn (b_dev (buf s bh)) (b_blocknr (buf s bh))"
  let ?C = "C(?h := remove1 bh (C ?h))"
  have set: "set (?C g) = set (C g) - {bh}" for g
    using hash_okD(1,3) [OF assms(1)] by (auto simp: set_remove1_eq)
  have "distinct (?C g)" for g using hash_okD(1) [OF assms(1)] by (simp add: distinct_remove1)
  moreover have "i \<in> set (?C g) \<longleftrightarrow> i < NR_BUFFERS s \<and> i \<noteq> bh \<and> b_dev (buf s i) \<noteq> 0 \<and> hashfn (b_dev (buf s i)) (b_blocknr (buf s i)) = g" for g i
    unfolding set using hash_okD(3) [OF assms(1), of i g] by auto
  moreover have "b_prev (buf (hash_unlink bh s) i) = None \<and> b_next (buf (hash_unlink bh s) i) = None"
    if "i \<noteq> bh" "b_dev (buf s i) = 0" for i
  proof -
    note nb = hash_neighbour [OF assms False]
    have "b_next (buf s bh) \<noteq> Some bh" "b_prev (buf s bh) \<noteq> Some bh" using nb(2) by auto
    note u = fun_cong [OF hash_unlink_simps(1) [OF this]] fun_cong [OF hash_unlink_simps(2) [OF this]]
    have "i \<notin> set (C g)" for g using that(2) hash_okD(3) [OF assms(1), of i g] by simp
    then have "b_next (buf s bh) \<noteq> Some i" "b_prev (buf s bh) \<noteq> Some i" using nb(1) by auto
    then show ?thesis
      using hash_okD(4) [OF assms(1), of i] that(2) by (auto simp: u split: option.splits)
  qed
  ultimately have "hash_ok {bh} ?C (hash_unlink bh s)"
    using hash_unlink_chain [OF assms False refl] assms(1) unfolding hash_ok_def by simp
  with set show ?thesis by blast
qed

lemma hash_link_simps:
  assumes "hash_table s h \<noteq> Some bh" and "b_dev (buf s bh) \<noteq> 0" and h: "h = hashfn (b_dev (buf s bh)) (b_blocknr (buf s bh))"
  shows "(\<lambda>i. b_prev (buf (hash_link bh s) i)) =
      (case hash_table s h of None \<Rightarrow> (\<lambda>i. b_prev (buf s i))(bh := None) | Some n \<Rightarrow> (\<lambda>i. b_prev (buf s i))(bh := None, n := Some bh))"
    "(\<lambda>i. b_next (buf (hash_link bh s) i)) = (\<lambda>i. b_next (buf s i))(bh := hash_table s h)"
    "hash_table (hash_link bh s) = (hash_table s)(h := Some bh)"
  using assms by (auto simp: hash_link_def Let_def fun_eq_iff poke_def split: option.splits)

lemma hash_link_frame [simp]:
  "bcore (buf (hash_link bh s) i) = bcore (buf s i)" "b_prev_free (buf (hash_link bh s) i) = b_prev_free (buf s i)"
  "b_next_free (buf (hash_link bh s) i) = b_next_free (buf s i)" "free_list (hash_link bh s) = free_list s"
  "NR_BUFFERS (hash_link bh s) = NR_BUFFERS s"
  by (auto simp: hash_link_def Let_def bcore_def poke_def split: option.splits)

lemmas hash_link_core [simp] = bcore_fields [OF hash_link_frame(1)]

lemma hash_link_ok:
  assumes "hash_ok {bh} C s" and "bh < NR_BUFFERS s" and "b_dev (buf s bh) \<noteq> 0"
    and new: "\<And>i. i < NR_BUFFERS s \<Longrightarrow> i \<noteq> bh \<Longrightarrow> \<not> holds (b_dev (buf s bh)) (b_blocknr (buf s bh)) (buf s i)"
  shows "\<exists>C'. hash_ok {} C' (hash_link bh s)"
proof -
  define h where "h = hashfn (b_dev (buf s bh)) (b_blocknr (buf s bh))"
  define D where "D = C(h := bh # C h)"
  have bh: "bh \<notin> set (C g)" for g using hash_okD(3) [OF assms(1), of bh g] by simp
  have n: "n \<in> set (C h)" if "hash_table s h = Some n" for n using that hash_head [OF assms(1), of h] by (auto split: if_splits)
  have "hash_table s h \<noteq> Some bh" using n bh by auto
  note u = hash_link_simps [OF this assms(3) h_def]
  have "\<exists>q. seg (\<lambda>i. b_prev (buf (hash_link bh s) i)) (\<lambda>i. b_next (buf (hash_link bh s) i)) None (hash_table (hash_link bh s) g) (D g) q None" for g
  proof (cases "g = h")
    case False
    then have "n \<notin> set (C g)" if "hash_table s h = Some n" for n using n [OF that] hash_okD(3) [OF assms(1), of n] by auto
    then show ?thesis using hash_okD(2) [OF assms(1), of g] False bh [of g] unfolding u D_def by (auto split: option.splits)
  next
    case True
    obtain q where q: "seg (\<lambda>i. b_prev (buf s i)) (\<lambda>i. b_next (buf s i)) None (hash_table s h) (C h) q None"
      using hash_okD(2) [OF assms(1), of h] by blast
    show ?thesis
    proof (cases "C h")
      case Nil
      then show ?thesis using True hash_head [OF assms(1), of h] unfolding u D_def by simp
    next
      case (Cons y ys)
      then have y: "hash_table s h = Some y" "y \<noteq> bh" "y \<notin> set ys" "bh \<notin> set ys"
        using hash_head [OF assms(1), of h] bh [of h] hash_okD(1) [OF assms(1), of h] by auto
      then show ?thesis using True q Cons unfolding u D_def by auto
    qed
  qed
  moreover have "distinct (D g)" for g using hash_okD(1) [OF assms(1)] bh by (simp add: D_def)
  moreover have "i \<in> set (D g) \<longleftrightarrow> i < NR_BUFFERS s \<and> b_dev (buf s i) \<noteq> 0 \<and> hashfn (b_dev (buf s i)) (b_blocknr (buf s i)) = g" for g i
    using hash_okD(3) [OF assms(1), of i g] assms(2,3) by (auto simp: D_def h_def)
  moreover have "b_prev (buf (hash_link bh s) i) = None \<and> b_next (buf (hash_link bh s) i) = None" if "b_dev (buf s i) = 0" for i
  proof -
    have "i \<noteq> bh" "hash_table s h \<noteq> Some i"
      using that assms(3) n hash_okD(3) [OF assms(1), of i h] by auto
    then show ?thesis using hash_okD(4) [OF assms(1), of i] that fun_cong [OF u(1), of i] fun_cong [OF u(2), of i]
      by (auto split: option.splits)
  qed
  moreover have "i = j" if "i < NR_BUFFERS s" "j < NR_BUFFERS s" "b_dev (buf s i) \<noteq> 0" "b_dev (buf s i) = b_dev (buf s j)"
      "b_blocknr (buf s i) = b_blocknr (buf s j)" for i j
    using that new [of i] new [of j] hash_unique [OF assms(1), of i j] by (cases "i = bh"; cases "j = bh") (auto simp: holds_def)
  ultimately have "hash_ok {} D (hash_link bh s)" unfolding hash_ok_def by simp
  then show ?thesis by blast
qed

lemma free_unlink_ok:
  assumes "free_ok F s" and "bh < NR_BUFFERS s" and "1 < NR_BUFFERS s"
  shows "\<exists>t G. free_unlink bh s = Ok () t \<and> ring (\<lambda>i. b_prev_free (buf t i)) (\<lambda>i. b_next_free (buf t i)) G \<and> distinct G \<and>
    set G = {..<NR_BUFFERS s} - {bh} \<and> hd G = free_list t \<and>
    (\<forall>i. bcore (buf t i) = bcore (buf s i) \<and> b_prev (buf t i) = b_prev (buf s i) \<and> b_next (buf t i) = b_next (buf s i)) \<and>
    hash_table t = hash_table s \<and> NR_BUFFERS t = NR_BUFFERS s"
proof -
  note f = assms(1) [unfolded free_ok_def]
  obtain xs ys where F: "F = xs @ bh # ys" using f assms(2) split_list [of bh F] by auto
  have d: "distinct (bh # ys @ xs)" "set (ys @ xs) = {..<NR_BUFFERS s} - {bh}" using f F by auto
  have "(if bh = 0 then 1 else 0) \<in> set (ys @ xs)" unfolding d(2) using assms(2,3) by auto
  then have ne: "ys @ xs \<noteq> []" by force
  have r: "ring (\<lambda>i. b_prev_free (buf s i)) (\<lambda>i. b_next_free (buf s i)) (bh # ys @ xs)"
    using f F ring_rotate [of _ _ xs "bh # ys"] by simp
  note rm = ring_remove [OF r d(1) ne]
  let ?z = "hd (ys @ xs)" and ?w = "last (ys @ xs)"
  have zw: "?z \<noteq> bh" "?w \<noteq> bh" using d(1) hd_in_set [OF ne] last_in_set [OF ne] by (auto simp del: hd_append2 last_append)
  define t where "t = (let s = upd_buf ?w (b_next_free_update (\<lambda>_. Some ?z)) s; s = upd_buf ?z (b_prev_free_update (\<lambda>_. Some ?w)) s
      in if free_list s = bh then s\<lparr>free_list := ?z\<rparr> else s)"
  have "free_unlink bh s = Ok () t"
    using rm(1,2) zw by (simp add: free_unlink_def t_def Let_def del: hd_append2 last_append)
  moreover have "(\<lambda>i. b_prev_free (buf t i)) = (\<lambda>i. b_prev_free (buf s i))(?z := Some ?w)"
    "(\<lambda>i. b_next_free (buf t i)) = (\<lambda>i. b_next_free (buf s i))(?w := Some ?z)"
    by (auto simp: t_def Let_def fun_eq_iff)
  then have "ring (\<lambda>i. b_prev_free (buf t i)) (\<lambda>i. b_next_free (buf t i)) (xs @ ys)"
    using rm ring_rotate [of _ _ ys xs] by simp
  moreover have "hd (xs @ ys) = free_list t"
    using f F d(1) by (cases xs) (auto simp: t_def Let_def)
  moreover have "bcore (buf t i) = bcore (buf s i) \<and> b_prev (buf t i) = b_prev (buf s i) \<and> b_next (buf t i) = b_next (buf s i)" for i
    by (simp add: t_def Let_def bcore_def)
  moreover have "hash_table t = hash_table s" "NR_BUFFERS t = NR_BUFFERS s" by (simp_all add: t_def Let_def)
  moreover have "distinct (xs @ ys)" "set (xs @ ys) = {..<NR_BUFFERS s} - {bh}" using d by auto
  ultimately show ?thesis by blast
qed

lemma free_link_ok:
  assumes "ring (\<lambda>i. b_prev_free (buf s i)) (\<lambda>i. b_next_free (buf s i)) G" and "distinct G"
    and "set G = {..<NR_BUFFERS s} - {bh}" and "hd G = free_list s" and "bh < NR_BUFFERS s"
  shows "free_ok (G @ [bh]) (free_link bh s)"
    "\<forall>i. bcore (buf (free_link bh s) i) = bcore (buf s i) \<and> b_prev (buf (free_link bh s) i) = b_prev (buf s i) \<and> b_next (buf (free_link bh s) i) = b_next (buf s i)"
    "hash_table (free_link bh s) = hash_table s" "NR_BUFFERS (free_link bh s) = NR_BUFFERS s"
proof -
  obtain rest where G: "G = free_list s # rest" using assms(1,4) by (cases G) (auto simp: ring_def)
  let ?f = "free_list s"
  have d: "distinct (bh # ?f # rest)" using assms(2,3) G by auto
  note i = ring_insert [OF assms(1) [unfolded G] d]
  let ?m = "last (?f # rest)"
  have "?f \<noteq> bh" "?m \<noteq> bh" using d last_in_set [of "?f # rest"] by (auto simp del: last.simps)
  then have "(\<lambda>i. b_prev_free (buf (free_link bh s) i)) = (\<lambda>i. b_prev_free (buf s i))(bh := Some ?m, ?f := Some bh)"
    "(\<lambda>i. b_next_free (buf (free_link bh s) i)) = (\<lambda>i. b_next_free (buf s i))(bh := Some ?f, ?m := Some bh)"
    using i(1) by (auto simp: free_link_def Let_def fun_eq_iff simp del: last.simps)
  then have "ring (\<lambda>i. b_prev_free (buf (free_link bh s) i)) (\<lambda>i. b_next_free (buf (free_link bh s) i)) (G @ [bh])"
    using i(2) G by simp
  moreover have "distinct (G @ [bh])" "set (G @ [bh]) = {..<NR_BUFFERS s}" "hd (G @ [bh]) = free_list s"
    using d assms(3,5) G by auto
  ultimately show "free_ok (G @ [bh]) (free_link bh s)"
    unfolding free_ok_def by (simp add: free_link_def Let_def)
qed (simp_all add: free_link_def Let_def upd_buf_field [where g = bcore] upd_buf_field [where g = b_prev]
    upd_buf_field [where g = b_next] del: upd_buf_simps(1))

lemma hash_ok_cong:
  assumes "\<And>i. b_prev (buf t i) = b_prev (buf s i) \<and> b_next (buf t i) = b_next (buf s i)"
    and "\<And>i. i \<notin> X \<Longrightarrow> b_dev (buf t i) = b_dev (buf s i) \<and> b_blocknr (buf t i) = b_blocknr (buf s i)"
    and "hash_table t = hash_table s" and "NR_BUFFERS t = NR_BUFFERS s" and "hash_ok X C s"
  shows "hash_ok X C t"
proof -
  have "(\<lambda>i. b_prev (buf t i)) = (\<lambda>i. b_prev (buf s i))" "(\<lambda>i. b_next (buf t i)) = (\<lambda>i. b_next (buf s i))"
    using assms(1) by auto
  then show ?thesis using assms(2-5) unfolding hash_ok_def by (simp add: assms(1)) metis
qed

lemma free_ok_cong:
  assumes "\<And>i. b_prev_free (buf t i) = b_prev_free (buf s i) \<and> b_next_free (buf t i) = b_next_free (buf s i)"
    and "free_list t = free_list s" and "NR_BUFFERS t = NR_BUFFERS s" and "free_ok F s"
  shows "free_ok F t"
  using assms by (simp add: free_ok_def)

definition cache_inv :: "'z fs_st_scheme \<Rightarrow> bool" where
  "cache_inv s \<longleftrightarrow> (\<exists>C. hash_ok {} C s) \<and> (\<exists>F. free_ok F s) \<and> 1 < NR_BUFFERS s"

lemma claim_buffer_ok:
  assumes "cache_inv s" and "bh < NR_BUFFERS s" and "dev \<noteq> 0"
    and new: "\<And>i. i < NR_BUFFERS s \<Longrightarrow> \<not> holds dev block (buf s i)"
  shows "\<exists>t. claim_buffer dev block bh s = Ok () t \<and> cache_inv t \<and> NR_BUFFERS t = NR_BUFFERS s \<and>
    (\<forall>i. bcore (buf t i) = (if i = bh then (b_data (buf s bh), block, dev, False, False, 1, b_lock (buf s bh)) else bcore (buf s i)))"
proof -
  from assms(1) obtain C F where C: "hash_ok {} C s" and F: "free_ok F s" and n: "1 < NR_BUFFERS s" by (auto simp: cache_inv_def)
  define s1 where "s1 = upd_buf bh (\<lambda>b. b\<lparr>b_count := 1, b_dirt := False, b_uptodate := False\<rparr>) s"
  have "hash_ok {} C s1" by (rule hash_ok_cong [OF _ _ _ _ C]) (simp_all add: s1_def)
  then obtain C1 where C1: "hash_ok {bh} C1 (hash_unlink bh s1)" using hash_unlink_ok [of C s1 bh] assms(2) by (auto simp: s1_def)
  have "free_ok F (hash_unlink bh s1)" by (rule free_ok_cong [OF _ _ _ F]) (simp_all add: s1_def)
  then obtain s3 G where s3: "free_unlink bh (hash_unlink bh s1) = Ok () s3"
    "ring (\<lambda>i. b_prev_free (buf s3 i)) (\<lambda>i. b_next_free (buf s3 i)) G" "distinct G" "set G = {..<NR_BUFFERS s} - {bh}" "hd G = free_list s3"
    "\<And>i. bcore (buf s3 i) = bcore (buf (hash_unlink bh s1) i)"
    "\<And>i. b_prev (buf s3 i) = b_prev (buf (hash_unlink bh s1) i) \<and> b_next (buf s3 i) = b_next (buf (hash_unlink bh s1) i)"
    "hash_table s3 = hash_table (hash_unlink bh s1)" "NR_BUFFERS s3 = NR_BUFFERS s"
    using free_unlink_ok [of F "hash_unlink bh s1" bh] assms(2) n by (auto simp: s1_def)
  define s4 where "s4 = upd_buf bh (\<lambda>b. b\<lparr>b_dev := dev, b_blocknr := block\<rparr>) s3"
  have c4: "hash_ok {bh} C1 s4"
    by (rule hash_ok_cong [OF _ _ _ _ C1]) (simp_all add: s4_def s1_def s3(7-9) bcore_fields [OF s3(6)])
  have "(\<lambda>i. b_prev_free (buf s4 i)) = (\<lambda>i. b_prev_free (buf s3 i))" "(\<lambda>i. b_next_free (buf s4 i)) = (\<lambda>i. b_next_free (buf s3 i))"
    by (auto simp: s4_def)
  then have "ring (\<lambda>i. b_prev_free (buf s4 i)) (\<lambda>i. b_next_free (buf s4 i)) G" using s3(2) by simp
  note l = free_link_ok [OF this s3(3), of bh]
  have l': "free_ok (G @ [bh]) (free_link bh s4)"
    "\<And>i. bcore (buf (free_link bh s4) i) = bcore (buf s4 i)"
    "\<And>i. b_prev (buf (free_link bh s4) i) = b_prev (buf s4 i) \<and> b_next (buf (free_link bh s4) i) = b_next (buf s4 i)"
    "hash_table (free_link bh s4) = hash_table s4" "NR_BUFFERS (free_link bh s4) = NR_BUFFERS s"
    using l s3(4,5,9) assms(2) by (auto simp: s4_def)
  have n4: "NR_BUFFERS s4 = NR_BUFFERS s" by (simp add: s4_def s3(9))
  have core: "bcore (buf (free_link bh s4) i) = (if i = bh then (b_data (buf s bh), block, dev, False, False, 1, b_lock (buf s bh)) else bcore (buf s i))" for i
    using s3(6) [of i] unfolding l'(2) by (cases "i = bh") (simp_all add: s4_def s1_def bcore_def)
  have "hash_ok {bh} C1 (free_link bh s4)"
    by (rule hash_ok_cong [OF _ _ _ _ c4]) (simp_all add: l'(3-5) n4 bcore_fields [OF l'(2)])
  moreover have "b_dev (buf (free_link bh s4) bh) = dev" "b_blocknr (buf (free_link bh s4) bh) = block"
    using core [of bh] by (simp_all add: bcore_def)
  moreover have "\<not> holds dev block (buf (free_link bh s4) i)" if "i < NR_BUFFERS s" "i \<noteq> bh" for i
    using core [of i] that new [OF that(1)] by (simp add: holds_def bcore_eq)
  ultimately obtain C' where C': "hash_ok {} C' (hash_link bh (free_link bh s4))"
    using hash_link_ok [of bh C1 "free_link bh s4"] assms(2,3) l'(5) by auto
  have "free_ok (G @ [bh]) (hash_link bh (free_link bh s4))" by (rule free_ok_cong [OF _ _ _ l'(1)]) simp_all
  with C' n l'(5) have "cache_inv (hash_link bh (free_link bh s4))" by (auto simp: cache_inv_def)
  moreover have "claim_buffer dev block bh s = Ok () (hash_link bh (free_link bh s4))"
    using s3(1) by (simp add: claim_buffer_def remove_from_queues_def insert_into_queues_def s1_def s4_def)
  ultimately show ?thesis using core l'(5) by simp
qed

text \<open>Looking a block up: the search ends, and finds the buffer that holds the block if there is one.\<close>

lemma find_buffer_chain:
  assumes "seg prv (\<lambda>i. b_next (buf s i)) q p xs q' None"
  shows "iterK (\<lambda>tmp s.
     case tmp of
       None \<Rightarrow> Ok (Inr None) s
     | Some i \<Rightarrow> if holds dev block (buf s i) then Ok (Inr (Some i)) s else Ok (Inl (b_next (buf s i))) s) p s
    = Ok (find (\<lambda>i. holds dev block (buf s i)) xs) s"
  using assms
proof (induction xs arbitrary: p q)
  case Nil
  then show ?case by (subst iterK_unfold) simp
next
  case (Cons x xs)
  show ?case by (subst iterK_unfold) (use Cons.IH [of "Some x" "b_next (buf s x)"] Cons.prems in simp)
qed

lemma find_buffer_ok:
  assumes "cache_inv s" and "dev \<noteq> 0"
  obtains i where "find_buffer dev block s = Ok (Some i) s" "i < NR_BUFFERS s" "holds dev block (buf s i)"
  | "find_buffer dev block s = Ok None s" "\<And>i. i < NR_BUFFERS s \<Longrightarrow> \<not> holds dev block (buf s i)"
proof -
  from assms(1) obtain C where C: "hash_ok {} C s" by (auto simp: cache_inv_def)
  let ?h = "hashfn dev block"
  obtain q where "seg (\<lambda>i. b_prev (buf s i)) (\<lambda>i. b_next (buf s i)) None (hash_table s ?h) (C ?h) q None" using hash_okD(2) [OF C, of ?h] by blast
  from find_buffer_chain [OF this] have f: "find_buffer dev block s = Ok (find (\<lambda>i. holds dev block (buf s i)) (C ?h)) s"
    by (simp add: find_buffer_def)
  show ?thesis
  proof (cases "find (\<lambda>i. holds dev block (buf s i)) (C ?h)")
    case None
    have "\<not> holds dev block (buf s i)" if "i < NR_BUFFERS s" for i
      using None that hash_okD(3) [OF C, of i ?h] assms(2) by (auto simp: find_None_iff holds_def)
    with None f that(2) show ?thesis by simp
  next
    case (Some i)
    then have "i \<in> set (C ?h)" "holds dev block (buf s i)" by (auto simp: find_Some_iff)
    with Some f that(1) [of i] hash_okD(3) [OF C, of i ?h] show ?thesis by simp
  qed
qed

text \<open>With every buffer unlocked and every unused buffer clean, the first unused buffer of the free list is the best one.\<close>

definition at_rest :: "'z fs_st_scheme \<Rightarrow> bool" where
  "at_rest s \<longleftrightarrow> (\<forall>i < NR_BUFFERS s. \<not> b_lock (buf s i) \<and> (b_count (buf s i) = 0 \<longrightarrow> \<not> b_dirt (buf s i)))"

lemma free_scan_step:
  assumes "at_rest s" and "y < NR_BUFFERS s"
  shows "free_scan (y, None) s =
    (if b_count (buf s y) = 0 then Ok (Inr (Some y)) s
     else if the (b_next_free (buf s y)) = free_list s then Ok (Inr None) s else Ok (Inl (the (b_next_free (buf s y)), None)) s)"
  using assms by (auto simp: free_scan_def Let_def at_rest_def BADNESS_def)

lemma best_free_scan:
  assumes "free_ok (xs @ y # ys) s" and "at_rest s"
  shows "iterK free_scan (y, None) s = Ok (find (\<lambda>i. b_count (buf s i) = 0) (y # ys)) s"
  using assms(1)
proof (induction ys arbitrary: xs y)
  case Nil
  then have f: "ring (\<lambda>i. b_prev_free (buf s i)) (\<lambda>i. b_next_free (buf s i)) (xs @ [y])"
    "set (xs @ [y]) = {..<NR_BUFFERS s}" "hd (xs @ [y]) = free_list s" by (simp_all only: free_ok_def)
  have "y < NR_BUFFERS s" using f(2) by auto
  moreover have "the (b_next_free (buf s y)) = free_list s" using f(1,3) by (auto simp: ring_def seg_append dest: sym [of "Some _"])
  ultimately show ?case by (subst iterK_unfold) (simp add: free_scan_step [OF assms(2)])
next
  case (Cons z zs)
  then have f: "ring (\<lambda>i. b_prev_free (buf s i)) (\<lambda>i. b_next_free (buf s i)) (xs @ y # z # zs)" "distinct (xs @ y # z # zs)"
    "set (xs @ y # z # zs) = {..<NR_BUFFERS s}" "hd (xs @ y # z # zs) = free_list s" by (simp_all only: free_ok_def)
  have "y < NR_BUFFERS s" using f(3) by auto
  note b = free_scan_step [OF assms(2) this]
  have n: "the (b_next_free (buf s y)) = z" using f(1) seg_next by (fastforce simp: ring_def)
  have "z \<noteq> free_list s" using f(2,4) by (cases xs) auto
  moreover have "free_ok ((xs @ [y]) @ z # zs) s" using Cons.prems by simp
  ultimately show ?case using Cons.IH [of "xs @ [y]" z] n by (subst iterK_unfold) (simp add: b)
qed

lemma best_free_ok:
  assumes "cache_inv s" and "at_rest s"
  obtains i where "best_free s = Ok (Some i) s" "i < NR_BUFFERS s" "b_count (buf s i) = 0"
  | "best_free s = Ok None s" "\<And>i. i < NR_BUFFERS s \<Longrightarrow> b_count (buf s i) \<noteq> 0"
proof -
  from assms(1) obtain F where F: "free_ok F s" by (auto simp: cache_inv_def)
  then obtain y ys where y: "F = y # ys" "y = free_list s" by (cases F) (auto simp: free_ok_def ring_def)
  have "best_free s = Ok (find (\<lambda>i. b_count (buf s i) = 0) F) s"
    using best_free_scan [of "[]" y ys s] F assms(2) y by (simp add: best_free_def)
  moreover have "set F = {..<NR_BUFFERS s}" using F by (simp add: free_ok_def)
  ultimately show ?thesis using that
    by (cases "find (\<lambda>i. b_count (buf s i) = 0) F") (auto simp: find_None_iff find_Some_iff set_conv_nth dest!: equalityD1)
qed

lemma cache_inv_cong:
  assumes "cache_inv s" and "\<And>i. b_prev (buf t i) = b_prev (buf s i) \<and> b_next (buf t i) = b_next (buf s i)"
    and "\<And>i. b_prev_free (buf t i) = b_prev_free (buf s i) \<and> b_next_free (buf t i) = b_next_free (buf s i)"
    and "\<And>i. b_dev (buf t i) = b_dev (buf s i) \<and> b_blocknr (buf t i) = b_blocknr (buf s i)"
    and "hash_table t = hash_table s" and "NR_BUFFERS t = NR_BUFFERS s" and "free_list t = free_list s"
  shows "cache_inv t"
  using assms hash_ok_cong [of t s] free_ok_cong [of t s] unfolding cache_inv_def by metis

lemma cache_unique: "cache_inv s \<Longrightarrow> i < NR_BUFFERS s \<Longrightarrow> j < NR_BUFFERS s \<Longrightarrow> dev \<noteq> 0 \<Longrightarrow>
    holds dev block (buf s i) \<Longrightarrow> holds dev block (buf s j) \<Longrightarrow> i = j"
  unfolding cache_inv_def holds_def using hash_unique [of "{}" _ s i j] by auto

lemma find_buffer_hit:
  assumes "cache_inv s" and "dev \<noteq> 0" and "i < NR_BUFFERS s" and "holds dev block (buf s i)"
  shows "find_buffer dev block s = Ok (Some i) s"
proof (cases rule: find_buffer_ok [OF assms(1,2), of block])
  case (1 j)
  then have "j = i" using cache_unique [OF assms(1) 1(2) assms(3,2) 1(3) assms(4)] by simp
  then show ?thesis using 1(1) by simp
next
  case 2
  then show ?thesis using assms(3,4) by blast
qed

lemma get_hash_table_hit:
  assumes "cache_inv s" and "dev \<noteq> 0" and "i < NR_BUFFERS s" and "holds dev block (buf s i)" and "\<not> b_lock (buf s i)"
  shows "get_hash_table E dev block s = Ok (Some i) (upd_buf i (b_count_update (\<lambda>c. c + 1)) s)"
  unfolding get_hash_table_def using find_buffer_hit [OF assms(1-4)] assms(4,5)
  by (subst iterK_unfold) (simp add: wait_on_buffer_def holds_def)

lemma getblk_hit:
  assumes "cache_inv s" and "at_rest s" and "dev \<noteq> 0" and "i < NR_BUFFERS s" "holds dev block (buf s i)"
  shows "getblk_round E sync dev block s = Ok (Inr i) (upd_buf i (b_count_update (\<lambda>c. c + 1)) s)"
  using get_hash_table_hit [OF assms(1,3,4,5)] assms(2,4) by (simp add: getblk_round_def at_rest_def)

lemma brelse_quick:
  "\<not> b_lock (buf s i) \<Longrightarrow> b_count (buf s i) \<noteq> 0 \<Longrightarrow>
     brelse E (Some i) s = Ok () (wake_up WqBufferWait (upd_buf i (b_count_update (\<lambda>c. c - 1)) s))"
  by (simp add: brelse_def wait_on_buffer_def)

text \<open>What the cache operations leave alone: everything but the buffers, their queues and the word at address 20.\<close>

definition cache_frame :: "'z fs_st_scheme \<Rightarrow> 'z fs_st_scheme \<Rightarrow> bool" where
  "cache_frame s t \<longleftrightarrow> (\<exists>b h l p. t = s\<lparr>buf := b, hash_table := h, free_list := l, phys := p\<rparr>)"

lemma cache_frameI: "t = s\<lparr>buf := buf t, hash_table := hash_table t, free_list := free_list t, phys := phys t\<rparr> \<Longrightarrow> cache_frame s t"
  by (auto simp: cache_frame_def)

lemma cache_frame_fields:
  assumes "cache_frame s t"
  shows "sblock t = sblock s" "inode t = inode s" "NR_BUFFERS t = NR_BUFFERS s" "file_tab t = file_tab s" "task t = task s" "current t = current s"
    "wait_head t = wait_head s" "mem_map t = mem_map s" "fs_mem t = fs_mem s"
  using assms by (auto simp: cache_frame_def)

lemma cache_frame_basic [simp]:
  "cache_frame s s" "cache_frame s (upd_buf i f s)" "cache_frame s (s\<lparr>hash_table := h\<rparr>)" "cache_frame s (s\<lparr>free_list := l\<rparr>)" "cache_frame s (poke a v s)"
  by (rule cache_frameI, simp add: upd_buf_def poke_def)+

lemma cache_frame_trans [trans]: "cache_frame s t \<Longrightarrow> cache_frame t u \<Longrightarrow> cache_frame s u"
  by (rule cache_frameI) (auto simp: cache_frame_def)

lemma cache_frame_step:
  "cache_frame s t \<Longrightarrow> cache_frame s (upd_buf i f t)" "cache_frame s t \<Longrightarrow> cache_frame s (t\<lparr>hash_table := h\<rparr>)"
  "cache_frame s t \<Longrightarrow> cache_frame s (t\<lparr>free_list := l\<rparr>)" "cache_frame s t \<Longrightarrow> cache_frame s (poke a v t)"
  by (erule cache_frame_trans, simp)+

lemma cache_frame_queues:
  "cache_frame s (hash_unlink bh s)" "cache_frame s (free_link bh s)" "cache_frame s (hash_link bh s)"
  by (simp_all add: hash_unlink_def free_link_def hash_link_def Let_def cache_frame_step split: option.split)

lemma cache_frame_free_unlink: "free_unlink bh s = Ok () t \<Longrightarrow> cache_frame s t"
  by (auto simp: free_unlink_def Let_def cache_frame_step split: if_splits)

lemma cache_frame_claim:
  assumes "claim_buffer dev block bh s = Ok () t"
  shows "cache_frame s t"
proof -
  let ?s = "hash_unlink bh (upd_buf bh (\<lambda>b. b\<lparr>b_count := 1, b_dirt := False, b_uptodate := False\<rparr>) s)"
  obtain u where u: "free_unlink bh ?s = Ok () u" "t = hash_link bh (free_link bh (upd_buf bh (\<lambda>b. b\<lparr>b_dev := dev, b_blocknr := block\<rparr>) u))"
    using assms by (auto simp: claim_buffer_def remove_from_queues_def insert_into_queues_def bindK_eq_Ok_iff)
  have "cache_frame s ?s" using cache_frame_trans [OF cache_frame_basic(2) cache_frame_queues(1)] .
  also note cache_frame_free_unlink [OF u(1)]
  also have "cache_frame u t" unfolding u(2)
    using cache_frame_trans [OF cache_frame_trans [OF cache_frame_basic(2) cache_frame_queues(2)] cache_frame_queues(3)] .
  finally show ?thesis by simp
qed

lemma getblk_miss:
  assumes "cache_inv s" and "at_rest s" and "dev \<noteq> 0" and "find_buffer dev block s = Ok None s"
    and "\<And>i. i < NR_BUFFERS s \<Longrightarrow> \<not> holds dev block (buf s i)" and "\<exists>i < NR_BUFFERS s. b_count (buf s i) = 0"
  shows "\<exists>bh t. getblk_round E sync dev block s = Ok (Inr bh) t \<and> cache_inv t \<and> bh < NR_BUFFERS s \<and> b_count (buf s bh) = 0 \<and> cache_frame s t \<and>
    (\<forall>i. bcore (buf t i) = (if i = bh then (b_data (buf s bh), block, dev, False, False, 1, b_lock (buf s bh)) else bcore (buf s i)))"
proof -
  obtain bh where bh: "best_free s = Ok (Some bh) s" "bh < NR_BUFFERS s" "b_count (buf s bh) = 0"
    using best_free_ok [OF assms(1,2)] assms(6) by metis
  then have "\<not> b_lock (buf s bh)" "\<not> b_dirt (buf s bh)" using assms(2) by (simp_all add: at_rest_def)
  then have "wait_on_buffer E bh s = Ok () s" "clean_buffer E sync bh s = Ok True s"
    unfolding clean_buffer_def by (simp add: wait_on_buffer_def, subst iterK_unfold, simp)
  moreover have "get_hash_table E dev block s = Ok None s"
    unfolding get_hash_table_def using assms(4) by (subst iterK_unfold) simp
  moreover obtain t where "claim_buffer dev block bh s = Ok () t" "cache_inv t" "cache_frame s t"
    "\<forall>i. bcore (buf t i) = (if i = bh then (b_data (buf s bh), block, dev, False, False, 1, b_lock (buf s bh)) else bcore (buf s i))"
    using claim_buffer_ok [OF assms(1) bh(2) assms(3,5)] cache_frame_claim by blast
  ultimately show ?thesis using bh assms(4) by (simp add: getblk_round_def)
qed

lemma getblk_ok:
  assumes "cache_inv s" and "at_rest s" and "dev \<noteq> 0" and "\<exists>i < NR_BUFFERS s. b_count (buf s i) = 0" and "0 < c_depth E"
  shows "\<exists>bh t. getblk E dev block s = Ok bh t \<and> cache_inv t \<and> bh < NR_BUFFERS s \<and> cache_frame s t \<and>
    holds dev block (buf t bh) \<and> (\<forall>i < NR_BUFFERS s. holds dev block (buf t i) \<longrightarrow> i = bh) \<and>
    (if \<exists>i < NR_BUFFERS s. holds dev block (buf s i)
     then bcore (buf t bh) = bcore ((buf s bh)\<lparr>b_count := b_count (buf s bh) + 1\<rparr>)
     else b_count (buf s bh) = 0 \<and> b_count (buf t bh) = 1 \<and> \<not> b_uptodate (buf t bh) \<and> \<not> b_dirt (buf t bh) \<and> \<not> b_lock (buf t bh)) \<and>
    (\<forall>i. i \<noteq> bh \<longrightarrow> bcore (buf t i) = bcore (buf s i))"
proof -
  obtain n where n: "c_depth E = Suc n" using assms(5) gr0_implies_Suc by blast
  have g: "getblk E dev block s = Ok bh t" if "getblk_round E (sync_dev_of E (getblk_n n E)) dev block s = Ok (Inr bh) t" for bh t
    unfolding getblk_def n by (simp, subst iterK_unfold) (simp add: that)
  show ?thesis
  proof (cases rule: find_buffer_ok [OF assms(1,3), of block])
    case (1 i)
    let ?t = "upd_buf i (b_count_update (\<lambda>c. c + 1)) s"
    have ci: "cache_inv ?t" by (rule cache_inv_cong [OF assms(1)]) simp_all
    have h: "holds dev block (buf ?t i)" using 1(3) by (simp add: holds_def)
    have u: "\<forall>j < NR_BUFFERS s. holds dev block (buf ?t j) \<longrightarrow> j = i"
      by (intro allI impI, rule cache_unique [OF ci _ _ assms(3) _ h]) (use 1(2) in simp_all)
    have e: "(\<exists>i < NR_BUFFERS s. holds dev block (buf s i)) = True" using 1 by blast
    show ?thesis unfolding e if_True
      by (rule exI [of _ i], rule exI [of _ ?t], intro conjI, rule g [OF getblk_hit [OF assms(1-3) 1(2,3)]], rule ci, rule 1(2),
        simp, rule h, rule u, simp add: bcore_def, simp)
  next
    case 2
    obtain bh t where t: "getblk_round E (sync_dev_of E (getblk_n n E)) dev block s = Ok (Inr bh) t" "cache_inv t" "bh < NR_BUFFERS s"
      "b_count (buf s bh) = 0" "cache_frame s t"
      "\<forall>i. bcore (buf t i) = (if i = bh then (b_data (buf s bh), block, dev, False, False, 1, b_lock (buf s bh)) else bcore (buf s i))"
      using getblk_miss [OF assms(1-3) 2 assms(4)] by blast
    have "bcore (buf t bh) = (b_data (buf s bh), block, dev, False, False, 1, b_lock (buf s bh))" using t(6) by simp
    moreover have "\<not> b_lock (buf s bh)" using assms(2) t(3) by (simp add: at_rest_def)
    ultimately have c: "holds dev block (buf t bh)" "b_count (buf t bh) = 1" "\<not> b_uptodate (buf t bh)" "\<not> b_dirt (buf t bh)" "\<not> b_lock (buf t bh)"
      by (simp_all add: bcore_def holds_def)
    have e: "(\<exists>i < NR_BUFFERS s. holds dev block (buf s i)) = False" using 2(2) by blast
    have u: "\<forall>j < NR_BUFFERS s. holds dev block (buf t j) \<longrightarrow> j = bh"
      by (intro allI impI, rule cache_unique [OF t(2) _ _ assms(3) _ c(1)]) (use t(3) cache_frame_fields(3) [OF t(5)] in simp_all)
    show ?thesis unfolding e if_False
      by (rule exI [of _ bh], rule exI [of _ t], intro conjI, rule g [OF t(1)], rule t(2), rule t(3), rule t(5), rule c(1), rule u,
        rule t(4), rule c(2), rule c(3), rule c(4), rule c(5), simp add: t(6))
  qed
qed

text \<open>The layout that \<^verbatim>\<open>buffer_init\<close> makes.\<close>

lemma seg_upt:
  assumes "\<And>i. m \<le> i \<Longrightarrow> i < n \<Longrightarrow> prv i = (if i = m then q else Some (i - 1)) \<and> nxt i = (if i = n - 1 then p' else Some (i + 1))" and "m < n"
  shows "seg prv nxt q (Some m) [m..<n] (Some (n - 1)) p'"
  using assms
proof (induction "n - m" arbitrary: m q)
  case (Suc k)
  show ?case
  proof (cases "n = Suc m")
    case True
    then show ?thesis using Suc.prems(1) [of m] by simp
  next
    case False
    then have "seg prv nxt (Some m) (Some (Suc m)) [Suc m..<n] (Some (n - 1)) p'"
      using Suc.prems Suc.hyps(2) by (intro Suc.hyps(1)) auto
    moreover have "m \<noteq> n - 1" using False Suc.prems(2) by linarith
    ultimately show ?thesis using Suc.prems(1) [of m] Suc.prems(2) by (simp add: upt_conv_Cons)
  qed
qed simp

lemma buffer_count_bounds:
  assumes "start \<le> bend"
  shows "\<exists>n. buffer_count start bend = Some n \<and> start + 36 * n + 1024 * n \<le> bend"
proof -
  let ?b = "\<lambda>(b, n). 1024 \<le> b \<and> start + 36 * (n + 1) \<le> b - 1024" and ?c = "\<lambda>(b, n). (if b - 1024 = 0x100000 then 0xA0000 else b - 1024, n + 1) :: nat \<times> nat"
  have "\<exists>t. while_option ?b ?c (bend, 0) = Some t"
    by (rule measure_while_option_Some [where P = "\<lambda>_. True" and f = fst]) (auto split: if_splits)
  then obtain b n where w: "while_option ?b ?c (bend, 0) = Some (b, n)" by auto
  have "(\<lambda>(b, n). b + 1024 * n \<le> bend \<and> start + 36 * n + 1024 * n \<le> bend) (b, n)"
    by (rule while_option_rule [OF _ w]) (auto simp: assms split: if_splits)
  then show ?thesis using w by (auto simp: buffer_count_def)
qed

lemma buffer_count_none: "bend < start \<Longrightarrow> buffer_count start bend = Some 0"
  unfolding buffer_count_def by (subst while_option_unfold) auto

lemma buffer_init_ok:
  assumes "buffer_init buffer_end s = Ok () t" and "buf s = (\<lambda>_. empty_buffer)" and "hash_table s = (\<lambda>_. None)"
  shows "1 < NR_BUFFERS t \<longrightarrow> cache_inv t" and "at_rest t" and "\<forall>i. b_dev (buf t i) = 0 \<and> b_count (buf t i) = 0"
proof -
  obtain n where n: "NR_BUFFERS t = n" "free_list t = 0" "hash_table t = (\<lambda>_. None)"
    "buf t = (\<lambda>i. if i < n then empty_buffer\<lparr>b_prev_free := Some (if i = 0 then n - 1 else i - 1), b_next_free := Some (if i = n - 1 then 0 else i + 1)\<rparr>
       else empty_buffer)"
    using assms by (auto simp: buffer_init_def empty_buffer_def fun_eq_iff split: option.splits)
  have "hash_ok {} (\<lambda>_. []) t" by (simp add: hash_ok_def n empty_buffer_def)
  moreover have "free_ok [0..<n] t" if "0 < n"
  proof -
    have "seg (\<lambda>i. b_prev_free (buf t i)) (\<lambda>i. b_next_free (buf t i)) (Some (n - 1)) (Some 0) [0..<n] (Some (n - 1)) (Some 0)"
      by (rule seg_upt) (use that in \<open>auto simp: n\<close>)
    then show ?thesis using that by (auto simp: free_ok_def ring_def n)
  qed
  ultimately show "1 < NR_BUFFERS t \<longrightarrow> cache_inv t" unfolding cache_inv_def n(1) by auto
  show "at_rest t" "\<forall>i. b_dev (buf t i) = 0 \<and> b_count (buf t i) = 0" by (simp_all add: at_rest_def n empty_buffer_def)
qed

lemma buffer_init_small: "\<exists>t. buffer_init 4096 (fs_boot mm_empty) = Ok () t \<and> NR_BUFFERS t = 3"
proof -
  have "buffer_count 0 4096 = Some 3"
    unfolding buffer_count_def by (subst while_option_unfold, simp)+
  then show ?thesis by (simp add: buffer_init_def)
qed

text \<open>
  C7. \<^verbatim>\<open>getblk\<close> on a quiet cache that has an unused buffer: it returns, the hash queues and the free list
  are well formed afterwards, and the buffer returned is the only one for this device and block. If the block
  was cached, it is the cached buffer with its contents and one more user; otherwise it is a buffer nobody used, with one user,
  not up to date, clean and unlocked. No other buffer changes its identity, contents or count.
\<close>

theorem getblk_unique:
  assumes "cache_inv s" and "at_rest s" and "dev \<noteq> 0" and "\<exists>i < NR_BUFFERS s. b_count (buf s i) = 0" and "0 < c_depth E"
  shows "\<exists>bh t. getblk E dev block s = Ok bh t \<and> cache_inv t \<and> bh < NR_BUFFERS s \<and> NR_BUFFERS t = NR_BUFFERS s \<and>
    holds dev block (buf t bh) \<and> (\<forall>i < NR_BUFFERS s. holds dev block (buf t i) \<longrightarrow> i = bh) \<and>
    (if \<exists>i < NR_BUFFERS s. holds dev block (buf s i)
     then bcore (buf t bh) = bcore ((buf s bh)\<lparr>b_count := b_count (buf s bh) + 1\<rparr>)
     else b_count (buf s bh) = 0 \<and> b_count (buf t bh) = 1 \<and> \<not> b_uptodate (buf t bh) \<and> \<not> b_dirt (buf t bh) \<and> \<not> b_lock (buf t bh)) \<and>
    (\<forall>i. i \<noteq> bh \<longrightarrow> bcore (buf t i) = bcore (buf s i))"
  using getblk_ok [OF assms, of block] by (elim ex_forward conj_forward) (assumption | rule cache_frame_fields(3))+

theorem getblk_unique_witness:
  "\<exists>t bh u. buffer_init 4096 (fs_boot mm_empty) = Ok () t \<and> getblk idle_ctx 0x101 7 t = Ok bh u \<and> holds 0x101 7 (buf u bh) \<and> b_count (buf u bh) = 1"
proof -
  obtain t where t: "buffer_init 4096 (fs_boot mm_empty) = Ok () t" "NR_BUFFERS t = 3" using buffer_init_small by blast
  then have "cache_inv t" "at_rest t" "\<forall>i. b_dev (buf t i) = 0 \<and> b_count (buf t i) = 0" using buffer_init_ok [OF t(1)] by simp_all
  moreover have "\<exists>i < NR_BUFFERS t. b_count (buf t i) = 0" using calculation(3) t(2) by (intro exI [of _ 0]) simp
  ultimately show ?thesis using getblk_unique [of t "0x101" idle_ctx 7] t by (auto simp: idle_ctx_def holds_def)
qed

subsection \<open>The cache after \<open>buffer_init\<close>\<close>



end
