(* ===== verification/Inodes.thy ===== *)
theory Inodes
  imports Buffer_Cache
begin

unbundle bit_operations_syntax

section \<open>Zones, inodes and super blocks\<close>

text \<open>
  \<^verbatim>\<open>fs/bitmap.c\<close>, \<^verbatim>\<open>fs/truncate.c\<close>, the rest of \<^verbatim>\<open>fs/inode.c\<close> and of \<^verbatim>\<open>fs/super.c\<close> but for the two system
  calls that need path names, and \<^verbatim>\<open>check_disk_change\<close> of \<^verbatim>\<open>fs/buffer.c\<close>. The properties: \<^verbatim>\<open>find_first_zero\<close>
  finds the first clear bit, a zone that \<^verbatim>\<open>new_block\<close> hands out was free, is in the data area and is free again after
  \<^verbatim>\<open>free_block\<close>, and an inode comes back from the disk as it was written.
\<close>

subsection \<open>Bit maps\<close>

definition clear_block :: "block \<Rightarrow> block" where
  "clear_block d = (\<lambda>i. if i < 1024 then 0 else d i)"

text \<open>Bit \<open>nr\<close> of a block, as \<^verbatim>\<open>btsl\<close> and \<^verbatim>\<open>btrl\<close> count them.\<close>

definition blk_bit :: "block \<Rightarrow> nat \<Rightarrow> bool" where
  "blk_bit d nr = bit (d (nr div 8)) (nr mod 8)"

definition set_bit_in :: "nat \<Rightarrow> block \<Rightarrow> bool \<times> block" where
  "set_bit_in nr d = (blk_bit d nr, d(nr div 8 := d (nr div 8) OR push_bit (nr mod 8) 1))"

definition clear_bit_in :: "nat \<Rightarrow> block \<Rightarrow> bool \<times> block" where
  "clear_bit_in nr d = (\<not> blk_bit d nr, d(nr div 8 := d (nr div 8) AND NOT (push_bit (nr mod 8) 1)))"

definition bsf :: "u32 \<Rightarrow> nat" where
  "bsf w = hd (filter (bit w) [0..<32])"

text \<open>The loop of \<^verbatim>\<open>find_first_zero\<close>: \<open>ecx\<close> counts the bits passed, \<^verbatim>\<open>lodsl\<close> has read \<open>ecx div 8\<close> bytes before.\<close>

function ffz_loop :: "block \<Rightarrow> nat \<Rightarrow> nat" where
  "ffz_loop d ecx =
     (let eax = NOT (get32 d (ecx div 8))
      in if eax \<noteq> 0 then ecx + bsf eax
         else if ecx + 32 < 8192 then ffz_loop d (ecx + 32) else ecx + 32)"
  by pat_completeness auto
termination by (relation "measure (\<lambda>(d, ecx). 8192 - ecx)") auto

declare ffz_loop.simps [simp del]

definition find_first_zero :: "block \<Rightarrow> nat" where
  "find_first_zero d = ffz_loop d 0"

text \<open>
  The search over the eight map blocks of a super block: the slot and the bit, or \<open>None\<close> when no block that is present
  has a clear bit.
\<close>

definition find_map_bit :: "(nat \<Rightarrow> nat option) \<Rightarrow> 'z fs_st_scheme \<Rightarrow> (nat \<times> nat \<times> nat) option" where
  "find_map_bit zm s =
     map_option (\<lambda>i. (i, the (zm i), find_first_zero (b_data (buf s (the (zm i))))))
       (find (\<lambda>i. zm i \<noteq> None \<and> find_first_zero (b_data (buf s (the (zm i)))) < 8192) [0..<8])"

text \<open>Lines 67 to 72 of \<^verbatim>\<open>free_block\<close>: clear the bit of a zone that is known to be a data zone.\<close>

definition clear_zone :: "nat \<Rightarrow> u16 \<Rightarrow> 'z fs_st_scheme \<Rightarrow> (unit, 'z fs_st_scheme) outcome" where
  "clear_zone sb block s =
     (let n = unat block + 1 - unat (s_firstdatazone (sblock s sb))
      in case s_zmap (sblock s sb) (n div 8192) of
           None \<Rightarrow> UB
         | Some z \<Rightarrow> let (was_clear, d) = clear_bit_in (n mod 8192) (b_data (buf s z))
                     in if was_clear then Panic ''free_block: bit already cleared''
                        else Ok () (upd_buf z (\<lambda>b. b\<lparr>b_data := d, b_dirt := True\<rparr>) s))"

definition free_block :: "('z fs_st_scheme) ctx \<Rightarrow> u16 \<Rightarrow> u16 \<Rightarrow> 'z fs_st_scheme \<Rightarrow> (unit, 'z fs_st_scheme) outcome" where
  "free_block E dev block s =
     bindK (get_super E dev s) (\<lambda>sb s.
     case sb of
       None \<Rightarrow> Panic ''trying to free block on nonexistent device''
     | Some sb \<Rightarrow>
         if block < s_firstdatazone (sblock s sb) \<or> block \<ge> s_nzones (sblock s sb) then Panic ''trying to free block not in datazone''
         else bindK (get_hash_table E dev (ucast block) s) (\<lambda>bh s.
           case bh of
             Some b \<Rightarrow>
               if b_count (buf s b) \<noteq> 1 then Ok () s
               else bindK (brelse E bh (upd_buf b (\<lambda>b. b\<lparr>b_dirt := False, b_uptodate := False\<rparr>) s)) (\<lambda>_ s. clear_zone sb block s)
           | None \<Rightarrow> clear_zone sb block s))"

text \<open>\<^verbatim>\<open>new_block\<close> answers a zone number below \<^verbatim>\<open>s_nzones\<close>, so the \<^verbatim>\<open>int\<close> it returns is a 16-bit word; 0 is "none".\<close>

definition new_block :: "('z fs_st_scheme) ctx \<Rightarrow> u16 \<Rightarrow> 'z fs_st_scheme \<Rightarrow> (u16, 'z fs_st_scheme) outcome" where
  "new_block E dev s =
     bindK (get_super E dev s) (\<lambda>sb s.
     case sb of
       None \<Rightarrow> Panic ''trying to get new block from nonexistant device''
     | Some sb \<Rightarrow>
         (case find_map_bit (s_zmap (sblock s sb)) s of
            None \<Rightarrow> Ok 0 s
          | Some (i, z, j) \<Rightarrow>
              let (was_set, d) = set_bit_in j (b_data (buf s z))
              in if was_set then Panic ''new_block: bit already set''
                 else let s = upd_buf z (\<lambda>b. b\<lparr>b_data := d, b_dirt := True\<rparr>) s;
                          j = int (j + i * 8192) + uint (s_firstdatazone (sblock s sb)) - 1
                      in if j \<ge> uint (s_nzones (sblock s sb)) then Ok 0 s
                         else bindK (getblk E dev (word_of_int j) s) (\<lambda>bh s.
                           if b_count (buf s bh) \<noteq> 1 then Panic ''new block: count is != 1''
                           else bindK (brelse E (Some bh)
                                  (upd_buf bh (\<lambda>b. b\<lparr>b_data := clear_block (b_data b), b_uptodate := True, b_dirt := True\<rparr>) s)) (\<lambda>_ s.
                                Ok (word_of_int j) s))))"

subsection \<open>Truncating a file\<close>

definition free_ind :: "('z fs_st_scheme) ctx \<Rightarrow> u16 \<Rightarrow> u16 \<Rightarrow> 'z fs_st_scheme \<Rightarrow> (unit, 'z fs_st_scheme) outcome" where
  "free_ind E dev block s =
     (if block = 0 then Ok () s
      else bindK (bread E dev (ucast block) s) (\<lambda>bh s.
           bindK (case bh of
               None \<Rightarrow> Ok () s
             | Some b \<Rightarrow>
                 bindK (forK [0..<512] (\<lambda>i s.
                   let p = get16 (b_data (buf s b)) (2 * i) in if p \<noteq> 0 then free_block E dev p s else Ok () s) s) (\<lambda>_ s.
                 brelse E bh s)) (\<lambda>_ s.
           free_block E dev block s)))"

definition free_dind :: "('z fs_st_scheme) ctx \<Rightarrow> u16 \<Rightarrow> u16 \<Rightarrow> 'z fs_st_scheme \<Rightarrow> (unit, 'z fs_st_scheme) outcome" where
  "free_dind E dev block s =
     (if block = 0 then Ok () s
      else bindK (bread E dev (ucast block) s) (\<lambda>bh s.
           bindK (case bh of
               None \<Rightarrow> Ok () s
             | Some b \<Rightarrow>
                 bindK (forK [0..<512] (\<lambda>i s.
                   let p = get16 (b_data (buf s b)) (2 * i) in if p \<noteq> 0 then free_ind E dev p s else Ok () s) s) (\<lambda>_ s.
                 brelse E bh s)) (\<lambda>_ s.
           free_block E dev block s)))"

definition set_zone :: "nat \<Rightarrow> u16 \<Rightarrow> m_inode \<Rightarrow> m_inode" where
  "set_zone k v n = n\<lparr>i_zone := (i_zone n)(k := v)\<rparr>"

definition truncate_inode :: "('z fs_st_scheme) ctx \<Rightarrow> nat \<Rightarrow> 'z fs_st_scheme \<Rightarrow> (unit, 'z fs_st_scheme) outcome" where
  "truncate_inode E i s =
     (if \<not> (S_ISREG (i_mode (inode s i)) \<or> S_ISDIR (i_mode (inode s i))) then Ok () s
      else bindK (forK [0..<7] (\<lambda>k s.
             if i_zone (inode s i) k = 0 then Ok () s
             else bindK (free_block E (i_dev (inode s i)) (i_zone (inode s i) k) s) (\<lambda>_ s. Ok () (upd_inode i (set_zone k 0) s))) s) (\<lambda>_ s.
           bindK (free_ind E (i_dev (inode s i)) (i_zone (inode s i) 7) s) (\<lambda>_ s.
           bindK (free_dind E (i_dev (inode s i)) (i_zone (inode s i) 8) s) (\<lambda>_ s.
           Ok () (upd_inode i (\<lambda>n. (set_zone 8 0 (set_zone 7 0 n))\<lparr>i_size := 0, i_dirt := True, i_mtime := now s, i_ctime := now s\<rparr>) s)))))"

subsection \<open>The zones of a file\<close>

text \<open>
  The three steps of \<^verbatim>\<open>_bmap\<close>: \<open>inode_zone\<close> is the entry \<open>k\<close> of the inode, made on demand; \<open>ind_zone\<close> is an entry of an
  indirect block, made on demand (lines 98 to 107, 117 to 125 and 128 to 137 are the same code).
\<close>

definition inode_zone :: "('z fs_st_scheme) ctx \<Rightarrow> nat \<Rightarrow> nat \<Rightarrow> bool \<Rightarrow> 'z fs_st_scheme \<Rightarrow> (u16, 'z fs_st_scheme) outcome" where
  "inode_zone E i k create s =
     bindK (if create \<and> i_zone (inode s i) k = 0
            then bindK (new_block E (i_dev (inode s i)) s) (\<lambda>z s.
                   let s = upd_inode i (set_zone k z) s
                   in Ok () (if z \<noteq> 0 then upd_inode i (\<lambda>n. n\<lparr>i_ctime := now s, i_dirt := True\<rparr>) s else s))
            else Ok () s) (\<lambda>_ s.
     Ok (i_zone (inode s i) k) s)"

definition ind_zone :: "('z fs_st_scheme) ctx \<Rightarrow> nat \<Rightarrow> u16 \<Rightarrow> nat \<Rightarrow> bool \<Rightarrow> 'z fs_st_scheme \<Rightarrow> (u16, 'z fs_st_scheme) outcome" where
  "ind_zone E i z idx create s =
     (if z = 0 then Ok 0 s
      else bindK (bread E (i_dev (inode s i)) (ucast z) s) (\<lambda>bh s.
        case bh of
          None \<Rightarrow> Ok 0 s
        | Some b \<Rightarrow>
            let v = get16 (b_data (buf s b)) (2 * idx)
            in bindK (if create \<and> v = 0
                      then bindK (new_block E (i_dev (inode s i)) s) (\<lambda>v s.
                             Ok v (if v \<noteq> 0 then upd_buf b (\<lambda>b. b\<lparr>b_data := put16 v (2 * idx) (b_data b), b_dirt := True\<rparr>) s else s))
                      else Ok v s) (\<lambda>v s.
               bindK (brelse E bh s) (\<lambda>_ s. Ok v s))))"

definition bmap_of :: "('z fs_st_scheme) ctx \<Rightarrow> nat \<Rightarrow> int \<Rightarrow> bool \<Rightarrow> 'z fs_st_scheme \<Rightarrow> (u16, 'z fs_st_scheme) outcome" where
  "bmap_of E i block create s =
     (if block < 0 then Panic ''_bmap: block<0''
      else if block \<ge> 7 + 512 + 512 * 512 then Panic ''_bmap: block>big''
      else let b = nat block
           in if b < 7 then inode_zone E i b create s
              else if b - 7 < 512
              then bindK (inode_zone E i 7 create s) (\<lambda>z s. ind_zone E i z (b - 7) create s)
              else bindK (inode_zone E i 8 create s) (\<lambda>z s.
                   bindK (ind_zone E i z ((b - 7 - 512) div 512) create s) (\<lambda>z s.
                   ind_zone E i z ((b - 7 - 512) mod 512) create s)))"

definition bmap :: "('z fs_st_scheme) ctx \<Rightarrow> nat \<Rightarrow> int \<Rightarrow> 'z fs_st_scheme \<Rightarrow> (u16, 'z fs_st_scheme) outcome" where
  "bmap E i block s = bmap_of E i block False s"

definition create_block :: "('z fs_st_scheme) ctx \<Rightarrow> nat \<Rightarrow> int \<Rightarrow> 'z fs_st_scheme \<Rightarrow> (u16, 'z fs_st_scheme) outcome" where
  "create_block E i block s = bmap_of E i block True s"

subsection \<open>The inode table\<close>

text \<open>\<^verbatim>\<open>memset(inode,0,sizeof( *inode))\<close>: the wait queue of the inode is a field of it.\<close>

definition clear_inode :: "nat \<Rightarrow> 'z fs_st_scheme \<Rightarrow> 'z fs_st_scheme" where
  "clear_inode i s = s\<lparr>inode := (inode s)(i := empty_inode), wait_head := (wait_head s)(WqInode i := None)\<rparr>"

definition free_inode :: "('z fs_st_scheme) ctx \<Rightarrow> nat \<Rightarrow> 'z fs_st_scheme \<Rightarrow> (unit, 'z fs_st_scheme) outcome" where
  "free_inode E i s =
     (if i_dev (inode s i) = 0 then Ok () (clear_inode i s)
      else if i_count (inode s i) > 1 then Panic ''free_inode''
      else if i_nlinks (inode s i) \<noteq> 0 then Panic ''trying to free inode with links''
      else bindK (get_super E (i_dev (inode s i)) s) (\<lambda>sb s.
        case sb of
          None \<Rightarrow> Panic ''trying to free inode on nonexistent device''
        | Some sb \<Rightarrow>
            if i_num (inode s i) < 1 \<or> i_num (inode s i) > s_ninodes (sblock s sb)
            then Panic ''trying to free inode 0 or nonexistant inode''
            else (case s_imap (sblock s sb) (unat (i_num (inode s i)) div 8192) of
                    None \<Rightarrow> Panic ''nonexistent imap in superblock''
                  | Some bh \<Rightarrow>
                      let d = snd (clear_bit_in (unat (i_num (inode s i)) mod 8192) (b_data (buf s bh)))
                      in Ok () (clear_inode i (upd_buf bh (\<lambda>b. b\<lparr>b_data := d, b_dirt := True\<rparr>) s)))))"

definition iput_round :: "('z fs_st_scheme) ctx \<Rightarrow> nat \<Rightarrow> 'z fs_st_scheme \<Rightarrow> (unit + unit, 'z fs_st_scheme) outcome" where
  "iput_round E i s =
     (if i_count (inode s i) > 1 then Ok (Inr ()) (upd_inode i (i_count_update (\<lambda>c. c - 1)) s)
      else if i_nlinks (inode s i) = 0
      then bindK (truncate_inode E i s) (\<lambda>_ s. bindK (free_inode E i s) (\<lambda>_ s. Ok (Inr ()) s))
      else if i_dirt (inode s i)
      then bindK (write_inode E i s) (\<lambda>_ s. bindK (wait_on_inode E i s) (\<lambda>_ s. Ok (Inl ()) s))
      else Ok (Inr ()) (upd_inode i (i_count_update (\<lambda>c. c - 1)) s))"

definition iput :: "('z fs_st_scheme) ctx \<Rightarrow> nat option \<Rightarrow> 'z fs_st_scheme \<Rightarrow> (unit, 'z fs_st_scheme) outcome" where
  "iput E p s =
     (case p of
        None \<Rightarrow> Ok () s
      | Some i \<Rightarrow>
          bindK (wait_on_inode E i s) (\<lambda>_ s.
          if i_count (inode s i) = 0 then Panic ''iput: trying to free free inode''
          else if i_pipe (inode s i)
          then let s = upd_inode i (i_count_update (\<lambda>c. c - 1)) (wake_up (WqInode i) s)
               in if i_count (inode s i) \<noteq> 0 then Ok () s
                  else bindK (free_page (i_size (inode s i)) s) (\<lambda>_ s.
                       Ok () (upd_inode i (\<lambda>n. n\<lparr>i_count := 0, i_dirt := False, i_pipe := False\<rparr>) s))
          else if i_dev (inode s i) = 0 then Ok () (upd_inode i (i_count_update (\<lambda>c. c - 1)) s)
          else bindK (if S_ISBLK (i_mode (inode s i))
                      then bindK (sync_dev E (i_zone (inode s i) 0) s) (\<lambda>_ s. wait_on_inode E i s)
                      else Ok () s) (\<lambda>_ s.
               iterK (\<lambda>_. iput_round E i) () s)))"

text \<open>\<^verbatim>\<open>get_empty_inode\<close>: one sweep over the table from \<^verbatim>\<open>last_inode\<close> on, for at most \<open>k\<close> entries.\<close>

primrec inode_sweep :: "nat \<Rightarrow> nat option \<Rightarrow> 'z fs_st_scheme \<Rightarrow> nat option \<times> 'z fs_st_scheme" where
  "inode_sweep 0 found s = (found, s)"
| "inode_sweep (Suc k) found s =
     (let l = (if last_inode s + 1 \<ge> NR_INODE then 0 else last_inode s + 1); s = s\<lparr>last_inode := l\<rparr>
      in if i_count (inode s l) \<noteq> 0 then inode_sweep k found s
         else if \<not> i_dirt (inode s l) \<and> \<not> i_lock (inode s l) then (Some l, s)
         else inode_sweep k (Some l) s)"

definition clean_inode :: "('z fs_st_scheme) ctx \<Rightarrow> nat \<Rightarrow> 'z fs_st_scheme \<Rightarrow> (unit, 'z fs_st_scheme) outcome" where
  "clean_inode E i s =
     bindK (wait_on_inode E i s) (\<lambda>_ s.
     iterK (\<lambda>_ s.
       if i_dirt (inode s i)
       then bindK (write_inode E i s) (\<lambda>_ s. bindK (wait_on_inode E i s) (\<lambda>_ s. Ok (Inl ()) s))
       else Ok (Inr ()) s) () s)"

definition get_empty_inode :: "('z fs_st_scheme) ctx \<Rightarrow> 'z fs_st_scheme \<Rightarrow> (nat, 'z fs_st_scheme) outcome" where
  "get_empty_inode E s =
     iterK (\<lambda>(_ :: unit) s.
       let (found, s) = inode_sweep NR_INODE None s
       in case found of
            None \<Rightarrow> Panic ''No free inodes in mem''
          | Some i \<Rightarrow> bindK (clean_inode E i s) (\<lambda>_ s.
              if i_count (inode s i) \<noteq> 0 then Ok (Inl ()) s
              else Ok (Inr i) (upd_inode i (i_count_update (\<lambda>_. 1)) (clear_inode i s)))) () s"

definition get_pipe_inode :: "('z fs_st_scheme) ctx \<Rightarrow> 'z fs_st_scheme \<Rightarrow> (nat option, 'z fs_st_scheme) outcome" where
  "get_pipe_inode E s =
     bindK (get_empty_inode E s) (\<lambda>i s.
     let (p, s) = get_free_page s; s = upd_inode i (i_size_update (\<lambda>_. p)) s
     in if p = 0 then Ok None (upd_inode i (i_count_update (\<lambda>_. 0)) s)
        else Ok (Some i) (upd_inode i (\<lambda>n. (set_zone 1 0 (set_zone 0 0 n))\<lparr>i_count := 2, i_pipe := True\<rparr>) s))"

definition new_inode :: "('z fs_st_scheme) ctx \<Rightarrow> u16 \<Rightarrow> 'z fs_st_scheme \<Rightarrow> (nat option, 'z fs_st_scheme) outcome" where
  "new_inode E dev s =
     bindK (get_empty_inode E s) (\<lambda>n s.
     bindK (get_super E dev s) (\<lambda>sb s.
     case sb of
       None \<Rightarrow> Panic ''new_inode with unknown device''
     | Some sb \<Rightarrow>
         (case find_map_bit (s_imap (sblock s sb)) s of
            None \<Rightarrow> bindK (iput E (Some n) s) (\<lambda>_ s. Ok None s)
          | Some (i, bh, j) \<Rightarrow>
              if j + i * 8192 > unat (s_ninodes (sblock s sb)) then bindK (iput E (Some n) s) (\<lambda>_ s. Ok None s)
              else let (was_set, d) = set_bit_in j (b_data (buf s bh))
                   in if was_set then Panic ''new_inode: bit already set''
                      else let s = upd_buf bh (\<lambda>b. b\<lparr>b_data := d, b_dirt := True\<rparr>) s
                           in Ok (Some n) (upd_inode n (\<lambda>x. x\<lparr>i_count := 1, i_nlinks := 1, i_dev := dev, i_uid := t_euid (cur s),
                                i_gid := ucast (t_egid (cur s)), i_dirt := True, i_num := word_of_nat (j + i * 8192),
                                i_mtime := now s, i_atime := now s, i_ctime := now s\<rparr>) s))))"

definition read_inode :: "('z fs_st_scheme) ctx \<Rightarrow> nat \<Rightarrow> 'z fs_st_scheme \<Rightarrow> (unit, 'z fs_st_scheme) outcome" where
  "read_inode E i s =
     bindK (lock_inode E i s) (\<lambda>_ s.
     bindK (get_super E (i_dev (inode s i)) s) (\<lambda>sb s.
     case sb of
       None \<Rightarrow> Panic ''trying to read inode without dev''
     | Some sb \<Rightarrow>
         bindK (bread E (i_dev (inode s i)) (inode_block (sblock s sb) (i_num (inode s i))) s) (\<lambda>bh s.
         case bh of
           None \<Rightarrow> Panic ''unable to read i-node block''
         | Some b \<Rightarrow>
             bindK (brelse E bh (upd_inode i (get_d_inode (b_data (buf s b)) (inode_offset (i_num (inode s i)))) s)) (\<lambda>_ s.
             Ok () (unlock_inode i s)))))"

text \<open>
  \<^verbatim>\<open>iget\<close>: the loop variables are the device, the inode number and the table entry to look at; stepping onto a
  mount point starts over with the root of the mounted device.
\<close>

definition iget :: "('z fs_st_scheme) ctx \<Rightarrow> u16 \<Rightarrow> u16 \<Rightarrow> 'z fs_st_scheme \<Rightarrow> (nat, 'z fs_st_scheme) outcome" where
  "iget E dev0 nr0 s =
     (if dev0 = 0 then Panic ''iget with dev==0''
      else bindK (get_empty_inode E s) (\<lambda>empty s.
        iterK (\<lambda>(dev, nr, i) s.
          if i \<ge> NR_INODE
          then bindK (read_inode E empty (upd_inode empty (\<lambda>n. n\<lparr>i_dev := dev, i_num := nr\<rparr>) s)) (\<lambda>_ s. Ok (Inr empty) s)
          else if i_dev (inode s i) \<noteq> dev \<or> i_num (inode s i) \<noteq> nr then Ok (Inl (dev, nr, i + 1)) s
          else bindK (wait_on_inode E i s) (\<lambda>_ s.
            if i_dev (inode s i) \<noteq> dev \<or> i_num (inode s i) \<noteq> nr then Ok (Inl (dev, nr, 0)) s
            else let s = upd_inode i (i_count_update (\<lambda>c. c + 1)) s
                 in if i_mount (inode s i)
                    then (case find (\<lambda>k. s_imount (sblock s k) = Some i) [0..<NR_SUPER] of
                            None \<Rightarrow> bindK (iput E (Some empty) s) (\<lambda>_ s. Ok (Inr i) s)
                          | Some k \<Rightarrow> bindK (iput E (Some i) s) (\<lambda>_ s. Ok (Inl (s_dev (sblock s k), ROOT_INO, 0)) s))
                    else bindK (iput E (Some empty) s) (\<lambda>_ s. Ok (Inr i) s))) (dev0, nr0, 0) s))"

definition invalidate_inodes :: "('z fs_st_scheme) ctx \<Rightarrow> u16 \<Rightarrow> 'z fs_st_scheme \<Rightarrow> (unit, 'z fs_st_scheme) outcome" where
  "invalidate_inodes E dev s = forK [0..<NR_INODE] (\<lambda>i s.
     bindK (wait_on_inode E i s) (\<lambda>_ s.
     Ok () (if i_dev (inode s i) = dev then upd_inode i (\<lambda>n. n\<lparr>i_dev := 0, i_dirt := False\<rparr>) s else s))) s"

subsection \<open>Super blocks\<close>

abbreviation (input) I_MAP_SLOTS :: nat where "I_MAP_SLOTS \<equiv> 8"
abbreviation (input) Z_MAP_SLOTS :: nat where "Z_MAP_SLOTS \<equiv> 8"

definition release_maps :: "('z fs_st_scheme) ctx \<Rightarrow> nat \<Rightarrow> 'z fs_st_scheme \<Rightarrow> (unit, 'z fs_st_scheme) outcome" where
  "release_maps E sb s =
     bindK (forK [0..<I_MAP_SLOTS] (\<lambda>k s. brelse E (s_imap (sblock s sb) k) s) s) (\<lambda>_ s.
     forK [0..<Z_MAP_SLOTS] (\<lambda>k s. brelse E (s_zmap (sblock s sb) k) s) s)"

definition put_super :: "('z fs_st_scheme) ctx \<Rightarrow> u16 \<Rightarrow> 'z fs_st_scheme \<Rightarrow> (unit, 'z fs_st_scheme) outcome" where
  "put_super E dev s =
     (if dev = ROOT_DEV s then Ok () s
      else bindK (get_super E dev s) (\<lambda>sb s.
        case sb of
          None \<Rightarrow> Ok () s
        | Some sb \<Rightarrow>
            if s_imount (sblock s sb) \<noteq> None then Ok () s
            else bindK (lock_super E sb s) (\<lambda>_ s.
                 bindK (release_maps E sb (upd_super sb (s_dev_update (\<lambda>_. 0)) s)) (\<lambda>_ s.
                 Ok () (free_super sb s)))))"

definition check_disk_change :: "('z fs_st_scheme) ctx \<Rightarrow> u16 \<Rightarrow> 'z fs_st_scheme \<Rightarrow> (unit, 'z fs_st_scheme) outcome" where
  "check_disk_change E dev s =
     (if MAJOR dev \<noteq> 2 then Ok () s
      else bindK (c_floppy E (unat (dev AND 3)) s) (\<lambda>changed s.
        if \<not> changed then Ok () s
        else bindK (forK [0..<NR_SUPER] (\<lambda>k s. if s_dev (sblock s k) = dev then put_super E (s_dev (sblock s k)) s else Ok () s) s) (\<lambda>_ s.
             bindK (invalidate_inodes E dev s) (\<lambda>_ s.
             invalidate_buffers E dev s))))"

definition get_d_super :: "block \<Rightarrow> super_block \<Rightarrow> super_block" where
  "get_d_super d sb = sb\<lparr>s_ninodes := get16 d 0, s_nzones := get16 d 2, s_imap_blocks := get16 d 4, s_zmap_blocks := get16 d 6,
     s_firstdatazone := get16 d 8, s_log_zone_size := get16 d 10, s_max_size := get32 d 12, s_magic := get16 d 16\<rparr>"

text \<open>
  The two loops of \<^verbatim>\<open>read_super\<close> that read the maps: \<open>set_slot k v\<close> stores map block \<open>k\<close>, \<open>n\<close> is the number of blocks
  and the result is the number of the next block on the disk. A ninth map block would be stored past the array.
\<close>

definition read_maps ::
    "('z fs_st_scheme) ctx \<Rightarrow> u16 \<Rightarrow> (nat \<Rightarrow> nat option \<Rightarrow> 'z fs_st_scheme \<Rightarrow> 'z fs_st_scheme) \<Rightarrow> nat \<Rightarrow> u32 \<Rightarrow> 'z fs_st_scheme
       \<Rightarrow> (u32, 'z fs_st_scheme) outcome" where
  "read_maps E dev set_slot n block s = iterK (\<lambda>(k, block) s.
     if k \<ge> n then Ok (Inr block) s
     else bindK (bread E dev block s) (\<lambda>bh s.
       if k \<ge> 8 then UB
       else let s = set_slot k bh s
            in Ok (if bh = None then Inr block else Inl (k + 1, block + 1)) s)) (0, block) s"

definition fail_super :: "nat \<Rightarrow> 'z fs_st_scheme \<Rightarrow> (nat option, 'z fs_st_scheme) outcome" where
  "fail_super sb s = Ok None (free_super sb (upd_super sb (s_dev_update (\<lambda>_. 0)) s))"

definition mark_first :: "nat option \<Rightarrow> 'z fs_st_scheme \<Rightarrow> (unit, 'z fs_st_scheme) outcome" where
  "mark_first bh s =
     (case bh of None \<Rightarrow> UB | Some b \<Rightarrow> Ok () (upd_buf b (\<lambda>x. x\<lparr>b_data := (b_data x)(0 := b_data x 0 OR 1)\<rparr>) s))"

definition fill_super :: "('z fs_st_scheme) ctx \<Rightarrow> u16 \<Rightarrow> nat \<Rightarrow> 'z fs_st_scheme \<Rightarrow> (nat option, 'z fs_st_scheme) outcome" where
  "fill_super E dev sb s =
     bindK (bread E dev 1 s) (\<lambda>bh s.
     case bh of
       None \<Rightarrow> fail_super sb s
     | Some b \<Rightarrow>
         bindK (brelse E bh (upd_super sb (get_d_super (b_data (buf s b))) s)) (\<lambda>_ s.
         if s_magic (sblock s sb) \<noteq> SUPER_MAGIC then fail_super sb s
         else let s = upd_super sb (\<lambda>x. x\<lparr>s_imap := (\<lambda>k. if k < I_MAP_SLOTS then None else s_imap x k),
                        s_zmap := (\<lambda>k. if k < Z_MAP_SLOTS then None else s_zmap x k)\<rparr>) s
              in bindK (read_maps E dev (\<lambda>k v. upd_super sb (\<lambda>x. x\<lparr>s_imap := (s_imap x)(k := v)\<rparr>)) (unat (s_imap_blocks (sblock s sb))) 2 s) (\<lambda>block s.
                 bindK (read_maps E dev (\<lambda>k v. upd_super sb (\<lambda>x. x\<lparr>s_zmap := (s_zmap x)(k := v)\<rparr>)) (unat (s_zmap_blocks (sblock s sb))) block s) (\<lambda>block s.
                 if block \<noteq> 2 + ucast (s_imap_blocks (sblock s sb)) + ucast (s_zmap_blocks (sblock s sb))
                 then bindK (release_maps E sb s) (\<lambda>_ s. fail_super sb s)
                 else bindK (mark_first (s_imap (sblock s sb) 0) s) (\<lambda>_ s.
                      bindK (mark_first (s_zmap (sblock s sb) 0) s) (\<lambda>_ s.
                      Ok (Some sb) (free_super sb s)))))))"

definition read_super :: "('z fs_st_scheme) ctx \<Rightarrow> u16 \<Rightarrow> 'z fs_st_scheme \<Rightarrow> (nat option, 'z fs_st_scheme) outcome" where
  "read_super E dev s =
     (if dev = 0 then Ok None s
      else bindK (check_disk_change E dev s) (\<lambda>_ s.
           bindK (get_super E dev s) (\<lambda>sb s.
           if sb \<noteq> None then Ok sb s
           else case find (\<lambda>k. s_dev (sblock s k) = 0) [0..<NR_SUPER] of
                  None \<Rightarrow> Ok None s
                | Some k \<Rightarrow>
                    bindK (lock_super E k (upd_super k (\<lambda>x. x\<lparr>s_dev := dev, s_isup := None, s_imount := None, s_time := 0,
                      s_rd_only := False, s_dirt := False\<rparr>) s)) (\<lambda>_ s.
                    fill_super E dev k s))))"

text \<open>
  The two loops at the end of \<^verbatim>\<open>mount_root\<close> count the free zones and inodes. The macro that \<^verbatim>\<open>super.c\<close> calls
  \<^verbatim>\<open>set_bit\<close> is the instruction \<^verbatim>\<open>bt\<close>: it only reads the bit. The result of \<open>mount_root\<close> is the pair of numbers that it
  prints; \<^verbatim>\<open>wait_for_keypress\<close> is the argument \<open>keypress\<close>.
\<close>

definition count_free :: "(nat \<Rightarrow> nat option) \<Rightarrow> nat \<Rightarrow> 'z fs_st_scheme \<Rightarrow> (nat, 'z fs_st_scheme) outcome" where
  "count_free zm n s =
     (if \<exists>i \<in> set [0..<n]. zm (i div 8192) = None then UB
      else Ok (length (filter (\<lambda>i. \<not> blk_bit (b_data (buf s (the (zm (i div 8192))))) (i mod 8192)) [0..<n])) s)"

definition mount_root ::
    "('z fs_st_scheme) ctx \<Rightarrow> ('z fs_st_scheme \<Rightarrow> (unit, 'z fs_st_scheme) outcome) \<Rightarrow> 'z fs_st_scheme \<Rightarrow> (nat \<times> nat, 'z fs_st_scheme) outcome" where
  "mount_root E keypress s =
     (let s = fold (\<lambda>i. upd_file i (f_count_update (\<lambda>_. 0))) [0..<NR_FILE] s
      in bindK (if MAJOR (ROOT_DEV s) = 2 then keypress s else Ok () s) (\<lambda>_ s.
         let s = fold (\<lambda>k s. (upd_super k (\<lambda>x. x\<lparr>s_dev := 0, s_lock := False\<rparr>) s)\<lparr>wait_head := (wait_head s)(WqSuper k := None)\<rparr>) [0..<NR_SUPER] s
         in bindK (read_super E (ROOT_DEV s) s) (\<lambda>p s.
            case p of
              None \<Rightarrow> Panic ''Unable to mount root''
            | Some p \<Rightarrow>
                bindK (iget E (ROOT_DEV s) ROOT_INO s) (\<lambda>mi s.
                let s = upd_inode mi (i_count_update (\<lambda>c. c + 3)) s;
                    s = upd_super p (\<lambda>x. x\<lparr>s_isup := Some mi, s_imount := Some mi\<rparr>) s;
                    s = upd_cur (\<lambda>t. t\<lparr>t_pwd := Some mi, t_root := Some mi\<rparr>) s
                in bindK (count_free (s_zmap (sblock s p)) (unat (s_nzones (sblock s p))) s) (\<lambda>zones s.
                   bindK (count_free (s_imap (sblock s p)) (unat (s_ninodes (sblock s p)) + 1) s) (\<lambda>inodes s.
                   Ok (zones, inodes) s))))))"

subsection \<open>Bits of a block\<close>

lemma bit_get32: "k < 32 \<Longrightarrow> bit (get32 d a) k = bit (d (a + k div 8)) (k mod 8)"
proof -
  assume "k < 32"
  then consider "k < 8" | "8 \<le> k" "k < 16" | "16 \<le> k" "k < 24" | "24 \<le> k" "k < 32" by linarith
  then show ?thesis
  proof cases
    case 1 then show ?thesis by (simp add: get32_def get16_def bit_simps)
  next
    case 2
    then have "k div 8 = 1" "k mod 8 = k - 8" by presburger+
    with 2 show ?thesis by (auto simp: get32_def get16_def bit_simps dest: bit_imp_le_length)
  next
    case 3
    then have "k div 8 = 2" "k mod 8 = k - 16" by presburger+
    with 3 show ?thesis by (auto simp: get32_def get16_def bit_simps dest: bit_imp_le_length)
  next
    case 4
    then have "k div 8 = 3" "k mod 8 = k - 24" by presburger+
    with 4 show ?thesis by (auto simp: get32_def get16_def bit_simps numeral_3_eq_3 dest: bit_imp_le_length)
  qed
qed

lemma blk_bit_word: "ecx mod 32 = 0 \<Longrightarrow> k < 32 \<Longrightarrow> bit (get32 d (ecx div 8)) k = blk_bit d (ecx + k)"
proof -
  assume "ecx mod 32 = 0" "k < 32"
  moreover obtain m where m: "ecx = 32 * m" using \<open>ecx mod 32 = 0\<close> by auto
  moreover have "(32 * m + k) div 8 = 4 * m + k div 8" "(32 * m + k) mod 8 = k mod 8"
    using div_mult_self2 [of 8 k "4 * m"] mod_mult_self2 [of k 8 "4 * m"] by (simp_all add: add.commute)
  ultimately show ?thesis by (simp add: bit_get32 blk_bit_def)
qed

lemma bsf_first:
  assumes "w \<noteq> 0"
  shows "bsf w < 32" "bit w (bsf w)" "\<And>k. k < bsf w \<Longrightarrow> \<not> bit w k"
proof -
  obtain n where n: "n < 32" "bit w n" using assms by (auto simp: bit_eq_iff dest: bit_imp_le_length)
  then have "filter (bit w) [0..<32] \<noteq> []" by (auto simp: filter_empty_conv)
  then obtain x xs where x: "filter (bit w) [0..<32] = x # xs" by (cases "filter (bit w) [0..<32]") auto
  then have b: "bsf w = x" by (simp add: bsf_def)
  have "x \<in> set (filter (bit w) [0..<32])" using x by simp
  then show "bsf w < 32" "bit w (bsf w)" by (simp_all add: b)
  have "sorted (x # xs)" unfolding x [symmetric] by (simp add: sorted_wrt_filter)
  fix k assume "k < bsf w"
  moreover have "k \<in> set (x # xs) \<longleftrightarrow> bit w k \<and> k < 32" unfolding x [symmetric] by auto
  ultimately show "\<not> bit w k" using \<open>sorted (x # xs)\<close> \<open>bsf w < 32\<close> b by auto
qed

lemma ffz_loop_spec:
  assumes "ecx mod 32 = 0" and "ecx < 8192" and "\<forall>n < ecx. blk_bit d n"
  shows "ffz_loop d ecx \<le> 8192 \<and> (\<forall>n < ffz_loop d ecx. blk_bit d n) \<and> (ffz_loop d ecx < 8192 \<longrightarrow> \<not> blk_bit d (ffz_loop d ecx))"
  using assms
proof (induction d ecx rule: ffz_loop.induct)
  case (1 d ecx)
  let ?w = "NOT (get32 d (ecx div 8))"
  have w: "bit ?w k \<longleftrightarrow> \<not> blk_bit d (ecx + k)" if "k < 32" for k
    using that blk_bit_word [OF 1(2) that, of d] by (simp add: bit_not_iff)
  show ?case
  proof (cases "?w = 0")
    case False
    note b = bsf_first [OF False]
    have "blk_bit d n" if "n < ecx + bsf ?w" for n
    proof (cases "n < ecx")
      case False
      then show ?thesis using w [of "n - ecx"] b(3) [of "n - ecx"] b(1) that by simp
    qed (use 1(4) in simp)
    moreover have "ecx + 32 \<le> 8192" using 1(2,3) by presburger
    ultimately show ?thesis using False b(1,2) w [OF b(1)] by (simp add: ffz_loop.simps [of d ecx])
  next
    case True
    have all: "blk_bit d n" if "n < ecx + 32" for n
    proof (cases "n < ecx")
      case False
      then show ?thesis using w [of "n - ecx"] that unfolding True by simp
    qed (use 1(4) in simp)
    have m: "(ecx + 32) mod 32 = 0" using 1(2) by simp
    show ?thesis
    proof (cases "ecx + 32 < 8192")
      case less: True
      have "ffz_loop d ecx = ffz_loop d (ecx + 32)" using True less by (simp add: ffz_loop.simps [of d ecx])
      then show ?thesis using "1.IH" [OF refl _ less m less] True all by simp
    next
      case False
      then have "ffz_loop d ecx = ecx + 32" using True by (simp add: ffz_loop.simps [of d ecx])
      moreover have "ecx + 32 = 8192" using False 1(2,3) by presburger
      ultimately show ?thesis using all by simp
    qed
  qed
qed

lemma find_first_zero_spec:
  "find_first_zero d \<le> 8192" "n < find_first_zero d \<Longrightarrow> blk_bit d n" "find_first_zero d < 8192 \<Longrightarrow> \<not> blk_bit d (find_first_zero d)"
  using ffz_loop_spec [of 0 d] by (auto simp: find_first_zero_def)

text \<open>
  C35. \<^verbatim>\<open>find_first_zero\<close>, which reads the block a long at a time and inverts it to use the instruction \<^verbatim>\<open>bsfl\<close>, is
  the search for the first clear one of the 8192 bits of the block; it answers 8192 when there is none.
\<close>

theorem find_first_zero_search:
  "find_first_zero d = (case find (\<lambda>n. \<not> blk_bit d n) [0..<8192] of None \<Rightarrow> 8192 | Some n \<Rightarrow> n)"
proof (cases "find (\<lambda>n. \<not> blk_bit d n) [0..<8192]")
  case None
  then have "\<forall>n < 8192. blk_bit d n" by (auto simp: find_None_iff)
  then show ?thesis using None find_first_zero_spec(1,3) [where d = d] by (simp, metis le_neq_implies_less)
next
  case (Some n)
  then have "n < 8192" "\<not> blk_bit d n" "\<forall>k < n. blk_bit d k" by (auto simp: find_Some_iff)
  then show ?thesis using Some find_first_zero_spec [where d = d] by (simp, metis le_less_trans linorder_cases not_less)
qed

subsection \<open>Allocating and freeing zones\<close>

lemma get_super_quick:
  assumes "dev \<noteq> 0" and "k < 8" and "s_dev (sblock s k) = dev" and "\<forall>j < k. s_dev (sblock s j) \<noteq> dev" and "\<not> s_lock (sblock s k)"
  shows "get_super E dev s = Ok (Some k) s"
proof -
  let ?body = "\<lambda>i s. if i \<ge> NR_SUPER then Ok (Inr None) s
        else if s_dev (sblock s i) = dev
        then bindK (wait_on_super E i s) (\<lambda>_ s. if s_dev (sblock s i) = dev then Ok (Inr (Some i)) s else Ok (Inl 0) s)
        else Ok (Inl (i + 1)) s"
  have "j \<le> k \<Longrightarrow> iterK ?body j s = Ok (Some k) s" for j
  proof (induction "k - j" arbitrary: j)
    case 0
    then show ?case using assms by (subst iterK_unfold) (simp add: wait_on_super_def)
  next
    case (Suc n)
    then have "j < k" by linarith
    then show ?case using assms Suc by (subst iterK_unfold) simp
  qed
  from this [of 0] show ?thesis using assms(1) by (simp add: get_super_def)
qed

lemma set_clear_bit: "\<not> blk_bit d n \<Longrightarrow> snd (clear_bit_in n (snd (set_bit_in n d))) = d"
  unfolding set_bit_in_def clear_bit_in_def blk_bit_def
  by (auto simp: fun_eq_iff intro!: bit_word_eqI) (auto simp: bit_simps)

lemma blk_bit_set: "blk_bit (snd (set_bit_in n d)) m \<longleftrightarrow> m = n \<or> blk_bit d m"
proof (cases "m div 8 = n div 8")
  case True
  then have "m mod 8 = n mod 8 \<longleftrightarrow> m = n" by (metis div_mod_decomp)
  then show ?thesis using True by (auto simp: set_bit_in_def blk_bit_def bit_simps)
qed (auto simp: set_bit_in_def blk_bit_def)

text \<open>Bit \<open>n\<close> of the zone map of a super block, and the zones it says are free.\<close>

definition zone_map :: "super_block \<Rightarrow> 'z fs_st_scheme \<Rightarrow> nat \<Rightarrow> bool option" where
  "zone_map sb s n = (case s_zmap sb (n div 8192) of None \<Rightarrow> None | Some z \<Rightarrow> Some (blk_bit (b_data (buf s z)) (n mod 8192)))"

definition zone_nr :: "super_block \<Rightarrow> nat \<Rightarrow> nat" where
  "zone_nr sb b = b + 1 - unat (s_firstdatazone sb)"

definition zone_free :: "super_block \<Rightarrow> 'z fs_st_scheme \<Rightarrow> nat \<Rightarrow> bool" where
  "zone_free sb s b \<longleftrightarrow> unat (s_firstdatazone sb) \<le> b \<and> b < unat (s_nzones sb) \<and> zone_map sb s (zone_nr sb b) = Some False"

text \<open>
  A mounted device: super block \<open>k\<close> is its only one, its zone map is in buffers that are in use and differ from slot to slot, bit 0
  of the map is set (\<^verbatim>\<open>read_super\<close> sets it), and nobody uses the buffer of a free zone.
\<close>

definition mounted :: "u16 \<Rightarrow> nat \<Rightarrow> 'z fs_st_scheme \<Rightarrow> bool" where
  "mounted dev k s \<longleftrightarrow> dev \<noteq> 0 \<and> k < 8 \<and> s_dev (sblock s k) = dev \<and> (\<forall>j < k. s_dev (sblock s j) \<noteq> dev) \<and> \<not> s_lock (sblock s k) \<and>
     s_firstdatazone (sblock s k) \<noteq> 0 \<and> zone_map (sblock s k) s 0 = Some True \<and>
     (\<forall>i z. s_zmap (sblock s k) i = Some z \<longrightarrow> z < NR_BUFFERS s \<and> b_count (buf s z) \<noteq> 0) \<and>
     (\<forall>i j z. s_zmap (sblock s k) i = Some z \<longrightarrow> s_zmap (sblock s k) j = Some z \<longrightarrow> i = j) \<and>
     (\<forall>b i. zone_free (sblock s k) s b \<longrightarrow> i < NR_BUFFERS s \<longrightarrow> holds dev (word_of_nat b) (buf s i) \<longrightarrow> b_count (buf s i) = 0)"

lemma mounted_super: "mounted dev k s \<Longrightarrow> get_super E dev s = Ok (Some k) s"
  by (rule get_super_quick) (simp_all add: mounted_def)

lemma find_map_bit_None: "find_map_bit (s_zmap sb) s = None \<Longrightarrow> n < 65536 \<Longrightarrow> zone_map sb s n \<noteq> Some False"
proof
  assume "find_map_bit (s_zmap sb) s = None" "n < 65536" and z: "zone_map sb s n = Some False"
  then obtain z where "s_zmap sb (n div 8192) = Some z" "\<not> blk_bit (b_data (buf s z)) (n mod 8192)" by (auto simp: zone_map_def split: option.splits)
  moreover have "n div 8192 < 8" using \<open>n < 65536\<close> by (simp add: less_mult_imp_div_less)
  ultimately have "\<not> find_first_zero (b_data (buf s z)) < 8192" using \<open>find_map_bit (s_zmap sb) s = None\<close>
    by (fastforce simp: find_map_bit_def find_None_iff)
  then show False using find_first_zero_spec(2) [of "n mod 8192" "b_data (buf s z)"] \<open>\<not> blk_bit (b_data (buf s z)) (n mod 8192)\<close>
    by (meson less_le_trans mod_less_divisor not_less zero_less_numeral)
qed

lemma find_map_bit_Some:
  assumes "find_map_bit (s_zmap sb) s = Some (i, z, j)"
  shows "i < 8" "s_zmap sb i = Some z" "j < 8192" "\<not> blk_bit (b_data (buf s z)) j" "\<And>n. n < j + i * 8192 \<Longrightarrow> zone_map sb s n \<noteq> Some False"
proof -
  obtain m where m: "find (\<lambda>i. s_zmap sb i \<noteq> None \<and> find_first_zero (b_data (buf s (the (s_zmap sb i)))) < 8192) [0..<8] = Some m"
    "i = m" "z = the (s_zmap sb m)" "j = find_first_zero (b_data (buf s z))" using assms by (auto simp: find_map_bit_def)
  then have f: "i < 8" "s_zmap sb i \<noteq> None" "j < 8192"
    "\<And>l. l < i \<Longrightarrow> s_zmap sb l = None \<or> \<not> find_first_zero (b_data (buf s (the (s_zmap sb l)))) < 8192"
    by (auto simp: find_Some_iff)
  then show "i < 8" "s_zmap sb i = Some z" "j < 8192" "\<not> blk_bit (b_data (buf s z)) j" using m find_first_zero_spec(3) by auto
  fix n assume n: "n < j + i * 8192"
  show "zone_map sb s n \<noteq> Some False"
  proof (cases "n div 8192 < i")
    case True
    then show ?thesis using f(4) [OF True] find_first_zero_spec(2) [of "n mod 8192"]
      by (auto simp: zone_map_def split: option.splits)
  next
    case False
    moreover have "n div 8192 < i + 1" by (rule less_mult_imp_div_less) (use n f(3) in simp)
    ultimately have "n div 8192 = i" by linarith
    moreover have "n mod 8192 < j" using n div_mult_mod_eq [of n 8192] unfolding calculation by linarith
    ultimately show ?thesis using find_first_zero_spec(2) [of "n mod 8192"] m f(2) by (auto simp: zone_map_def)
  qed
qed

text \<open>What \<^verbatim>\<open>new_block\<close> leaves behind: \<open>m\<close> is the map buffer, \<open>bh\<close> the buffer of the new zone.\<close>

definition zone_taken :: "u16 \<Rightarrow> super_block \<Rightarrow> 'z fs_st_scheme \<Rightarrow> nat \<Rightarrow> nat \<Rightarrow> nat \<Rightarrow> 'z fs_st_scheme \<Rightarrow> bool" where
  "zone_taken dev sb s b m bh t \<longleftrightarrow> zone_free sb s b \<and> sblock t = sblock s \<and> NR_BUFFERS t = NR_BUFFERS s \<and> cache_inv t \<and>
     bh < NR_BUFFERS s \<and> holds dev (word_of_nat b) (buf t bh) \<and> b_count (buf t bh) = 0 \<and> \<not> b_lock (buf t bh) \<and> b_uptodate (buf t bh) \<and>
     b_dirt (buf t bh) \<and> (\<forall>i < 1024. b_data (buf t bh) i = 0) \<and>
     s_zmap sb (zone_nr sb b div 8192) = Some m \<and> (\<forall>i. s_zmap sb i \<noteq> Some bh) \<and>
     b_data (buf t m) = snd (set_bit_in (zone_nr sb b mod 8192) (b_data (buf s m))) \<and>
     (\<forall>i. i \<noteq> m \<longrightarrow> i \<noteq> bh \<longrightarrow> b_data (buf t i) = b_data (buf s i))"

lemma u16_less: "unat (w :: u16) < 65536"
  using unsigned_less [of w, where ?'a = nat] by simp

lemma claim_zone_buffer:
  assumes "cache_inv s" and "at_rest s" and "dev \<noteq> 0" and "\<exists>i < NR_BUFFERS s. b_count (buf s i) = 0" and "0 < c_depth E"
    and unused: "\<And>i. i < NR_BUFFERS s \<Longrightarrow> holds dev block (buf s i) \<Longrightarrow> b_count (buf s i) = 0"
  obtains bh t where "getblk E dev block s = Ok bh t" "cache_inv t" "cache_frame s t" "bh < NR_BUFFERS s" "holds dev block (buf t bh)"
    "b_count (buf s bh) = 0" "b_count (buf t bh) = 1" "\<not> b_lock (buf t bh)" "\<And>i. i \<noteq> bh \<Longrightarrow> bcore (buf t i) = bcore (buf s i)"
proof -
  obtain bh t where g: "getblk E dev block s = Ok bh t" "cache_inv t" "bh < NR_BUFFERS s" "cache_frame s t" "holds dev block (buf t bh)"
    "if \<exists>i < NR_BUFFERS s. holds dev block (buf s i) then bcore (buf t bh) = bcore ((buf s bh)\<lparr>b_count := b_count (buf s bh) + 1\<rparr>)
     else b_count (buf s bh) = 0 \<and> b_count (buf t bh) = 1 \<and> \<not> b_uptodate (buf t bh) \<and> \<not> b_dirt (buf t bh) \<and> \<not> b_lock (buf t bh)"
    "\<And>i. i \<noteq> bh \<Longrightarrow> bcore (buf t i) = bcore (buf s i)"
    using getblk_ok [OF assms(1-5), of block] by (elim exE conjE) blast
  have "b_count (buf s bh) = 0 \<and> b_count (buf t bh) = 1 \<and> \<not> b_lock (buf t bh)"
  proof (cases "\<exists>i < NR_BUFFERS s. holds dev block (buf s i)")
    case True
    then have b: "bcore (buf t bh) = bcore ((buf s bh)\<lparr>b_count := b_count (buf s bh) + 1\<rparr>)" using g(6) by simp
    then have "holds dev block (buf s bh)" using g(5) by (simp add: bcore_eq holds_def)
    then show ?thesis using unused [OF g(3)] assms(2) g(3) b by (auto simp: bcore_eq at_rest_def)
  qed (use g(6) in simp)
  then show ?thesis using g(1-5,7) by (auto intro!: that)
qed

lemma new_block_found:
  assumes "mounted dev k s" and "find_map_bit (s_zmap (sblock s k)) s = Some (i, m, j)" and "\<not> blk_bit (b_data (buf s m)) j"
    and "int (j + i * 8192) + uint (s_firstdatazone (sblock s k)) - 1 = int J"
  shows "new_block E dev s =
    (let s = upd_buf m (\<lambda>b. b\<lparr>b_data := snd (set_bit_in j (b_data (buf s m))), b_dirt := True\<rparr>) s
     in if J \<ge> unat (s_nzones (sblock s k)) then Ok 0 s
        else bindK (getblk E dev (word_of_nat J) s) (\<lambda>bh s.
          if b_count (buf s bh) \<noteq> 1 then Panic ''new block: count is != 1''
          else bindK (brelse E (Some bh)
                 (upd_buf bh (\<lambda>b. b\<lparr>b_data := clear_block (b_data b), b_uptodate := True, b_dirt := True\<rparr>) s)) (\<lambda>_ s.
               Ok (word_of_nat J) s)))"
  by (simp only: new_block_def mounted_super [OF assms(1)] bindK.simps option.case assms(2) prod.case Let_def set_bit_in_def assms(3) if_False
      snd_conv upd_buf_simps assms(4) [unfolded uint_nat] uint_nat of_nat_le_iff of_int_of_nat_eq)

lemma new_block_ok:
  assumes "cache_inv s" and "at_rest s" and "mounted dev k s" and "\<exists>i < NR_BUFFERS s. b_count (buf s i) = 0" and "0 < c_depth E"
  obtains t where "new_block E dev s = Ok 0 t" "\<And>b. \<not> zone_free (sblock s k) s b"
  | z m bh t where "new_block E dev s = Ok z t" "z \<noteq> 0" "zone_taken dev (sblock s k) s (unat z) m bh t"
proof (cases "find_map_bit (s_zmap (sblock s k)) s")
  case None
  have "\<not> zone_free (sblock s k) s b" for b
    using find_map_bit_None [OF None] u16_less [of "s_nzones (sblock s k)"] by (auto simp: zone_free_def zone_nr_def)
  moreover have "new_block E dev s = Ok 0 s" by (simp add: new_block_def mounted_super [OF assms(3)] None)
  ultimately show ?thesis using that(1) by blast
next
  case (Some w)
  then obtain i m j where f: "find_map_bit (s_zmap (sblock s k)) s = Some (i, m, j)" by (metis prod_cases3)
  note b = find_map_bit_Some [OF f]
  let ?sb = "sblock s k" and ?d = "snd (set_bit_in j (b_data (buf s m)))"
  let ?s = "upd_buf m (\<lambda>b. b\<lparr>b_data := ?d, b_dirt := True\<rparr>) s" and ?J = "j + i * 8192 + unat (s_firstdatazone ?sb) - 1"
  have mo: "dev \<noteq> 0" "s_firstdatazone ?sb \<noteq> 0" "zone_map ?sb s 0 = Some True" "b_count (buf s m) \<noteq> 0"
    "\<And>i z. s_zmap ?sb i = Some z \<Longrightarrow> z < NR_BUFFERS s \<and> b_count (buf s z) \<noteq> 0"
    "\<And>b i. zone_free ?sb s b \<Longrightarrow> i < NR_BUFFERS s \<Longrightarrow> holds dev (word_of_nat b) (buf s i) \<Longrightarrow> b_count (buf s i) = 0"
    using assms(3) b(2) unfolding mounted_def by blast+
  have fd: "0 < unat (s_firstdatazone ?sb)" using mo(2) by (simp add: unat_gt_0)
  have "zone_map ?sb s (j + i * 8192) = Some False" using b(2-4) by (simp add: zone_map_def)
  then have jn: "0 < j + i * 8192" using mo(3) by (cases "j + i * 8192 = 0") auto
  have J: "int (j + i * 8192) + uint (s_firstdatazone ?sb) - 1 = int ?J" using jn unfolding uint_nat by (subst of_nat_diff) auto
  have nr: "zone_nr ?sb ?J = j + i * 8192" using jn fd by (simp add: zone_nr_def)
  show ?thesis
  proof (cases "?J \<ge> unat (s_nzones ?sb)")
    case True
    have "new_block E dev s = Ok 0 ?s"
      using True unfolding new_block_found [OF assms(3) f b(4) J] by (simp add: Let_def)
    moreover have "\<not> zone_free ?sb s b" for b
      using b(5) [of "zone_nr ?sb b"] True jn by (auto simp: zone_free_def zone_nr_def)
    ultimately show ?thesis using that(1) by blast
  next
    case False
    have zf: "zone_free ?sb s ?J" using False jn nr b(2-4) by (auto simp: zone_free_def zone_map_def)
    have "cache_inv ?s" by (rule cache_inv_cong [OF assms(1)]) simp_all
    moreover have "at_rest ?s" using assms(2) mo(4) by (auto simp: at_rest_def)
    moreover have "\<exists>i < NR_BUFFERS ?s. b_count (buf ?s i) = 0" using assms(4) mo(4) by auto
    moreover have "b_count (buf ?s x) = 0" if "x < NR_BUFFERS ?s" "holds dev (word_of_nat ?J) (buf ?s x)" for x
      using mo(6) [OF zf, of x] that by (auto simp: holds_def split: if_splits)
    ultimately obtain bh t where g: "getblk E dev (word_of_nat ?J) ?s = Ok bh t" "cache_inv t" "cache_frame ?s t" "bh < NR_BUFFERS ?s"
      "holds dev (word_of_nat ?J) (buf t bh)" "b_count (buf ?s bh) = 0" "b_count (buf t bh) = 1" "\<not> b_lock (buf t bh)"
      "\<And>i. i \<noteq> bh \<Longrightarrow> bcore (buf t i) = bcore (buf ?s i)"
      using claim_zone_buffer [of ?s dev E "word_of_nat ?J"] mo(1) assms(5) by blast
    let ?t = "upd_buf bh (\<lambda>b. b\<lparr>b_data := clear_block (b_data b), b_uptodate := True, b_dirt := True\<rparr>) t"
    let ?u = "wake_up WqBufferWait (upd_buf bh (b_count_update (\<lambda>c. c - 1)) ?t)"
    have nb: "s_zmap ?sb i \<noteq> Some bh" for i using mo(4) mo(5) [of i bh] g(6) by (auto split: if_splits)
    have "m \<noteq> bh" using nb [of i] b(2) by auto
    have fr: "sblock t = sblock s" "NR_BUFFERS t = NR_BUFFERS s" using cache_frame_fields [OF g(3)] by simp_all
    have z: "unat (word_of_nat ?J :: u16) = ?J" using False u16_less [of "s_nzones ?sb"] by (simp add: unat_of_nat)
    have "new_block E dev s = Ok (word_of_nat ?J) ?u"
      using False g(1,7,8) unfolding new_block_found [OF assms(3) f b(4) J] Let_def by (simp add: brelse_quick)
    moreover have "cache_inv ?u" by (rule cache_inv_cong [OF g(2)]) simp_all
    moreover have "b_data (buf ?u m) = ?d" "\<And>x. x \<noteq> m \<Longrightarrow> x \<noteq> bh \<Longrightarrow> b_data (buf ?u x) = b_data (buf s x)"
      using g(9) \<open>m \<noteq> bh\<close> by (auto simp: bcore_eq)
    ultimately have "zone_taken dev ?sb s (unat (word_of_nat ?J :: u16)) m bh ?u"
      unfolding zone_taken_def z nr using zf fr g(4,5,7,8) nb b(2,3) by (simp add: clear_block_def holds_def)
    moreover have "0 < ?J" using fd jn by linarith
    then have "(word_of_nat ?J :: u16) \<noteq> 0" using z by (metis less_numeral_extra(3) unat_0)
    ultimately show ?thesis using that(2) \<open>new_block E dev s = Ok (word_of_nat ?J) ?u\<close> by blast
  qed
qed

lemma zone_map_cong:
  "(\<And>i x. s_zmap sb i = Some x \<Longrightarrow> b_data (buf t x) = b_data (buf s x)) \<Longrightarrow> zone_map sb t n = zone_map sb s n"
  by (auto simp: zone_map_def split: option.split)

lemma zone_map_taken:
  assumes "zone_taken dev (sblock s k) s b m bh t" and "mounted dev k s"
  shows "zone_map (sblock t k) t n = (if n = zone_nr (sblock s k) b then Some True else zone_map (sblock s k) s n)"
proof -
  let ?sb = "sblock s k" and ?n = "zone_nr (sblock s k) b"
  have t: "sblock t = sblock s" "s_zmap ?sb (?n div 8192) = Some m" "\<And>i. s_zmap ?sb i \<noteq> Some bh"
    "b_data (buf t m) = snd (set_bit_in (?n mod 8192) (b_data (buf s m)))" "\<And>i. i \<noteq> m \<Longrightarrow> i \<noteq> bh \<Longrightarrow> b_data (buf t i) = b_data (buf s i)"
    using assms(1) by (auto simp: zone_taken_def)
  have inj: "\<And>i j z. s_zmap ?sb i = Some z \<Longrightarrow> s_zmap ?sb j = Some z \<Longrightarrow> i = j" using assms(2) unfolding mounted_def by blast
  show ?thesis
  proof (cases "n div 8192 = ?n div 8192")
    case True
    then have "n mod 8192 = ?n mod 8192 \<longleftrightarrow> n = ?n" by (metis div_mod_decomp)
    then show ?thesis using True t(2,4) by (simp add: zone_map_def t(1) blk_bit_set)
  next
    case False
    have "b_data (buf t x) = b_data (buf s x)" if "s_zmap ?sb (n div 8192) = Some x" for x
      by (rule t(5)) (use that t(2,3) inj [OF that, of "?n div 8192"] False in auto)
    then show ?thesis using False by (auto simp: zone_map_def t(1) split: option.split)
  qed
qed

lemma clear_zone_set:
  assumes "s_zmap (sblock s k) (zone_nr (sblock s k) (unat z) div 8192) = Some m" and "blk_bit (b_data (buf s m)) (zone_nr (sblock s k) (unat z) mod 8192)"
  shows "clear_zone k z s =
    Ok () (upd_buf m (\<lambda>b. b\<lparr>b_data := snd (clear_bit_in (zone_nr (sblock s k) (unat z) mod 8192) (b_data (buf s m))), b_dirt := True\<rparr>) s)"
  using assms by (simp add: clear_zone_def zone_nr_def clear_bit_in_def Let_def)

lemma free_taken:
  assumes "zone_taken dev (sblock s k) s (unat z) m bh t" and "mounted dev k s"
  shows "\<exists>u. free_block E dev z t = Ok () u \<and> (\<forall>n. zone_map (sblock u k) u n = zone_map (sblock s k) s n)"
proof -
  let ?sb = "sblock s k" and ?n = "zone_nr (sblock s k) (unat z)"
  have t: "sblock t = sblock s" "cache_inv t" "bh < NR_BUFFERS t" "holds dev (ucast z) (buf t bh)" "b_count (buf t bh) = 0" "\<not> b_lock (buf t bh)"
    "s_zmap ?sb (?n div 8192) = Some m" "\<And>i. s_zmap ?sb i \<noteq> Some bh" "\<not> blk_bit (b_data (buf s m)) (?n mod 8192)"
    "b_data (buf t m) = snd (set_bit_in (?n mod 8192) (b_data (buf s m)))" "\<And>i. i \<noteq> m \<Longrightarrow> i \<noteq> bh \<Longrightarrow> b_data (buf t i) = b_data (buf s i)"
    "unat (s_firstdatazone ?sb) \<le> unat z" "unat z < unat (s_nzones ?sb)"
    using assms(1) by (auto simp: zone_taken_def zone_free_def zone_map_def unsigned_ucast_eq word_unat_eq_iff)
  have "m \<noteq> bh" using t(7,8) by auto
  have gs: "get_super E dev t = Ok (Some k) t" by (rule get_super_quick) (use assms(2) t(1) in \<open>simp_all add: mounted_def\<close>)
  have "dev \<noteq> 0" using assms(2) by (simp add: mounted_def)
  let ?a = "upd_buf bh (b_count_update (\<lambda>c. c + 1)) t"
  let ?b = "upd_buf bh (\<lambda>b. b\<lparr>b_dirt := False, b_uptodate := False\<rparr>) ?a"
  let ?c = "wake_up WqBufferWait (upd_buf bh (b_count_update (\<lambda>c. c - 1)) ?b)"
  let ?u = "upd_buf m (\<lambda>b. b\<lparr>b_data := snd (clear_bit_in (?n mod 8192) (b_data (buf ?c m))), b_dirt := True\<rparr>) ?c"
  have h: "get_hash_table E dev (ucast z) t = Ok (Some bh) ?a" by (rule get_hash_table_hit [OF t(2) \<open>dev \<noteq> 0\<close> t(3,4,6)])
  have r: "brelse E (Some bh) ?b = Ok () ?c" by (rule brelse_quick) (use t(5,6) in simp_all)
  have bit: "blk_bit (b_data (buf ?c m)) (?n mod 8192)" using \<open>m \<noteq> bh\<close> t(10) by (simp add: blk_bit_set)
  have "clear_zone k z ?c = Ok () ?u"
    using clear_zone_set [of ?c k z m] bit t(1,7) by simp
  moreover have "\<not> (z < s_firstdatazone ?sb \<or> z \<ge> s_nzones ?sb)" using t(12,13) by (simp add: word_less_nat_alt word_le_nat_alt)
  ultimately have "free_block E dev z t = Ok () ?u" using t(5) r by (simp add: free_block_def gs h t(1))
  moreover have "zone_map (sblock ?u k) ?u n = zone_map ?sb s n" for n
  proof -
    have "b_data (buf ?u x) = b_data (buf s x)" if "s_zmap ?sb i = Some x" for i x
      using t(8) [of i] t(9-11) that \<open>m \<noteq> bh\<close> by (cases "x = m") (auto simp: set_clear_bit)
    then show ?thesis using zone_map_cong [of ?sb ?u s n] by (simp add: t(1))
  qed
  ultimately show ?thesis by blast
qed

text \<open>
  C22. \<^verbatim>\<open>new_block\<close> on a mounted device, in a quiet cache with an unused buffer, always returns. It answers 0 only if no data zone is
  free. Otherwise it answers a data zone that was free, marks exactly this zone used in the map, and leaves the buffer of
  the zone cleared, up to date and dirty; and \<^verbatim>\<open>free_block\<close> of this zone then succeeds and restores the map.
\<close>

theorem zone_alloc_free:
  assumes "cache_inv s" and "at_rest s" and "mounted dev k s" and "\<exists>i < NR_BUFFERS s. b_count (buf s i) = 0" and "0 < c_depth E"
  shows "\<exists>z t. new_block E dev s = Ok z t \<and>
    (if z = 0 then \<forall>b. \<not> zone_free (sblock s k) s b
     else zone_free (sblock s k) s (unat z) \<and>
       (\<forall>n. zone_map (sblock t k) t n = (if n = zone_nr (sblock s k) (unat z) then Some True else zone_map (sblock s k) s n)) \<and>
       (\<exists>bh < NR_BUFFERS s. holds dev (ucast z) (buf t bh) \<and> (\<forall>i < 1024. b_data (buf t bh) i = 0) \<and> b_uptodate (buf t bh) \<and> b_dirt (buf t bh)) \<and>
       (\<exists>u. free_block E dev z t = Ok () u \<and> (\<forall>n. zone_map (sblock u k) u n = zone_map (sblock s k) s n)))"
proof (cases rule: new_block_ok [OF assms])
  case (1 t)
  then show ?thesis by auto
next
  case (2 z m bh t)
  then have "zone_free (sblock s k) s (unat z)" "bh < NR_BUFFERS s \<and> holds dev (ucast z) (buf t bh) \<and> (\<forall>i < 1024. b_data (buf t bh) i = 0) \<and>
      b_uptodate (buf t bh) \<and> b_dirt (buf t bh)"
    by (auto simp: zone_taken_def word_unat_eq_iff unsigned_ucast_eq)
  then show ?thesis using 2(1,2) zone_map_taken [OF 2(3) assms(3)] free_taken [OF 2(3) assms(3), of E]
    by (intro exI [of _ z] exI [of _ t]) auto
qed

definition small_super :: "nat \<Rightarrow> super_block" where
  "small_super bh = empty_super\<lparr>s_dev := 0x101, s_nzones := 20, s_firstdatazone := 5, s_zmap := [0 \<mapsto> bh]\<rparr>"

text \<open>A cache of three buffers, one of which holds a block of the RAM disk.\<close>

lemma one_cached:
  obtains bh and u :: fs_st where "cache_inv u" "NR_BUFFERS u = 3" "bh < 3" "holds 0x101 block (buf u bh)" "b_count (buf u bh) = 1" "\<not> b_lock (buf u bh)"
    "\<And>i. i \<noteq> bh \<Longrightarrow> b_dev (buf u i) = 0" "\<And>i. i \<noteq> bh \<Longrightarrow> b_count (buf u i) = 0" "\<And>i. i < 3 \<Longrightarrow> i \<noteq> bh \<Longrightarrow> \<not> b_lock (buf u i) \<and> \<not> b_dirt (buf u i)"
proof -
  obtain t where "buffer_init 4096 (fs_boot mm_empty) = Ok () t" and n: "NR_BUFFERS t = 3" using buffer_init_small by blast
  then have t: "cache_inv t" "at_rest t" and b: "\<And>i. b_dev (buf t i) = 0" "\<And>i. b_count (buf t i) = 0" using buffer_init_ok [of 4096 "fs_boot mm_empty" t] by simp_all
  have e: "(0x101 :: u16) \<noteq> 0" "\<exists>i < NR_BUFFERS t. b_count (buf t i) = 0" using b(2) n by (auto intro: exI [of _ 0])
  have d: "0 < c_depth (idle_ctx :: fs_st ctx)" by (simp add: idle_ctx_def)
  obtain bh u where g: "cache_inv u" "cache_frame t u" "bh < NR_BUFFERS t" "holds 0x101 block (buf u bh)" "b_count (buf u bh) = 1"
    "\<not> b_lock (buf u bh)" "\<And>i. i \<noteq> bh \<Longrightarrow> bcore (buf u i) = bcore (buf t i)"
    by (rule claim_zone_buffer [OF t e d, of block], simp add: b(2), rule that, assumption+)
  have o: "b_dev (buf u i) = 0" "b_count (buf u i) = 0" "b_lock (buf u i) = b_lock (buf t i)" "b_dirt (buf u i) = b_dirt (buf t i)" if "i \<noteq> bh" for i
    using g(7) [OF that] b by (simp_all add: bcore_eq)
  have N: "NR_BUFFERS u = 3" using cache_frame_fields(3) [OF g(2)] n by simp
  show ?thesis using that [OF g(1) N _ g(4-6)] o g(3) n t(2) b(2) by (auto simp: at_rest_def)
qed

lemma zone_example:
  "\<exists>s :: fs_st. cache_inv s \<and> at_rest s \<and> mounted 0x101 0 s \<and> (\<exists>i < NR_BUFFERS s. b_count (buf s i) = 0) \<and> zone_free (sblock s 0) s 5"
proof -
  obtain bh and u :: fs_st where g: "cache_inv u" "NR_BUFFERS u = 3" "bh < 3" "holds 0x101 3 (buf u bh)" "b_count (buf u bh) = 1" "\<not> b_lock (buf u bh)"
    and o: "\<And>i. i \<noteq> bh \<Longrightarrow> b_dev (buf u i) = 0" "\<And>i. i \<noteq> bh \<Longrightarrow> b_count (buf u i) = 0" "\<And>i. i < 3 \<Longrightarrow> i \<noteq> bh \<Longrightarrow> \<not> b_lock (buf u i) \<and> \<not> b_dirt (buf u i)"
    by (rule one_cached [of 3], rule that, assumption+)
  let ?s = "(upd_buf bh (b_data_update (\<lambda>_ _. 1)) u)\<lparr>sblock := (\<lambda>_. empty_super)(0 := small_super bh)\<rparr>"
  have "cache_inv ?s" by (rule cache_inv_cong [OF g(1)]) simp_all
  moreover have "at_rest ?s" using g(2,5,6) o by (auto simp: at_rest_def)
  moreover have "\<exists>i < NR_BUFFERS ?s. b_count (buf ?s i) = 0"
    using o(2) by (intro exI [of _ "if bh = 0 then 1 else 0"]) (simp add: g(2))
  moreover have zf: "zone_free (small_super bh) ?s b' \<Longrightarrow> 5 \<le> b' \<and> b' < 20" for b' by (simp add: zone_free_def small_super_def)
  have "b_count (buf ?s i) = 0" if "zone_free (small_super bh) ?s b'" "holds 0x101 (word_of_nat b') (buf ?s i)" for b' i
  proof (cases "i = bh")
    case True
    then have "(word_of_nat b' :: u32) = 3" using that(2) g(4) by (simp add: holds_def)
    then have "unat (word_of_nat b' :: u32) = 3" by simp
    then have "b' = 3" using zf [OF that(1)] by (simp add: unat_of_nat)
    then show ?thesis using zf [OF that(1)] by simp
  qed (use o(2) in simp)
  then have "mounted 0x101 0 ?s" unfolding mounted_def using g(2,3,5)
    by (auto simp: small_super_def empty_super_def zone_map_def blk_bit_def split: if_splits)
  moreover have "zone_free (sblock ?s 0) ?s 5"
    by (simp add: zone_free_def zone_nr_def zone_map_def blk_bit_def small_super_def bit_1_iff)
  ultimately show ?thesis by blast
qed

theorem zone_alloc_free_witness:
  "\<exists>(s :: fs_st) z t u. new_block idle_ctx 0x101 s = Ok z t \<and> z \<noteq> 0 \<and> free_block idle_ctx 0x101 z t = Ok () u"
proof -
  obtain s :: fs_st where s: "cache_inv s" "at_rest s" "mounted 0x101 0 s" "\<exists>i < NR_BUFFERS s. b_count (buf s i) = 0" "zone_free (sblock s 0) s 5"
    using zone_example by blast
  then show ?thesis using zone_alloc_free [OF s(1-4), of idle_ctx] s(5) by (auto simp: idle_ctx_def split: if_splits)
qed

subsection \<open>Inodes on the disk\<close>

lemma word16_of_bytes: "ucast (ucast v :: u8) OR push_bit 8 (ucast (ucast (drop_bit 8 v) :: u8)) = (v :: u16)"
  by (rule bit_word_eqI) (auto simp: bit_simps)

lemma word32_of_words: "ucast (ucast v :: u16) OR push_bit 16 (ucast (ucast (drop_bit 16 v) :: u16)) = (v :: u32)"
  by (rule bit_word_eqI) (auto simp: bit_simps)

lemma get_put16 [simp]:
  "get16 (put16 v a d) a = v" "a + 2 \<le> b \<Longrightarrow> get16 (put16 v a d) b = get16 d b" "b + 2 \<le> a \<Longrightarrow> get16 (put16 v a d) b = get16 d b"
  by (auto simp: get16_def put16_def word16_of_bytes)

lemma get_put32 [simp]:
  "get32 (put32 v a d) a = v" "b + 4 \<le> a \<Longrightarrow> get32 (put32 v a d) b = get32 d b" "a + 4 \<le> b \<Longrightarrow> get32 (put32 v a d) b = get32 d b"
  "a + 4 \<le> b \<Longrightarrow> get16 (put32 v a d) b = get16 d b" "b + 2 \<le> a \<Longrightarrow> get16 (put32 v a d) b = get16 d b"
  "b + 4 \<le> a \<Longrightarrow> get32 (put16 x a d) b = get32 d b"
  by (auto simp: get32_def put32_def word32_of_words)

lemma get_upd [simp]:
  "a \<noteq> b \<Longrightarrow> a \<noteq> b + 1 \<Longrightarrow> get16 (d(a := v)) b = get16 d b"
  "a < b \<or> b + 4 \<le> a \<Longrightarrow> get32 (d(a := v)) b = get32 d b"
  by (auto simp: get16_def get32_def)

lemma put16_other [simp]: "b \<noteq> a \<Longrightarrow> b \<noteq> a + 1 \<Longrightarrow> put16 v a d b = d b"
  by (simp add: put16_def)

lemma less_9: "k < 9 \<longleftrightarrow> k \<in> {0, 1, 2, 3, 4, 5, 6, 7, 8 :: nat}"
  by auto

lemma d_inode_roundtrip:
  "get_d_inode (put_d_inode n off d) off m =
     m\<lparr>i_mode := i_mode n, i_uid := i_uid n, i_size := i_size n, i_mtime := i_mtime n, i_gid := i_gid n, i_nlinks := i_nlinks n,
       i_zone := (\<lambda>k. if k < 9 then i_zone n k else i_zone m k)\<rparr>"
proof -
  have u: "[0..<9] = [0, 1, 2, 3, 4, 5, 6, 7, 8 :: nat]" by (simp add: upt_rec)
  have "get16 (put_d_inode n off d) (off + 14 + 2 * k) = i_zone n k" if "k < 9" for k
    using that unfolding less_9 put_d_inode_def u by (elim insertE emptyE) (simp_all add: Let_def)
  then show ?thesis unfolding get_d_inode_def by (simp add: put_d_inode_def u Let_def fun_eq_iff)
qed

lemma bread_cached:
  assumes "cache_inv s" and "dev \<noteq> 0" and "bh < NR_BUFFERS s" and "holds dev block (buf s bh)" and "\<not> b_lock (buf s bh)" and "b_uptodate (buf s bh)"
    and "0 < c_depth E"
  shows "bread E dev block s = Ok (Some bh) (upd_buf bh (b_count_update (\<lambda>c. c + 1)) s)"
proof -
  obtain n where n: "c_depth E = Suc n" using assms(7) gr0_implies_Suc by blast
  have "getblk E dev block s = Ok bh (upd_buf bh (b_count_update (\<lambda>c. c + 1)) s)"
    unfolding getblk_def n by (simp, subst iterK_unfold) (simp add: getblk_round_def get_hash_table_hit [OF assms(1-5)])
  then show ?thesis using assms(6) by (simp add: bread_def bread_of_def)
qed

text \<open>The block with inode \<open>nr\<close> of a mounted device is in the cache.\<close>

definition inode_cached :: "u16 \<Rightarrow> nat \<Rightarrow> u16 \<Rightarrow> nat \<Rightarrow> 'z fs_st_scheme \<Rightarrow> bool" where
  "inode_cached dev k nr bh s \<longleftrightarrow> cache_inv s \<and> dev \<noteq> 0 \<and> k < 8 \<and> s_dev (sblock s k) = dev \<and> (\<forall>j < k. s_dev (sblock s j) \<noteq> dev) \<and> \<not> s_lock (sblock s k) \<and>
     bh < NR_BUFFERS s \<and> holds dev (inode_block (sblock s k) nr) (buf s bh) \<and> \<not> b_lock (buf s bh) \<and> b_uptodate (buf s bh) \<and> b_count (buf s bh) \<noteq> 255"

lemma inode_cached_bread:
  assumes "inode_cached dev k nr bh s" and "0 < c_depth E"
  shows "get_super E dev s = Ok (Some k) s" and "bread E dev (inode_block (sblock s k) nr) s = Ok (Some bh) (upd_buf bh (b_count_update (\<lambda>c. c + 1)) s)"
  using assms(1) by (auto simp: inode_cached_def intro!: get_super_quick bread_cached assms(2))

definition bplace :: "buffer_head \<Rightarrow> u16 \<times> u32 \<times> bool \<times> bool \<times> nat option \<times> nat option \<times> nat option \<times> nat option" where
  "bplace b = (b_dev b, b_blocknr b, b_lock b, b_uptodate b, b_prev b, b_next b, b_prev_free b, b_next_free b)"

lemma inode_cached_cong:
  assumes "inode_cached dev k nr bh s" and "sblock t = sblock s" and "hash_table t = hash_table s" "NR_BUFFERS t = NR_BUFFERS s" "free_list t = free_list s"
    and "\<And>i. bplace (buf t i) = bplace (buf s i)" and "b_count (buf t bh) \<noteq> 255"
  shows "inode_cached dev k nr bh t"
proof -
  have e: "b_prev (buf t i) = b_prev (buf s i) \<and> b_next (buf t i) = b_next (buf s i)"
    "b_prev_free (buf t i) = b_prev_free (buf s i) \<and> b_next_free (buf t i) = b_next_free (buf s i)"
    "b_dev (buf t i) = b_dev (buf s i) \<and> b_blocknr (buf t i) = b_blocknr (buf s i)"
    "b_lock (buf t i) = b_lock (buf s i) \<and> b_uptodate (buf t i) = b_uptodate (buf s i)" for i
    using assms(6) [of i] by (auto simp: bplace_def)
  have "cache_inv t" by (rule cache_inv_cong [OF _ e(1-3) assms(3-5)]) (use assms(1) in \<open>simp add: inode_cached_def\<close>)
  then show ?thesis using assms(1,2,4,7) e by (auto simp: inode_cached_def holds_def)
qed

lemma count_up_down: "c \<noteq> 255 \<Longrightarrow> c + 1 \<noteq> (0 :: u8)"
proof
  assume "c \<noteq> 255" "c + 1 = 0"
  moreover have "(- 1 :: u8) = 255" by code_simp
  ultimately show False by (simp add: eq_neg_iff_add_eq_0 [symmetric])
qed

lemma write_inode_cached:
  assumes "inode_cached (i_dev (inode s i)) k (i_num (inode s i)) bh s" and "0 < c_depth E" and "i_dirt (inode s i)" and "\<not> i_lock (inode s i)"
  obtains t where "write_inode E i s = Ok () t" "inode t = (inode s)(i := (inode s i)\<lparr>i_dirt := False, i_lock := False\<rparr>)"
    "inode_cached (i_dev (inode s i)) k (i_num (inode s i)) bh t"
    "b_data (buf t bh) = put_d_inode (inode s i) (inode_offset (i_num (inode s i))) (b_data (buf s bh))"
proof -
  let ?dev = "i_dev (inode s i)" and ?nr = "i_num (inode s i)"
  let ?s = "upd_inode i (i_lock_update (\<lambda>_. True)) s"
  have c: "inode_cached ?dev k ?nr bh ?s"
    by (rule inode_cached_cong [OF assms(1)]) (use assms(1) in \<open>auto simp: upd_inode_def inode_cached_def\<close>)
  have "?dev \<noteq> 0" "\<not> b_lock (buf s bh)" "b_count (buf s bh) + 1 \<noteq> 0" using assms(1) by (auto simp: inode_cached_def count_up_down)
  let ?a = "upd_buf bh (b_count_update (\<lambda>c. c + 1)) ?s"
  let ?b = "upd_buf bh (\<lambda>b. b\<lparr>b_data := put_d_inode (inode ?a i) (inode_offset ?nr) (b_data b), b_dirt := True\<rparr>) ?a"
  let ?t = "unlock_inode i (wake_up WqBufferWait (upd_buf bh (b_count_update (\<lambda>c. c - 1)) (upd_inode i (i_dirt_update (\<lambda>_. False)) ?b)))"
  have "write_inode E i s = Ok () ?t"
    using inode_cached_bread [OF c assms(2)] assms(3,4) \<open>?dev \<noteq> 0\<close> \<open>\<not> b_lock (buf s bh)\<close> \<open>b_count (buf s bh) + 1 \<noteq> 0\<close>
    by (simp add: write_inode_def write_inode_of_def lock_inode_def wait_on_inode_def bread_def brelse_quick Let_def)
  moreover have "inode ?t = (inode s)(i := (inode s i)\<lparr>i_dirt := False, i_lock := False\<rparr>)" by (simp add: unlock_inode_def)
  moreover have "b_data (buf ?t bh) = put_d_inode (inode s i) (inode_offset ?nr) (b_data (buf s bh))"
    by (simp add: unlock_inode_def put_d_inode_def Let_def)
  moreover have "inode_cached ?dev k ?nr bh ?t"
    by (rule inode_cached_cong [OF assms(1)]) (use assms(1) in \<open>auto simp: unlock_inode_def inode_cached_def bplace_def upd_inode_def\<close>)
  ultimately show ?thesis using that by blast
qed

lemma read_inode_cached:
  assumes "inode_cached (i_dev (inode s i)) k (i_num (inode s i)) bh s" and "0 < c_depth E" and "\<not> i_lock (inode s i)"
  shows "\<exists>t. read_inode E i s = Ok () t \<and> inode t i = get_d_inode (b_data (buf s bh)) (inode_offset (i_num (inode s i))) (inode s i)"
proof -
  let ?dev = "i_dev (inode s i)" and ?nr = "i_num (inode s i)"
  let ?s = "upd_inode i (i_lock_update (\<lambda>_. True)) s"
  have c: "inode_cached ?dev k ?nr bh ?s"
    by (rule inode_cached_cong [OF assms(1)]) (use assms(1) in \<open>auto simp: upd_inode_def inode_cached_def\<close>)
  have "\<not> b_lock (buf s bh)" "b_count (buf s bh) + 1 \<noteq> 0" using assms(1) by (auto simp: inode_cached_def count_up_down)
  then have "read_inode E i s = Ok () (unlock_inode i (wake_up WqBufferWait (upd_buf bh (b_count_update (\<lambda>c. c - 1))
      (upd_inode i (get_d_inode (b_data (buf s bh)) (inode_offset ?nr)) (upd_buf bh (b_count_update (\<lambda>c. c + 1)) ?s)))))"
    using inode_cached_bread [OF c assms(2)] assms(3)
    by (simp add: read_inode_def lock_inode_def wait_on_inode_def brelse_quick)
  moreover have "(get_d_inode d off (n\<lparr>i_lock := True\<rparr>))\<lparr>i_lock := False\<rparr> = get_d_inode d off n" if "\<not> i_lock n" for d off n
    using that by (cases n) (simp add: get_d_inode_def cong: if_cong)
  ultimately show ?thesis using assms(3) by (simp add: unlock_inode_def)
qed



end
