(* ===== verification/File_Io.thy ===== *)
theory File_Io
  imports Inodes
begin

unbundle bit_operations_syntax

section \<open>Reading and writing open files\<close>

text \<open>
  \<^verbatim>\<open>fs/pipe.c\<close>, \<^verbatim>\<open>fs/file_dev.c\<close>, \<^verbatim>\<open>fs/block_dev.c\<close>, \<^verbatim>\<open>fs/char_dev.c\<close>, \<^verbatim>\<open>fs/read_write.c\<close>, \<^verbatim>\<open>fs/fcntl.c\<close>, \<^verbatim>\<open>fs/ioctl.c\<close>
  and those parts of \<^verbatim>\<open>fs/open.c\<close> and \<^verbatim>\<open>fs/stat.c\<close> that need no path names. \<^verbatim>\<open>struct file *\<close> is the number of the entry in
  \<^verbatim>\<open>file_table\<close>; a pointer \<^verbatim>\<open>&file->f_pos\<close> is passed as that number. Positions are signed 32-bit numbers, sizes unsigned ones,
  and mixed comparisons are unsigned as in C. The terminal calls are the components \<open>c_tty_read\<close> and so on of the context.
\<close>

abbreviation (input) EIO :: int where "EIO \<equiv> 5"
abbreviation (input) EBADF :: int where "EBADF \<equiv> 9"
abbreviation (input) ENODEV :: int where "ENODEV \<equiv> 19"
abbreviation (input) EMFILE :: int where "EMFILE \<equiv> 24"
abbreviation (input) ENOTTY :: int where "ENOTTY \<equiv> 25"
abbreviation (input) ESPIPE :: int where "ESPIPE \<equiv> 29"

abbreviation (input) O_APPEND :: u16 where "O_APPEND \<equiv> 0x400"
abbreviation (input) O_NONBLOCK :: u16 where "O_NONBLOCK \<equiv> 0x800"

subsection \<open>Pipes\<close>

text \<open>Single bytes of physical memory, which is a memory of longs at addresses divisible by 4.\<close>

definition phys_byte :: "u32 \<Rightarrow> 'z mm_st_scheme \<Rightarrow> u8" where
  "phys_byte a s = ucast (drop_bit (8 * unat (a AND 3)) (phys s (a AND NOT 3)))"

definition poke_byte :: "u32 \<Rightarrow> u8 \<Rightarrow> 'z mm_st_scheme \<Rightarrow> 'z mm_st_scheme" where
  "poke_byte a v s =
     (let k = 8 * unat (a AND 3); w = phys s (a AND NOT 3)
      in poke (a AND NOT 3) ((w AND NOT (push_bit k 0xff)) OR push_bit k (ucast v)) s)"

definition PIPE_HEAD :: "m_inode \<Rightarrow> u16" where "PIPE_HEAD n = i_zone n 0"
definition PIPE_TAIL :: "m_inode \<Rightarrow> u16" where "PIPE_TAIL n = i_zone n 1"

definition PIPE_SIZE :: "m_inode \<Rightarrow> nat" where
  "PIPE_SIZE n = unat ((ucast (PIPE_HEAD n) - ucast (PIPE_TAIL n) :: u32) AND 4095)"

text \<open>
  The two sides of a pipe move bytes in runs that end where the page ends. \<open>pipe_take\<close> and \<open>pipe_give\<close> are the parts of the
  outer loops after the wait: they move a run of at most \<open>count\<close> bytes and answer its length.
\<close>

definition pipe_take :: "nat \<Rightarrow> u32 \<Rightarrow> int \<Rightarrow> 'z fs_st_scheme \<Rightarrow> nat \<times> 'z fs_st_scheme" where
  "pipe_take i ubuf count s =
     (let tail = unat (PIPE_TAIL (inode s i)); chars = min (min (4096 - tail) (nat count)) (PIPE_SIZE (inode s i));
          page = i_size (inode s i);
          s = upd_inode i (set_zone 1 ((PIPE_TAIL (inode s i) + word_of_nat chars) AND 4095)) s
      in (chars, fold (\<lambda>k s. put_fs_byte (phys_byte (page + word_of_nat (tail + k)) s) (ubuf + word_of_nat k) s) [0..<chars] s))"

definition pipe_give :: "nat \<Rightarrow> u32 \<Rightarrow> int \<Rightarrow> 'z fs_st_scheme \<Rightarrow> nat \<times> 'z fs_st_scheme" where
  "pipe_give i ubuf count s =
     (let head = unat (PIPE_HEAD (inode s i)); chars = min (min (4096 - head) (nat count)) (4095 - PIPE_SIZE (inode s i));
          page = i_size (inode s i);
          s = upd_inode i (set_zone 0 ((PIPE_HEAD (inode s i) + word_of_nat chars) AND 4095)) s
      in (chars, fold (\<lambda>k s. poke_byte (page + word_of_nat (head + k)) (get_fs_byte (ubuf + word_of_nat k) s) s) [0..<chars] s))"

definition read_pipe_round :: "('z fs_st_scheme) ctx \<Rightarrow> nat \<Rightarrow> int \<times> int \<times> u32 \<Rightarrow> 'z fs_st_scheme \<Rightarrow>
    ((int \<times> int \<times> u32) + int, 'z fs_st_scheme) outcome" where
  "read_pipe_round E i = (\<lambda>(count, got, ubuf) s.
     if count \<le> 0 then Ok (Inr got) (wake_up (WqInode i) s)
     else if PIPE_SIZE (inode s i) = 0
     then let s = wake_up (WqInode i) s
          in if i_count (inode s i) \<noteq> 2 then Ok (Inr got) s
             else bindK (sleep_on E (WqInode i) s) (\<lambda>_ s. Ok (Inl (count, got, ubuf)) s)
     else let (n, s) = pipe_take i ubuf count s in Ok (Inl (count - int n, got + int n, ubuf + word_of_nat n)) s)"

definition read_pipe :: "('z fs_st_scheme) ctx \<Rightarrow> nat \<Rightarrow> u32 \<Rightarrow> int \<Rightarrow> 'z fs_st_scheme \<Rightarrow> (int, 'z fs_st_scheme) outcome" where
  "read_pipe E i ubuf count s = iterK (read_pipe_round E i) (count, 0, ubuf) s"

definition write_pipe_round :: "('z fs_st_scheme) ctx \<Rightarrow> nat \<Rightarrow> int \<times> int \<times> u32 \<Rightarrow> 'z fs_st_scheme \<Rightarrow>
    ((int \<times> int \<times> u32) + int, 'z fs_st_scheme) outcome" where
  "write_pipe_round E i = (\<lambda>(count, written, ubuf) s.
     if count \<le> 0 then Ok (Inr written) (wake_up (WqInode i) s)
     else if 4095 - PIPE_SIZE (inode s i) = 0
     then let s = wake_up (WqInode i) s
          in if i_count (inode s i) \<noteq> 2
             then Ok (Inr (if written \<noteq> 0 then written else - 1)) (upd_cur (\<lambda>t. t\<lparr>t_signal := t_signal t OR sig_bit 13\<rparr>) s)
             else bindK (sleep_on E (WqInode i) s) (\<lambda>_ s. Ok (Inl (count, written, ubuf)) s)
     else let (n, s) = pipe_give i ubuf count s in Ok (Inl (count - int n, written + int n, ubuf + word_of_nat n)) s)"

definition write_pipe :: "('z fs_st_scheme) ctx \<Rightarrow> nat \<Rightarrow> u32 \<Rightarrow> int \<Rightarrow> 'z fs_st_scheme \<Rightarrow> (int, 'z fs_st_scheme) outcome" where
  "write_pipe E i ubuf count s = iterK (write_pipe_round E i) (count, 0, ubuf) s"

definition set_filp :: "nat \<Rightarrow> nat option \<Rightarrow> 'z sched_st_scheme \<Rightarrow> 'z sched_st_scheme" where
  "set_filp fd f s = upd_cur (\<lambda>t. t\<lparr>t_filp := (t_filp t)(fd := f)\<rparr>) s"

definition free_files :: "'z fs_st_scheme \<Rightarrow> nat list" where
  "free_files s = filter (\<lambda>i. f_count (file_tab s i) = 0) [0..<NR_FILE]"

definition free_fds :: "'z sched_st_scheme \<Rightarrow> nat list" where
  "free_fds s = filter (\<lambda>i. t_filp (cur s) i = None) [0..<NR_OPEN]"

definition sys_pipe :: "('z fs_st_scheme) ctx \<Rightarrow> u32 \<Rightarrow> 'z fs_st_scheme \<Rightarrow> (int, 'z fs_st_scheme) outcome" where
  "sys_pipe E fildes s =
     (case free_files s of
        f0 # f1 # _ \<Rightarrow>
          let s = upd_file f1 (f_count_update (\<lambda>c. c + 1)) (upd_file f0 (f_count_update (\<lambda>c. c + 1)) s)
          in (case free_fds s of
                d0 # d1 # _ \<Rightarrow>
                  bindK (get_pipe_inode E (set_filp d1 (Some f1) (set_filp d0 (Some f0) s))) (\<lambda>i s.
                  if i = None
                  then Ok (- 1) (upd_file f1 (f_count_update (\<lambda>_. 0)) (upd_file f0 (f_count_update (\<lambda>_. 0))
                         (set_filp d0 None (set_filp d1 None s))))
                  else let s = upd_file f0 (\<lambda>f. f\<lparr>f_inode := i, f_pos := 0, f_mode := 1\<rparr>) s;
                           s = upd_file f1 (\<lambda>f. f\<lparr>f_inode := i, f_pos := 0, f_mode := 2\<rparr>) s
                       in Ok 0 (put_fs_long (word_of_nat d1) (fildes + 4) (put_fs_long (word_of_nat d0) fildes s)))
              | _ \<Rightarrow> Ok (- 1) (upd_file f1 (f_count_update (\<lambda>_. 0)) (upd_file f0 (f_count_update (\<lambda>_. 0)) s)))
      | _ \<Rightarrow> Ok (- 1) s)"

subsection \<open>Regular files and block devices\<close>

text \<open>The loops that copy between a block and user space, \<open>n\<close> bytes from offset \<open>p\<close> of the block on.\<close>

definition block_bytes :: "block \<Rightarrow> nat \<Rightarrow> nat \<Rightarrow> u8 list" where
  "block_bytes d p n = map (\<lambda>k. d (p + k)) [0..<n]"

definition fill_block :: "u32 \<Rightarrow> nat \<Rightarrow> nat \<Rightarrow> 'z sched_st_scheme \<Rightarrow> block \<Rightarrow> block" where
  "fill_block ubuf p n s d = (\<lambda>i. if p \<le> i \<and> i < p + n then get_fs_byte (ubuf + word_of_nat (i - p)) s else d i)"

definition move_pos :: "nat \<Rightarrow> int \<Rightarrow> 'z fs_st_scheme \<Rightarrow> 'z fs_st_scheme" where
  "move_pos f n s = upd_file f (\<lambda>x. x\<lparr>f_pos := s32 (f_pos x + n)\<rparr>) s"

definition file_read :: "('z fs_st_scheme) ctx \<Rightarrow> nat \<Rightarrow> nat \<Rightarrow> u32 \<Rightarrow> int \<Rightarrow> 'z fs_st_scheme \<Rightarrow> (int, 'z fs_st_scheme) outcome" where
  "file_read E i f ubuf0 count s =
     (if count \<le> 0 then Ok 0 s
      else bindK (iterK (\<lambda>(left, ubuf) s.
          if left = 0 then Ok (Inr left) s
          else bindK (bmap E i (cdiv (f_pos (file_tab s f)) 1024) s) (\<lambda>nr s.
            bindK (if nr \<noteq> 0 then bread E (i_dev (inode s i)) (ucast nr) s else Ok None s) (\<lambda>bh s.
            if nr \<noteq> 0 \<and> bh = None then Ok (Inr left) s
            else let off = nat (cmod (f_pos (file_tab s f)) 1024); chars = min (1024 - int off) left;
                     s = move_pos f chars s
                 in case bh of
                      Some b \<Rightarrow>
                        bindK (brelse E bh (put_fs_bytes (block_bytes (b_data (buf s b)) off (nat chars)) ubuf s)) (\<lambda>_ s.
                        Ok (Inl (left - chars, ubuf + word_of_int chars)) s)
                    | None \<Rightarrow> Ok (Inl (left - chars, ubuf + word_of_int chars)) (put_fs_bytes (replicate (nat chars) 0) ubuf s))))
        (count, ubuf0) s) (\<lambda>left s.
      Ok (if count - left \<noteq> 0 then count - left else - ERROR) (upd_inode i (i_atime_update (\<lambda>_. now s)) s)))"

text \<open>The bytes go to the block first in \<^verbatim>\<open>file_write\<close>, after the size and the position have been moved on.\<close>

definition file_write :: "('z fs_st_scheme) ctx \<Rightarrow> nat \<Rightarrow> nat \<Rightarrow> u32 \<Rightarrow> int \<Rightarrow> 'z fs_st_scheme \<Rightarrow> (int, 'z fs_st_scheme) outcome" where
  "file_write E i f ubuf0 count s =
     (let append = (f_flags (file_tab s f) AND O_APPEND \<noteq> 0);
          pos0 = (if append then sint (i_size (inode s i)) else f_pos (file_tab s f))
      in bindK (iterK (\<lambda>(pos, n, ubuf) s.
           if n \<ge> count then Ok (Inr (pos, n)) s
           else bindK (create_block E i (cdiv pos 1024) s) (\<lambda>block s.
             if block = 0 then Ok (Inr (pos, n)) s
             else bindK (bread E (i_dev (inode s i)) (ucast block) s) (\<lambda>bh s.
               case bh of
                 None \<Rightarrow> Ok (Inr (pos, n)) s
               | Some b \<Rightarrow>
                   let off = nat (cmod pos 1024); c = min (1024 - int off) (count - n); pos = s32 (pos + c);
                       s = (if word_of_int pos > i_size (inode s i) then upd_inode i (\<lambda>x. x\<lparr>i_size := word_of_int pos, i_dirt := True\<rparr>) s else s);
                       s = upd_buf b (\<lambda>x. x\<lparr>b_dirt := True, b_data := fill_block ubuf off (nat c) s (b_data x)\<rparr>) s
                   in bindK (brelse E bh s) (\<lambda>_ s. Ok (Inl (pos, n + c, ubuf + word_of_int c)) s))))
           (pos0, 0, ubuf0) s) (\<lambda>(pos, n) s.
         let s = upd_inode i (i_mtime_update (\<lambda>_. now s)) s;
             s = (if append then s else upd_inode i (i_ctime_update (\<lambda>_. now s)) (upd_file f (f_pos_update (\<lambda>_. pos)) s))
         in Ok (if n \<noteq> 0 then n else - 1) s))"

definition block_write :: "('z fs_st_scheme) ctx \<Rightarrow> u16 \<Rightarrow> nat \<Rightarrow> u32 \<Rightarrow> int \<Rightarrow> 'z fs_st_scheme \<Rightarrow> (int, 'z fs_st_scheme) outcome" where
  "block_write E dev f ubuf0 count0 s =
     iterK (\<lambda>(block, off, count, written, ubuf) s.
       if count \<le> 0 then Ok (Inr written) s
       else let chars = min (1024 - int off) count
            in bindK (if chars = 1024 then bindK (getblk E dev block s) (\<lambda>bh s. Ok (Some bh) s)
                      else breada E dev block [block + 1, block + 2, - 1] s) (\<lambda>bh s.
               case bh of
                 None \<Rightarrow> Ok (Inr (if written \<noteq> 0 then written else - EIO)) s
               | Some b \<Rightarrow>
                   let s = move_pos f chars s;
                       s = upd_buf b (\<lambda>x. x\<lparr>b_data := fill_block ubuf off (nat chars) s (b_data x), b_dirt := True\<rparr>) s
                   in bindK (brelse E bh s) (\<lambda>_ s. Ok (Inl (block + 1, 0, count - chars, written + chars, ubuf + word_of_int chars)) s)))
       (word_of_int (f_pos (file_tab s f) div 1024), nat (f_pos (file_tab s f) mod 1024), count0, 0, ubuf0) s"

definition block_read :: "('z fs_st_scheme) ctx \<Rightarrow> u16 \<Rightarrow> nat \<Rightarrow> u32 \<Rightarrow> int \<Rightarrow> 'z fs_st_scheme \<Rightarrow> (int, 'z fs_st_scheme) outcome" where
  "block_read E dev f ubuf0 count0 s =
     iterK (\<lambda>(block, off, count, got, ubuf) s.
       if count \<le> 0 then Ok (Inr got) s
       else let chars = min (1024 - int off) count
            in bindK (breada E dev block [block + 1, block + 2, - 1] s) (\<lambda>bh s.
               case bh of
                 None \<Rightarrow> Ok (Inr (if got \<noteq> 0 then got else - EIO)) s
               | Some b \<Rightarrow>
                   bindK (brelse E bh (put_fs_bytes (block_bytes (b_data (buf s b)) off (nat chars)) ubuf (move_pos f chars s))) (\<lambda>_ s.
                   Ok (Inl (block + 1, 0, count - chars, got + chars, ubuf + word_of_int chars)) s)))
       (drop_bit 10 (word_of_int (f_pos (file_tab s f))), nat (f_pos (file_tab s f) mod 1024), count0, 0, ubuf0) s"

subsection \<open>Character devices\<close>

definition rw_ttyx :: "('z fs_st_scheme) ctx \<Rightarrow> nat \<Rightarrow> nat \<Rightarrow> u32 \<Rightarrow> int \<Rightarrow> 'z fs_st_scheme \<Rightarrow> (int, 'z fs_st_scheme) outcome" where
  "rw_ttyx E rw minor ubuf count s = (if rw = READ then c_tty_read E minor ubuf count s else c_tty_write E minor ubuf count s)"

definition rw_tty :: "('z fs_st_scheme) ctx \<Rightarrow> nat \<Rightarrow> u32 \<Rightarrow> int \<Rightarrow> 'z fs_st_scheme \<Rightarrow> (int, 'z fs_st_scheme) outcome" where
  "rw_tty E rw ubuf count s = (if t_tty (cur s) < 0 then Ok (- EPERM) s else rw_ttyx E rw (nat (t_tty (cur s))) ubuf count s)"

text \<open>Ports are numbered up to 65535; the position may be negative, and the port is then its low 16 bits.\<close>

definition rw_port :: "nat \<Rightarrow> u32 \<Rightarrow> int \<Rightarrow> nat \<Rightarrow> 'z fs_st_scheme \<Rightarrow> (int, 'z fs_st_scheme) outcome" where
  "rw_port rw ubuf count f s =
     (let p = f_pos (file_tab s f); n = nat (min count (65536 - p))
      in Ok (int n) (move_pos f (int n) (fold (\<lambda>k s.
           let port = nat ((p + int k) mod 65536)
           in if rw = READ then put_fs_byte (inb port s) (ubuf + word_of_nat k) s
              else outb (get_fs_byte (ubuf + word_of_nat k) s) port s) [0..<n] s)))"

definition rw_memory :: "nat \<Rightarrow> nat \<Rightarrow> u32 \<Rightarrow> int \<Rightarrow> nat \<Rightarrow> 'z fs_st_scheme \<Rightarrow> (int, 'z fs_st_scheme) outcome" where
  "rw_memory rw minor ubuf count f s =
     (if minor = 3 then Ok (if rw = READ then 0 else count) s
      else if minor = 4 then rw_port rw ubuf count f s
      else Ok (- EIO) s)"

definition rw_char :: "('z fs_st_scheme) ctx \<Rightarrow> nat \<Rightarrow> u16 \<Rightarrow> u32 \<Rightarrow> int \<Rightarrow> nat \<Rightarrow> 'z fs_st_scheme \<Rightarrow> (int, 'z fs_st_scheme) outcome" where
  "rw_char E rw dev ubuf count f s =
     (if MAJOR dev = 1 then rw_memory rw (MINOR dev) ubuf count f s
      else if MAJOR dev = 4 then rw_ttyx E rw (MINOR dev) ubuf count s
      else if MAJOR dev = 5 then rw_tty E rw ubuf count s
      else Ok (- ENODEV) s)"

subsection \<open>The system calls on descriptors\<close>

definition IS_SEEKABLE :: "nat \<Rightarrow> bool" where
  "IS_SEEKABLE x \<longleftrightarrow> x \<ge> 1 \<and> x \<le> 3"

definition fd_file :: "nat \<Rightarrow> 'z sched_st_scheme \<Rightarrow> nat option" where
  "fd_file fd s = (if fd \<ge> NR_OPEN then None else t_filp (cur s) fd)"

definition sys_lseek :: "nat \<Rightarrow> int \<Rightarrow> int \<Rightarrow> 'z fs_st_scheme \<Rightarrow> (int, 'z fs_st_scheme) outcome" where
  "sys_lseek fd offset origin s =
     (case fd_file fd s of
        None \<Rightarrow> Ok (- EBADF) s
      | Some f \<Rightarrow>
          (case f_inode (file_tab s f) of
             None \<Rightarrow> Ok (- EBADF) s
           | Some i \<Rightarrow>
               if \<not> IS_SEEKABLE (MAJOR (i_dev (inode s i))) then Ok (- EBADF) s
               else if i_pipe (inode s i) then Ok (- ESPIPE) s
               else let new = (if origin = 0 then Some offset
                               else if origin = 1 then Some (s32 (f_pos (file_tab s f) + offset))
                               else if origin = 2 then Some (s32 (uint (i_size (inode s i)) + offset)) else None)
                    in case new of
                         None \<Rightarrow> Ok (- EINVAL) s
                       | Some p \<Rightarrow> if p < 0 then Ok (- EINVAL) s else Ok p (upd_file f (f_pos_update (\<lambda>_. p)) s)))"

definition sys_read :: "('z fs_st_scheme) ctx \<Rightarrow> nat \<Rightarrow> u32 \<Rightarrow> int \<Rightarrow> 'z fs_st_scheme \<Rightarrow> (int, 'z fs_st_scheme) outcome" where
  "sys_read E fd ubuf count s =
     (case fd_file fd s of
        None \<Rightarrow> Ok (- EINVAL) s
      | Some f \<Rightarrow>
          if count < 0 then Ok (- EINVAL) s
          else if count = 0 then Ok 0 s
          else bindK (verify_area ubuf count s) (\<lambda>_ s.
            case f_inode (file_tab s f) of
              None \<Rightarrow> UB
            | Some i \<Rightarrow>
                let n = inode s i; p = f_pos (file_tab s f)
                in if i_pipe n then (if f_mode (file_tab s f) AND 1 \<noteq> 0 then read_pipe E i ubuf count s else Ok (- EIO) s)
                   else if S_ISCHR (i_mode n) then rw_char E READ (i_zone n 0) ubuf count f s
                   else if S_ISBLK (i_mode n) then block_read E (i_zone n 0) f ubuf count s
                   else if S_ISDIR (i_mode n) \<or> S_ISREG (i_mode n)
                   then let count = (if word_of_int (count + p) > i_size n then sint (i_size n - word_of_int p) else count)
                        in if count \<le> 0 then Ok 0 s else file_read E i f ubuf count s
                   else Ok (- EINVAL) s))"

definition sys_write :: "('z fs_st_scheme) ctx \<Rightarrow> nat \<Rightarrow> u32 \<Rightarrow> int \<Rightarrow> 'z fs_st_scheme \<Rightarrow> (int, 'z fs_st_scheme) outcome" where
  "sys_write E fd ubuf count s =
     (case fd_file fd s of
        None \<Rightarrow> Ok (- EINVAL) s
      | Some f \<Rightarrow>
          if count < 0 then Ok (- EINVAL) s
          else if count = 0 then Ok 0 s
          else (case f_inode (file_tab s f) of
              None \<Rightarrow> UB
            | Some i \<Rightarrow>
                let n = inode s i
                in if i_pipe n then (if f_mode (file_tab s f) AND 2 \<noteq> 0 then write_pipe E i ubuf count s else Ok (- EIO) s)
                   else if S_ISCHR (i_mode n) then rw_char E WRITE (i_zone n 0) ubuf count f s
                   else if S_ISBLK (i_mode n) then block_write E (i_zone n 0) f ubuf count s
                   else if S_ISREG (i_mode n) then file_write E i f ubuf count s
                   else Ok (- EINVAL) s))"

definition clear_cloexec :: "nat \<Rightarrow> 'z sched_st_scheme \<Rightarrow> 'z sched_st_scheme" where
  "clear_cloexec fd s = upd_cur (\<lambda>t. t\<lparr>t_close_on_exec := t_close_on_exec t AND NOT (push_bit fd 1)\<rparr>) s"

definition sys_close :: "('z fs_st_scheme) ctx \<Rightarrow> nat \<Rightarrow> 'z fs_st_scheme \<Rightarrow> (int, 'z fs_st_scheme) outcome" where
  "sys_close E fd s =
     (if fd \<ge> NR_OPEN then Ok (- EINVAL) s
      else let s = clear_cloexec fd s
           in case t_filp (cur s) fd of
                None \<Rightarrow> Ok (- EINVAL) s
              | Some f \<Rightarrow>
                  let s = set_filp fd None s
                  in if f_count (file_tab s f) = 0 then Panic ''Close: file count is 0''
                     else let s = upd_file f (f_count_update (\<lambda>c. c - 1)) s
                          in if f_count (file_tab s f) \<noteq> 0 then Ok 0 s
                             else bindK (iput E (f_inode (file_tab s f)) s) (\<lambda>_ s. Ok 0 s))"

definition dupfd :: "nat \<Rightarrow> nat \<Rightarrow> 'z fs_st_scheme \<Rightarrow> (int, 'z fs_st_scheme) outcome" where
  "dupfd fd arg s =
     (case fd_file fd s of
        None \<Rightarrow> Ok (- EBADF) s
      | Some f \<Rightarrow>
          if arg \<ge> NR_OPEN then Ok (- EINVAL) s
          else (case find (\<lambda>a. t_filp (cur s) a = None) [arg..<NR_OPEN] of
                  None \<Rightarrow> Ok (- EMFILE) s
                | Some a \<Rightarrow> Ok (int a) (upd_file f (f_count_update (\<lambda>c. c + 1)) (set_filp a (Some f) (clear_cloexec a s)))))"

definition sys_dup2 :: "('z fs_st_scheme) ctx \<Rightarrow> nat \<Rightarrow> nat \<Rightarrow> 'z fs_st_scheme \<Rightarrow> (int, 'z fs_st_scheme) outcome" where
  "sys_dup2 E oldfd newfd s = bindK (sys_close E newfd s) (\<lambda>_ s. dupfd oldfd newfd s)"

definition sys_dup :: "nat \<Rightarrow> 'z fs_st_scheme \<Rightarrow> (int, 'z fs_st_scheme) outcome" where
  "sys_dup fildes s = dupfd fildes 0 s"

definition sys_fcntl :: "nat \<Rightarrow> nat \<Rightarrow> u32 \<Rightarrow> 'z fs_st_scheme \<Rightarrow> (int, 'z fs_st_scheme) outcome" where
  "sys_fcntl fd cmd arg s =
     (case fd_file fd s of
        None \<Rightarrow> Ok (- EBADF) s
      | Some f \<Rightarrow>
          if cmd = 0 then dupfd fd (unat arg) s
          else if cmd = 1 then Ok (if bit (t_close_on_exec (cur s)) fd then 1 else 0) s
          else if cmd = 2
          then Ok 0 (if arg AND 1 \<noteq> 0 then upd_cur (\<lambda>t. t\<lparr>t_close_on_exec := t_close_on_exec t OR push_bit fd 1\<rparr>) s else clear_cloexec fd s)
          else if cmd = 3 then Ok (uint (f_flags (file_tab s f))) s
          else if cmd = 4
          then Ok 0 (upd_file f (\<lambda>x. x\<lparr>f_flags := (f_flags x AND NOT (O_APPEND OR O_NONBLOCK)) OR (ucast arg AND (O_APPEND OR O_NONBLOCK))\<rparr>) s)
          else Ok (- 1) s)"

definition sys_ioctl :: "('z fs_st_scheme) ctx \<Rightarrow> nat \<Rightarrow> u32 \<Rightarrow> u32 \<Rightarrow> 'z fs_st_scheme \<Rightarrow> (int, 'z fs_st_scheme) outcome" where
  "sys_ioctl E fd cmd arg s =
     (case fd_file fd s of
        None \<Rightarrow> Ok (- EBADF) s
      | Some f \<Rightarrow>
          (case f_inode (file_tab s f) of
             None \<Rightarrow> UB
           | Some i \<Rightarrow>
               let mode = i_mode (inode s i); dev = i_zone (inode s i) 0
               in if \<not> S_ISCHR mode \<and> \<not> S_ISBLK mode then Ok (- EINVAL) s
                  else if MAJOR dev \<ge> 8 then Ok (- ENODEV) s
                  else if MAJOR dev \<noteq> 4 \<and> MAJOR dev \<noteq> 5 then Ok (- ENOTTY) s
                  else c_tty_ioctl E dev cmd arg s))"

text \<open>
  \<^verbatim>\<open>struct stat\<close> has 32 bytes, four of which (7, 11, 14 and 15) are padding. The kernel copies them from its stack; their values
  are the argument \<open>pad\<close>.
\<close>

definition stat_bytes :: "(nat \<Rightarrow> u8) \<Rightarrow> m_inode \<Rightarrow> block" where
  "stat_bytes pad n =
     (let d = put16 (i_dev n) 0 pad; d = put16 (i_num n) 2 d; d = put16 (i_mode n) 4 d; d = d(6 := i_nlinks n);
          d = put16 (i_uid n) 8 d; d = d(10 := i_gid n); d = put16 (i_zone n 0) 12 d; d = put32 (i_size n) 16 d;
          d = put32 (i_atime n) 20 d; d = put32 (i_mtime n) 24 d
      in put32 (i_ctime n) 28 d)"

definition cp_stat :: "(nat \<Rightarrow> u8) \<Rightarrow> nat \<Rightarrow> u32 \<Rightarrow> 'z fs_st_scheme \<Rightarrow> (unit, 'z fs_st_scheme) outcome" where
  "cp_stat pad i statbuf s =
     bindK (verify_area statbuf 32 s) (\<lambda>_ s. Ok () (put_fs_bytes (block_bytes (stat_bytes pad (inode s i)) 0 32) statbuf s))"

definition sys_fstat :: "(nat \<Rightarrow> u8) \<Rightarrow> nat \<Rightarrow> u32 \<Rightarrow> 'z fs_st_scheme \<Rightarrow> (int, 'z fs_st_scheme) outcome" where
  "sys_fstat pad fd statbuf s =
     (case fd_file fd s of
        None \<Rightarrow> Ok (- EBADF) s
      | Some f \<Rightarrow> (case f_inode (file_tab s f) of
          None \<Rightarrow> Ok (- EBADF) s
        | Some i \<Rightarrow> bindK (cp_stat pad i statbuf s) (\<lambda>_ s. Ok 0 s)))"

end
