(* ===== verification/Namei.thy ===== *)
theory Namei
  imports File_Io
begin

unbundle bit_operations_syntax

section \<open>Path names and directories\<close>

text \<open>
  \<^verbatim>\<open>fs/namei.c\<close>. Path names stay in user space, as in the source: a name is an address and a length. A directory entry is a
  buffer and the offset of the entry in its block: the inode number (2 bytes) and the name (14 bytes). A function that gets
  \<^verbatim>\<open>struct m_inode **dir\<close> returns the new directory with its result. The exits of the system calls release inodes and buffers in an order of their own;
  \<open>leave E held r\<close> is such an exit: it releases \<open>held\<close> from left to right and returns \<open>r\<close>.
\<close>

abbreviation (input) EACCES :: int where "EACCES \<equiv> 13"
abbreviation (input) EEXIST :: int where "EEXIST \<equiv> 17"
abbreviation (input) EXDEV :: int where "EXDEV \<equiv> 18"
abbreviation (input) ENOTDIR :: int where "ENOTDIR \<equiv> 20"
abbreviation (input) EISDIR :: int where "EISDIR \<equiv> 21"
abbreviation (input) ENOSPC :: int where "ENOSPC \<equiv> 28"
abbreviation (input) ENOTEMPTY :: int where "ENOTEMPTY \<equiv> 39"

abbreviation (input) MAY_EXEC :: u32 where "MAY_EXEC \<equiv> 1"
abbreviation (input) MAY_WRITE :: u32 where "MAY_WRITE \<equiv> 2"
abbreviation (input) MAY_READ :: u32 where "MAY_READ \<equiv> 4"

abbreviation (input) O_ACCMODE :: u32 where "O_ACCMODE \<equiv> 3"
abbreviation (input) O_WRONLY :: u32 where "O_WRONLY \<equiv> 1"
abbreviation (input) O_CREAT :: u32 where "O_CREAT \<equiv> 0x40"
abbreviation (input) O_EXCL :: u32 where "O_EXCL \<equiv> 0x80"
abbreviation (input) O_TRUNC :: u32 where "O_TRUNC \<equiv> 0x200"

abbreviation (input) I_DIRECTORY :: u16 where "I_DIRECTORY \<equiv> 0x4000"
abbreviation (input) I_REGULAR :: u32 where "I_REGULAR \<equiv> 0x8000"
abbreviation (input) S_ISVTX :: u16 where "S_ISVTX \<equiv> 0x200"

datatype ref = RInode nat | RBuf nat

primrec drop_ref :: "('z fs_st_scheme) ctx \<Rightarrow> ref \<Rightarrow> 'z fs_st_scheme \<Rightarrow> (unit, 'z fs_st_scheme) outcome" where
  "drop_ref E (RInode i) s = iput E (Some i) s"
| "drop_ref E (RBuf b) s = brelse E (Some b) s"

definition leave :: "('z fs_st_scheme) ctx \<Rightarrow> ref list \<Rightarrow> 'r \<Rightarrow> 'z fs_st_scheme \<Rightarrow> ('r, 'z fs_st_scheme) outcome" where
  "leave E held r s = bindK (forK held (drop_ref E) s) (\<lambda>_ s. Ok r s)"

subsection \<open>Permissions and names\<close>

definition ACC_MODE :: "u32 \<Rightarrow> u32" where
  "ACC_MODE x = (if x AND O_ACCMODE = 0 then 4 else if x AND O_ACCMODE = 1 then 2 else if x AND O_ACCMODE = 2 then 6 else 0xffffffff)"

definition permission :: "nat \<Rightarrow> u32 \<Rightarrow> 'z fs_st_scheme \<Rightarrow> bool" where
  "permission i may s =
     (let n = inode s i; mode = (ucast (i_mode n) :: u32)
      in if i_dev n \<noteq> 0 \<and> i_nlinks n = 0 then False
         else let mode = (if t_euid (cur s) = i_uid n then drop_bit 6 mode
                          else if t_egid (cur s) = ucast (i_gid n) then drop_bit 3 mode else mode)
              in mode AND may AND 7 = may \<or> suser s)"

text \<open>The entry at offset \<open>off\<close> of block \<open>d\<close> against \<open>len\<close> bytes of user space from \<open>name\<close> on.\<close>

definition match :: "nat \<Rightarrow> u32 \<Rightarrow> block \<Rightarrow> nat \<Rightarrow> 'z sched_st_scheme \<Rightarrow> bool" where
  "match len name d off s \<longleftrightarrow>
     get16 d off \<noteq> 0 \<and> len \<le> NAME_LEN \<and> (len < NAME_LEN \<longrightarrow> d (off + 2 + len) = 0) \<and>
     (\<forall>k \<in> set [0..<len]. get_fs_byte (name + word_of_nat k) s = d (off + 2 + k))"

text \<open>
  The scan of \<^verbatim>\<open>find_entry\<close>: entry number \<open>i\<close>, the buffer, and the offset \<open>de\<close> in its block. When a block cannot be read, \<^verbatim>\<open>bh\<close>
  is \<^verbatim>\<open>NULL\<close> at the next test for the end of the block; that test then compares with the word at address 0, the first
  entry of the page directory, which is smaller than the address of any buffer, so the test holds.
\<close>

definition entry_scan ::
    "('z fs_st_scheme) ctx \<Rightarrow> nat \<Rightarrow> u32 \<Rightarrow> nat \<Rightarrow> nat \<Rightarrow> nat \<times> nat option \<times> nat \<Rightarrow> 'z fs_st_scheme
       \<Rightarrow> ((nat \<times> nat option \<times> nat) + (nat \<times> nat) option, 'z fs_st_scheme) outcome" where
  "entry_scan E dir name namelen entries = (\<lambda>(i, bh, de) s.
     if i \<ge> entries then bindK (brelse E bh s) (\<lambda>_ s. Ok (Inr None) s)
     else bindK (
         if de \<ge> 1024 \<or> bh = None
         then bindK (brelse E bh s) (\<lambda>_ s.
              bindK (bmap E dir (int (i div 64)) s) (\<lambda>block s.
              bindK (if block = 0 then Ok None s else bread E (i_dev (inode s dir)) (ucast block) s) (\<lambda>bh s. Ok (bh, 0) s)))
         else Ok (bh, de) s) (\<lambda>(bh, de) s.
       case bh of
         None \<Rightarrow> Ok (Inl (i + 64, None, 1024)) s
       | Some b \<Rightarrow>
           if match namelen name (b_data (buf s b)) de s then Ok (Inr (Some (b, de))) s
           else Ok (Inl (i + 1, bh, de + 16)) s))"

definition find_entry ::
    "('z fs_st_scheme) ctx \<Rightarrow> nat \<Rightarrow> u32 \<Rightarrow> nat \<Rightarrow> 'z fs_st_scheme \<Rightarrow> (nat \<times> (nat \<times> nat) option, 'z fs_st_scheme) outcome" where
  "find_entry E dir name len s =
     (let len = min len NAME_LEN; entries = unat (i_size (inode s dir)) div 16
      in if len = 0 then Ok (dir, None) s
         else let dotdot = (len = 2 \<and> get_fs_byte name s = 0x2e \<and> get_fs_byte (name + 1) s = 0x2e)
              in bindK (
                   if dotdot \<and> t_root (cur s) = Some dir then Ok (dir, 1) s
                   else if dotdot \<and> i_num (inode s dir) = ROOT_INO
                   then bindK (get_super E (i_dev (inode s dir)) s) (\<lambda>sb s.
                     case sb of
                       None \<Rightarrow> UB
                     | Some sb \<Rightarrow>
                         if s_imount (sblock s sb) = None then Ok (dir, len) s
                         else bindK (iput E (Some dir) s) (\<lambda>_ s.
                           case s_imount (sblock s sb) of
                             None \<Rightarrow> UB
                           | Some m \<Rightarrow> Ok (m, len) (upd_inode m (i_count_update (\<lambda>c. c + 1)) s)))
                   else Ok (dir, len) s) (\<lambda>(dir, len) s.
                 let block = i_zone (inode s dir) 0
                 in if block = 0 then Ok (dir, None) s
                    else bindK (bread E (i_dev (inode s dir)) (ucast block) s) (\<lambda>bh s.
                      if bh = None then Ok (dir, None) s
                      else bindK (iterK (entry_scan E dir name len entries) (0, bh, 0) s) (\<lambda>r s. Ok (dir, r) s))))"

definition put_name :: "u32 \<Rightarrow> nat \<Rightarrow> nat \<Rightarrow> 'z sched_st_scheme \<Rightarrow> block \<Rightarrow> block" where
  "put_name name len off s d =
     (\<lambda>j. if off + 2 \<le> j \<and> j < off + 2 + NAME_LEN
          then if j - (off + 2) < len then get_fs_byte (name + word_of_nat (j - (off + 2))) s else 0
          else d j)"

text \<open>\<^verbatim>\<open>add_entry\<close>; the offset \<open>de\<close> and the possible \<^verbatim>\<open>NULL\<close> buffer are as in \<open>entry_scan\<close>.\<close>

definition add_scan ::
    "('z fs_st_scheme) ctx \<Rightarrow> nat \<Rightarrow> u32 \<Rightarrow> nat \<Rightarrow> nat \<times> nat option \<times> nat \<Rightarrow> 'z fs_st_scheme
       \<Rightarrow> ((nat \<times> nat option \<times> nat) + (nat \<times> nat) option, 'z fs_st_scheme) outcome" where
  "add_scan E dir name namelen = (\<lambda>(i, bh, de) s.
     bindK (
       if de \<ge> 1024 \<or> bh = None
       then bindK (brelse E bh s) (\<lambda>_ s.
            bindK (create_block E dir (int (i div 64)) s) (\<lambda>block s.
            if block = 0 then Ok (Inr ()) s
            else bindK (bread E (i_dev (inode s dir)) (ucast block) s) (\<lambda>bh s. Ok (Inl (bh, 0)) s)))
       else Ok (Inl (bh, de)) s) (\<lambda>r s.
     case r of
       Inr _ \<Rightarrow> Ok (Inr None) s
     | Inl (None, _) \<Rightarrow> Ok (Inl (i + 64, None, 1024)) s
     | Inl (Some b, de) \<Rightarrow>
         let s = (if word_of_nat (i * 16) \<ge> i_size (inode s dir)
                  then upd_inode dir (\<lambda>n. n\<lparr>i_size := word_of_nat ((i + 1) * 16), i_dirt := True, i_ctime := now s\<rparr>)
                         (upd_buf b (\<lambda>x. x\<lparr>b_data := put16 0 de (b_data x)\<rparr>) s)
                  else s)
         in if get16 (b_data (buf s b)) de = 0
            then let s = upd_inode dir (i_mtime_update (\<lambda>_. now s)) s
                 in Ok (Inr (Some (b, de))) (upd_buf b (\<lambda>x. x\<lparr>b_data := put_name name namelen de s (b_data x), b_dirt := True\<rparr>) s)
            else Ok (Inl (i + 1, Some b, de + 16)) s))"

definition add_entry ::
    "('z fs_st_scheme) ctx \<Rightarrow> nat \<Rightarrow> u32 \<Rightarrow> nat \<Rightarrow> 'z fs_st_scheme \<Rightarrow> ((nat \<times> nat) option, 'z fs_st_scheme) outcome" where
  "add_entry E dir name len s =
     (let len = min len NAME_LEN; block = i_zone (inode s dir) 0
      in if len = 0 \<or> block = 0 then Ok None s
         else bindK (bread E (i_dev (inode s dir)) (ucast block) s) (\<lambda>bh s.
           if bh = None then Ok None s else iterK (add_scan E dir name len) (0, bh, 0) s))"

definition set_entry :: "nat \<Rightarrow> nat \<Rightarrow> u16 \<Rightarrow> 'z fs_st_scheme \<Rightarrow> 'z fs_st_scheme" where
  "set_entry b de nr s = upd_buf b (\<lambda>x. x\<lparr>b_data := put16 nr de (b_data x), b_dirt := True\<rparr>) s"

subsection \<open>From path names to inodes\<close>

text \<open>The length of the name at \<open>p\<close> up to a byte that satisfies \<open>stop\<close>, and that byte.\<close>

definition name_length :: "(u8 \<Rightarrow> bool) \<Rightarrow> u32 \<Rightarrow> 'z fs_st_scheme \<Rightarrow> (nat \<times> u8, 'z fs_st_scheme) outcome" where
  "name_length stop p s = iterK (\<lambda>n s.
     let c = get_fs_byte (p + word_of_nat n) s in if stop c then Ok (Inr (n, c)) s else Ok (Inl (n + 1)) s) 0 s"

definition get_dir :: "('z fs_st_scheme) ctx \<Rightarrow> u32 \<Rightarrow> 'z fs_st_scheme \<Rightarrow> (nat option, 'z fs_st_scheme) outcome" where
  "get_dir E pathname s =
     (case (t_root (cur s), t_pwd (cur s)) of
        (None, _) \<Rightarrow> Panic ''No root inode''
      | (Some rt, pwd) \<Rightarrow>
          if i_count (inode s rt) = 0 then Panic ''No root inode''
          else (case pwd of
            None \<Rightarrow> Panic ''No cwd inode''
          | Some pw \<Rightarrow>
              if i_count (inode s pw) = 0 then Panic ''No cwd inode''
              else let c = get_fs_byte pathname s
                   in if c = 0 then Ok None s
                      else let (i, p) = (if c = 0x2f then (rt, pathname + 1) else (pw, pathname))
                           in iterK (\<lambda>(i, p) s.
                                if \<not> S_ISDIR (i_mode (inode s i)) \<or> \<not> permission i MAY_EXEC s
                                then bindK (iput E (Some i) s) (\<lambda>_ s. Ok (Inr None) s)
                                else bindK (name_length (\<lambda>c. c = 0 \<or> c = 0x2f) p s) (\<lambda>(len, c) s.
                                  if c = 0 then Ok (Inr (Some i)) s
                                  else bindK (find_entry E i p len s) (\<lambda>(i, r) s.
                                    case r of
                                      None \<Rightarrow> bindK (iput E (Some i) s) (\<lambda>_ s. Ok (Inr None) s)
                                    | Some (b, de) \<Rightarrow>
                                        let inr = get16 (b_data (buf s b)) de; idev = i_dev (inode s i)
                                        in bindK (leave E [RBuf b, RInode i] () s) (\<lambda>_ s.
                                           bindK (iget E idev inr s) (\<lambda>i s. Ok (Inl (i, p + word_of_nat (len + 1))) s)))))
                                (i, p) (upd_inode i (i_count_update (\<lambda>c. c + 1)) s)))"

text \<open>\<^verbatim>\<open>dir_namei\<close> answers the directory and the last name of the path: its length and its address.\<close>

definition dir_namei :: "('z fs_st_scheme) ctx \<Rightarrow> u32 \<Rightarrow> 'z fs_st_scheme \<Rightarrow> ((nat \<times> nat \<times> u32) option, 'z fs_st_scheme) outcome" where
  "dir_namei E pathname s =
     bindK (get_dir E pathname s) (\<lambda>dir s.
     case dir of
       None \<Rightarrow> Ok None s
     | Some dir \<Rightarrow>
         iterK (\<lambda>base s.
           bindK (name_length (\<lambda>c. c = 0 \<or> c = 0x2f) base s) (\<lambda>(len, c) s.
           if c = 0 then Ok (Inr (Some (dir, len, base))) s else Ok (Inl (base + word_of_nat (len + 1))) s)) pathname s)"

definition namei :: "('z fs_st_scheme) ctx \<Rightarrow> u32 \<Rightarrow> 'z fs_st_scheme \<Rightarrow> (nat option, 'z fs_st_scheme) outcome" where
  "namei E pathname s =
     bindK (dir_namei E pathname s) (\<lambda>r s.
     case r of
       None \<Rightarrow> Ok None s
     | Some (dir, len, base) \<Rightarrow>
         if len = 0 then Ok (Some dir) s
         else bindK (find_entry E dir base len s) (\<lambda>(dir, r) s.
           case r of
             None \<Rightarrow> bindK (iput E (Some dir) s) (\<lambda>_ s. Ok None s)
           | Some (b, de) \<Rightarrow>
               let inr = get16 (b_data (buf s b)) de; dev = i_dev (inode s dir)
               in bindK (leave E [RBuf b, RInode dir] () s) (\<lambda>_ s.
                  bindK (iget E dev inr s) (\<lambda>i s. Ok (Some i) (upd_inode i (\<lambda>n. n\<lparr>i_atime := now s, i_dirt := True\<rparr>) s)))))"

text \<open>\<^verbatim>\<open>open_namei\<close> answers a negative error number or the inode (\<^verbatim>\<open>*res_inode\<close> and the result 0).\<close>

definition open_create ::
    "('z fs_st_scheme) ctx \<Rightarrow> nat \<Rightarrow> u32 \<Rightarrow> nat \<Rightarrow> u32 \<Rightarrow> 'z fs_st_scheme \<Rightarrow> (int + nat, 'z fs_st_scheme) outcome" where
  "open_create E dir base len mode s =
     (if \<not> permission dir MAY_WRITE s then leave E [RInode dir] (Inl (- EACCES)) s
      else bindK (new_inode E (i_dev (inode s dir)) s) (\<lambda>r s.
        case r of
          None \<Rightarrow> leave E [RInode dir] (Inl (- ENOSPC)) s
        | Some i \<Rightarrow>
            bindK (add_entry E dir base len (upd_inode i (\<lambda>n. n\<lparr>i_uid := t_euid (cur s), i_mode := ucast mode, i_dirt := True\<rparr>) s)) (\<lambda>r s.
            case r of
              None \<Rightarrow> leave E [RInode i, RInode dir] (Inl (- ENOSPC)) (upd_inode i (i_nlinks_update (\<lambda>c. c - 1)) s)
            | Some (b, de) \<Rightarrow> leave E [RBuf b, RInode dir] (Inr i) (set_entry b de (i_num (inode s i)) s))))"

definition open_namei :: "('z fs_st_scheme) ctx \<Rightarrow> u32 \<Rightarrow> u32 \<Rightarrow> u32 \<Rightarrow> 'z fs_st_scheme \<Rightarrow> (int + nat, 'z fs_st_scheme) outcome" where
  "open_namei E pathname flag mode s =
     (let flag = (if flag AND O_TRUNC \<noteq> 0 \<and> flag AND O_ACCMODE = 0 then flag OR O_WRONLY else flag);
          mode = (mode AND 0x1ff AND NOT (ucast (t_umask (cur s)))) OR I_REGULAR
      in bindK (dir_namei E pathname s) (\<lambda>r s.
         case r of
           None \<Rightarrow> Ok (Inl (- ENOENT)) s
         | Some (dir, len, base) \<Rightarrow>
             if len = 0
             then if flag AND (O_ACCMODE OR O_CREAT OR O_TRUNC) = 0 then Ok (Inr dir) s else leave E [RInode dir] (Inl (- EISDIR)) s
             else bindK (find_entry E dir base len s) (\<lambda>(dir, r) s.
               case r of
                 None \<Rightarrow> if flag AND O_CREAT = 0 then leave E [RInode dir] (Inl (- ENOENT)) s else open_create E dir base len mode s
               | Some (b, de) \<Rightarrow>
                   let inr = get16 (b_data (buf s b)) de; dev = i_dev (inode s dir)
                   in bindK (leave E [RBuf b, RInode dir] () s) (\<lambda>_ s.
                      if flag AND O_EXCL \<noteq> 0 then Ok (Inl (- EEXIST)) s
                      else bindK (iget E dev inr s) (\<lambda>i s.
                        if S_ISDIR (i_mode (inode s i)) \<and> flag AND O_ACCMODE \<noteq> 0 \<or> \<not> permission i (ACC_MODE flag) s
                        then leave E [RInode i] (Inl (- EPERM)) s
                        else let s = upd_inode i (i_atime_update (\<lambda>_. now s)) s
                             in bindK (if flag AND O_TRUNC \<noteq> 0 then truncate_inode E i s else Ok () s) (\<lambda>_ s. Ok (Inr i) s))))))"

subsection \<open>Making and removing entries\<close>

text \<open>
  The common start of \<^verbatim>\<open>mknod\<close>, \<^verbatim>\<open>mkdir\<close>, \<^verbatim>\<open>rmdir\<close> and \<^verbatim>\<open>unlink\<close>: the directory of the name, which must be writable, and the
  entry if there is one; \<open>Inl\<close> is an early return.
\<close>

definition lookup_parent ::
    "('z fs_st_scheme) ctx \<Rightarrow> u32 \<Rightarrow> 'z fs_st_scheme \<Rightarrow> (int + nat \<times> u32 \<times> nat \<times> (nat \<times> nat) option, 'z fs_st_scheme) outcome" where
  "lookup_parent E name s =
     bindK (dir_namei E name s) (\<lambda>r s.
     case r of
       None \<Rightarrow> Ok (Inl (- ENOENT)) s
     | Some (dir, len, base) \<Rightarrow>
         if len = 0 then leave E [RInode dir] (Inl (- ENOENT)) s
         else if \<not> permission dir MAY_WRITE s then leave E [RInode dir] (Inl (- EPERM)) s
         else bindK (find_entry E dir base len s) (\<lambda>(dir, r) s. Ok (Inr (dir, base, len, r)) s))"

definition sys_mknod :: "('z fs_st_scheme) ctx \<Rightarrow> u32 \<Rightarrow> u32 \<Rightarrow> u32 \<Rightarrow> 'z fs_st_scheme \<Rightarrow> (int, 'z fs_st_scheme) outcome" where
  "sys_mknod E filename mode dev s =
     (if \<not> suser s then Ok (- EPERM) s
      else bindK (lookup_parent E filename s) (\<lambda>r s.
        case r of
          Inl e \<Rightarrow> Ok e s
        | Inr (dir, base, len, Some (b, de)) \<Rightarrow> leave E [RBuf b, RInode dir] (- EEXIST) s
        | Inr (dir, base, len, None) \<Rightarrow>
            bindK (new_inode E (i_dev (inode s dir)) s) (\<lambda>r s.
            case r of
              None \<Rightarrow> leave E [RInode dir] (- ENOSPC) s
            | Some i \<Rightarrow>
                let s = upd_inode i (i_mode_update (\<lambda>_. ucast mode)) s;
                    s = (if S_ISBLK (ucast mode) \<or> S_ISCHR (ucast mode) then upd_inode i (set_zone 0 (ucast dev)) s else s);
                    s = upd_inode i (\<lambda>n. n\<lparr>i_mtime := now s, i_atime := now s, i_dirt := True\<rparr>) s
                in bindK (add_entry E dir base len s) (\<lambda>r s.
                   case r of
                     None \<Rightarrow> bindK (iput E (Some dir) s) (\<lambda>_ s. leave E [RInode i] (- ENOSPC) (upd_inode i (i_nlinks_update (\<lambda>_. 0)) s))
                   | Some (b, de) \<Rightarrow> leave E [RInode dir, RInode i, RBuf b] 0 (set_entry b de (i_num (inode s i)) s)))))"

text \<open>The two entries of a new directory, \<^verbatim>\<open>.\<close> and \<^verbatim>\<open>..\<close>; \<^verbatim>\<open>strcpy\<close> writes the zero byte at the end, too.\<close>

definition dot_entries :: "u16 \<Rightarrow> u16 \<Rightarrow> block \<Rightarrow> block" where
  "dot_entries self parent d =
     (let d = (put16 self 0 d)(2 := 0x2e, 3 := 0)
      in (put16 parent 16 d)(18 := 0x2e, 19 := 0x2e, 20 := 0))"

definition make_dir ::
    "('z fs_st_scheme) ctx \<Rightarrow> nat \<Rightarrow> u32 \<Rightarrow> nat \<Rightarrow> nat \<Rightarrow> u32 \<Rightarrow> 'z fs_st_scheme \<Rightarrow> (int, 'z fs_st_scheme) outcome" where
  "make_dir E dir base len i mode s =
     bindK (new_block E (i_dev (inode s i)) (upd_inode i (\<lambda>n. n\<lparr>i_size := 32, i_dirt := True, i_mtime := now s, i_atime := now s\<rparr>) s)) (\<lambda>z s.
     let s = upd_inode i (set_zone 0 z) s
     in if z = 0 then bindK (iput E (Some dir) s) (\<lambda>_ s. leave E [RInode i] (- ENOSPC) (upd_inode i (i_nlinks_update (\<lambda>c. c - 1)) s))
        else let s = upd_inode i (i_dirt_update (\<lambda>_. True)) s
             in bindK (bread E (i_dev (inode s i)) (ucast (i_zone (inode s i) 0)) s) (\<lambda>r s.
                case r of
                  None \<Rightarrow>
                    bindK (iput E (Some dir) s) (\<lambda>_ s.
                    bindK (free_block E (i_dev (inode s i)) (i_zone (inode s i) 0) s) (\<lambda>_ s.
                    leave E [RInode i] (- ERROR) (upd_inode i (i_nlinks_update (\<lambda>c. c - 1)) s)))
                | Some db \<Rightarrow>
                    let s = upd_buf db (\<lambda>x. x\<lparr>b_data := dot_entries (i_num (inode s i)) (i_num (inode s dir)) (b_data x), b_dirt := True\<rparr>) s;
                        s = upd_inode i (i_nlinks_update (\<lambda>_. 2)) s
                    in bindK (brelse E (Some db) s) (\<lambda>_ s.
                       let s = upd_inode i (\<lambda>n. n\<lparr>i_mode := I_DIRECTORY OR (ucast mode AND 0x1ff AND NOT (t_umask (cur s))), i_dirt := True\<rparr>) s
                       in bindK (add_entry E dir base len s) (\<lambda>r s.
                          case r of
                            None \<Rightarrow>
                              bindK (iput E (Some dir) s) (\<lambda>_ s.
                              bindK (free_block E (i_dev (inode s i)) (i_zone (inode s i) 0) s) (\<lambda>_ s.
                              leave E [RInode i] (- ENOSPC) (upd_inode i (i_nlinks_update (\<lambda>_. 0)) s)))
                          | Some (b, de) \<Rightarrow>
                              let s = set_entry b de (i_num (inode s i)) s;
                                  s = upd_inode dir (\<lambda>n. n\<lparr>i_nlinks := i_nlinks n + 1, i_dirt := True\<rparr>) s
                              in leave E [RInode dir, RInode i, RBuf b] 0 s))))"

definition sys_mkdir :: "('z fs_st_scheme) ctx \<Rightarrow> u32 \<Rightarrow> u32 \<Rightarrow> 'z fs_st_scheme \<Rightarrow> (int, 'z fs_st_scheme) outcome" where
  "sys_mkdir E pathname mode s =
     (if \<not> suser s then Ok (- EPERM) s
      else bindK (lookup_parent E pathname s) (\<lambda>r s.
        case r of
          Inl e \<Rightarrow> Ok e s
        | Inr (dir, base, len, Some (b, de)) \<Rightarrow> leave E [RBuf b, RInode dir] (- EEXIST) s
        | Inr (dir, base, len, None) \<Rightarrow>
            bindK (new_inode E (i_dev (inode s dir)) s) (\<lambda>r s.
            case r of
              None \<Rightarrow> leave E [RInode dir] (- ENOSPC) s
            | Some i \<Rightarrow> make_dir E dir base len i mode s)))"

text \<open>
  The scan of \<^verbatim>\<open>empty_dir\<close> after the first two entries. When a block of the directory is a hole, \<^verbatim>\<open>bh\<close> still is the buffer that has
  just been released, and \<^verbatim>\<open>de\<close> still is past its end, so the next round releases it once more.
\<close>

definition empty_scan ::
    "('z fs_st_scheme) ctx \<Rightarrow> nat \<Rightarrow> nat \<Rightarrow> nat \<times> nat \<times> nat \<Rightarrow> 'z fs_st_scheme \<Rightarrow> ((nat \<times> nat \<times> nat) + bool, 'z fs_st_scheme) outcome" where
  "empty_scan E i len = (\<lambda>(nr, b, de) s.
     if nr \<ge> len then bindK (brelse E (Some b) s) (\<lambda>_ s. Ok (Inr True) s)
     else if de \<ge> 1024
     then bindK (brelse E (Some b) s) (\<lambda>_ s.
          bindK (bmap E i (int (nr div 64)) s) (\<lambda>block s.
          if block = 0 then Ok (Inl (nr + 64, b, de)) s
          else bindK (bread E (i_dev (inode s i)) (ucast block) s) (\<lambda>r s.
            case r of
              None \<Rightarrow> Ok (Inr False) s
            | Some b \<Rightarrow>
                if get16 (b_data (buf s b)) 0 \<noteq> 0 then bindK (brelse E (Some b) s) (\<lambda>_ s. Ok (Inr False) s)
                else Ok (Inl (nr + 1, b, 16)) s)))
     else if get16 (b_data (buf s b)) de \<noteq> 0 then bindK (brelse E (Some b) s) (\<lambda>_ s. Ok (Inr False) s)
     else Ok (Inl (nr + 1, b, de + 16)) s)"

definition empty_dir :: "('z fs_st_scheme) ctx \<Rightarrow> nat \<Rightarrow> 'z fs_st_scheme \<Rightarrow> (bool, 'z fs_st_scheme) outcome" where
  "empty_dir E i s =
     (let len = unat (i_size (inode s i)) div 16; z = i_zone (inode s i) 0
      in if len < 2 \<or> z = 0 then Ok False s
         else bindK (bread E (i_dev (inode s i)) (ucast z) s) (\<lambda>r s.
           case r of
             None \<Rightarrow> Ok False s
           | Some b \<Rightarrow>
               let d = b_data (buf s b)
               in if get16 d 0 \<noteq> i_num (inode s i) \<or> get16 d 16 = 0 \<or> \<not> (d 2 = 0x2e \<and> d 3 = 0) \<or> \<not> (d 18 = 0x2e \<and> d 19 = 0x2e \<and> d 20 = 0)
                  then Ok False s
                  else iterK (empty_scan E i len) (2, b, 32) s))"

definition sys_rmdir :: "('z fs_st_scheme) ctx \<Rightarrow> u32 \<Rightarrow> 'z fs_st_scheme \<Rightarrow> (int, 'z fs_st_scheme) outcome" where
  "sys_rmdir E name s =
     (if \<not> suser s then Ok (- EPERM) s
      else bindK (lookup_parent E name s) (\<lambda>r s.
        case r of
          Inl e \<Rightarrow> Ok e s
        | Inr (dir, _, _, None) \<Rightarrow> leave E [RInode dir] (- ENOENT) s
        | Inr (dir, _, _, Some (b, de)) \<Rightarrow>
            bindK (iget E (i_dev (inode s dir)) (get16 (b_data (buf s b)) de) s) (\<lambda>i s.
            if i_mode (inode s dir) AND S_ISVTX \<noteq> 0 \<and> t_euid (cur s) \<noteq> 0 \<and> i_uid (inode s i) \<noteq> t_euid (cur s)
            then leave E [RInode dir, RInode i, RBuf b] (- EPERM) s
            else if i_dev (inode s i) \<noteq> i_dev (inode s dir) \<or> i_count (inode s i) > 1 then leave E [RInode dir, RInode i, RBuf b] (- EPERM) s
            else if i = dir then leave E [RInode i, RInode dir, RBuf b] (- EPERM) s
            else if \<not> S_ISDIR (i_mode (inode s i)) then leave E [RInode i, RInode dir, RBuf b] (- ENOTDIR) s
            else bindK (empty_dir E i s) (\<lambda>empty s.
              if \<not> empty then leave E [RInode i, RInode dir, RBuf b] (- ENOTEMPTY) s
              else bindK (brelse E (Some b) (set_entry b de 0 s)) (\<lambda>_ s.
                let s = upd_inode i (\<lambda>n. n\<lparr>i_nlinks := 0, i_dirt := True\<rparr>) s;
                    s = upd_inode dir (\<lambda>n. n\<lparr>i_nlinks := i_nlinks n - 1, i_ctime := now s, i_mtime := now s, i_dirt := True\<rparr>) s
                in leave E [RInode dir, RInode i] 0 s)))))"

definition sys_unlink :: "('z fs_st_scheme) ctx \<Rightarrow> u32 \<Rightarrow> 'z fs_st_scheme \<Rightarrow> (int, 'z fs_st_scheme) outcome" where
  "sys_unlink E name s =
     bindK (lookup_parent E name s) (\<lambda>r s.
     case r of
       Inl e \<Rightarrow> Ok e s
     | Inr (dir, _, _, None) \<Rightarrow> leave E [RInode dir] (- ENOENT) s
     | Inr (dir, _, _, Some (b, de)) \<Rightarrow>
         bindK (iget E (i_dev (inode s dir)) (get16 (b_data (buf s b)) de) s) (\<lambda>i s.
         if i_mode (inode s dir) AND S_ISVTX \<noteq> 0 \<and> \<not> suser s \<and> t_euid (cur s) \<noteq> i_uid (inode s i) \<and> t_euid (cur s) \<noteq> i_uid (inode s dir)
         then leave E [RInode dir, RInode i, RBuf b] (- EPERM) s
         else if S_ISDIR (i_mode (inode s i)) then leave E [RInode i, RInode dir, RBuf b] (- EPERM) s
         else let s = (if i_nlinks (inode s i) = 0 then upd_inode i (i_nlinks_update (\<lambda>_. 1)) s else s)
              in bindK (brelse E (Some b) (set_entry b de 0 s)) (\<lambda>_ s.
                 leave E [RInode i, RInode dir] 0
                   (upd_inode i (\<lambda>n. n\<lparr>i_nlinks := i_nlinks n - 1, i_dirt := True, i_ctime := now s\<rparr>) s))))"

definition sys_link :: "('z fs_st_scheme) ctx \<Rightarrow> u32 \<Rightarrow> u32 \<Rightarrow> 'z fs_st_scheme \<Rightarrow> (int, 'z fs_st_scheme) outcome" where
  "sys_link E oldname newname s =
     bindK (namei E oldname s) (\<lambda>old s.
     case old of
       None \<Rightarrow> Ok (- ENOENT) s
     | Some i \<Rightarrow>
         if S_ISDIR (i_mode (inode s i)) then leave E [RInode i] (- EPERM) s
         else bindK (dir_namei E newname s) (\<lambda>r s.
           case r of
             None \<Rightarrow> leave E [RInode i] (- EACCES) s
           | Some (dir, len, base) \<Rightarrow>
               if len = 0 then leave E [RInode i, RInode dir] (- EPERM) s
               else if i_dev (inode s dir) \<noteq> i_dev (inode s i) then leave E [RInode dir, RInode i] (- EXDEV) s
               else if \<not> permission dir MAY_WRITE s then leave E [RInode dir, RInode i] (- EACCES) s
               else bindK (find_entry E dir base len s) (\<lambda>(dir, r) s.
                 case r of
                   Some (b, de) \<Rightarrow> leave E [RBuf b, RInode dir, RInode i] (- EEXIST) s
                 | None \<Rightarrow>
                     bindK (add_entry E dir base len s) (\<lambda>r s.
                     case r of
                       None \<Rightarrow> leave E [RInode dir, RInode i] (- ENOSPC) s
                     | Some (b, de) \<Rightarrow>
                         bindK (leave E [RBuf b, RInode dir] () (set_entry b de (i_num (inode s i)) s)) (\<lambda>_ s.
                         leave E [RInode i] 0 (upd_inode i (\<lambda>n. n\<lparr>i_nlinks := i_nlinks n + 1, i_ctime := now s, i_dirt := True\<rparr>) s))))))"

end
