(* ===== verification/Open_Files.thy ===== *)
theory Open_Files
  imports Namei
begin

unbundle bit_operations_syntax

section \<open>System calls on path names\<close>

text \<open>
  The system calls of \<^verbatim>\<open>fs/open.c\<close>, \<^verbatim>\<open>fs/stat.c\<close> and \<^verbatim>\<open>fs/super.c\<close> that start from a path name.
\<close>

abbreviation (input) ENOTBLK :: int where "ENOTBLK \<equiv> 15"
abbreviation (input) EBUSY :: int where "EBUSY \<equiv> 16"

definition sys_ustat :: "'z fs_st_scheme \<Rightarrow> (int, 'z fs_st_scheme) outcome" where
  "sys_ustat s = Ok (- ENOSYS) s"

definition sys_utime :: "('z fs_st_scheme) ctx \<Rightarrow> u32 \<Rightarrow> u32 \<Rightarrow> 'z fs_st_scheme \<Rightarrow> (int, 'z fs_st_scheme) outcome" where
  "sys_utime E filename tbuf s =
     bindK (namei E filename s) (\<lambda>r s.
     case r of
       None \<Rightarrow> Ok (- ENOENT) s
     | Some i \<Rightarrow>
         let (actime, modtime) = (if tbuf \<noteq> 0 then (get_fs_long tbuf s, get_fs_long (tbuf + 4) s) else (now s, now s))
         in leave E [RInode i] 0 (upd_inode i (\<lambda>n. n\<lparr>i_atime := actime, i_mtime := modtime, i_dirt := True\<rparr>) s))"

text \<open>\<^verbatim>\<open>sys_access\<close> decides by the real ids. It reads the owner of the inode after it has released it.\<close>

definition access_bits :: "u16 \<Rightarrow> m_inode \<Rightarrow> task_struct \<Rightarrow> u16" where
  "access_bits res n t =
     (if t_uid t = i_uid n then drop_bit 6 res else if t_gid t = ucast (i_gid n) then drop_bit 6 res else res)"

definition access_ok :: "u16 \<Rightarrow> u16 \<Rightarrow> m_inode \<Rightarrow> task_struct \<Rightarrow> bool" where
  "access_ok mode imode n t \<longleftrightarrow>
     access_bits imode n t AND 7 AND mode = mode \<or> t_uid t = 0 \<and> (mode AND 1 = 0 \<or> imode AND 0x49 \<noteq> 0)"

definition sys_access :: "('z fs_st_scheme) ctx \<Rightarrow> u32 \<Rightarrow> u32 \<Rightarrow> 'z fs_st_scheme \<Rightarrow> (int, 'z fs_st_scheme) outcome" where
  "sys_access E filename mode s =
     bindK (namei E filename s) (\<lambda>r s.
     case r of
       None \<Rightarrow> Ok (- EACCES) s
     | Some i \<Rightarrow>
         let imode = i_mode (inode s i) AND 0x1ff
         in bindK (iput E (Some i) s) (\<lambda>_ s.
            Ok (if access_ok (ucast mode AND 7) imode (inode s i) (cur s) then 0 else - EACCES) s))"

definition sys_chdir :: "('z fs_st_scheme) ctx \<Rightarrow> u32 \<Rightarrow> 'z fs_st_scheme \<Rightarrow> (int, 'z fs_st_scheme) outcome" where
  "sys_chdir E filename s =
     bindK (namei E filename s) (\<lambda>r s.
     case r of
       None \<Rightarrow> Ok (- ENOENT) s
     | Some i \<Rightarrow>
         if \<not> S_ISDIR (i_mode (inode s i)) then leave E [RInode i] (- ENOTDIR) s
         else bindK (iput E (t_pwd (cur s)) s) (\<lambda>_ s. Ok 0 (upd_cur (t_pwd_update (\<lambda>_. Some i)) s)))"

definition sys_chroot :: "('z fs_st_scheme) ctx \<Rightarrow> u32 \<Rightarrow> 'z fs_st_scheme \<Rightarrow> (int, 'z fs_st_scheme) outcome" where
  "sys_chroot E filename s =
     bindK (namei E filename s) (\<lambda>r s.
     case r of
       None \<Rightarrow> Ok (- ENOENT) s
     | Some i \<Rightarrow>
         if \<not> S_ISDIR (i_mode (inode s i)) then leave E [RInode i] (- ENOTDIR) s
         else bindK (iput E (t_root (cur s)) s) (\<lambda>_ s. Ok 0 (upd_cur (t_root_update (\<lambda>_. Some i)) s)))"

definition sys_chmod :: "('z fs_st_scheme) ctx \<Rightarrow> u32 \<Rightarrow> u32 \<Rightarrow> 'z fs_st_scheme \<Rightarrow> (int, 'z fs_st_scheme) outcome" where
  "sys_chmod E filename mode s =
     bindK (namei E filename s) (\<lambda>r s.
     case r of
       None \<Rightarrow> Ok (- ENOENT) s
     | Some i \<Rightarrow>
         if t_euid (cur s) \<noteq> i_uid (inode s i) \<and> \<not> suser s then leave E [RInode i] (- EACCES) s
         else leave E [RInode i] 0
                (upd_inode i (\<lambda>n. n\<lparr>i_mode := (ucast mode AND 0xfff) OR (i_mode n AND NOT 0xfff), i_dirt := True\<rparr>) s))"

definition sys_chown :: "('z fs_st_scheme) ctx \<Rightarrow> u32 \<Rightarrow> u32 \<Rightarrow> u32 \<Rightarrow> 'z fs_st_scheme \<Rightarrow> (int, 'z fs_st_scheme) outcome" where
  "sys_chown E filename uid gid s =
     bindK (namei E filename s) (\<lambda>r s.
     case r of
       None \<Rightarrow> Ok (- ENOENT) s
     | Some i \<Rightarrow>
         if \<not> suser s then leave E [RInode i] (- EACCES) s
         else leave E [RInode i] 0 (upd_inode i (\<lambda>n. n\<lparr>i_uid := ucast uid, i_gid := ucast gid, i_dirt := True\<rparr>) s))"

text \<open>\<^verbatim>\<open>sys_open\<close>: the part after the inode has been found (lines 162 to 184), with file \<open>f\<close> and descriptor \<open>fd\<close>.\<close>

definition open_finish :: "('z fs_st_scheme) ctx \<Rightarrow> nat \<Rightarrow> nat \<Rightarrow> nat \<Rightarrow> u32 \<Rightarrow> 'z fs_st_scheme \<Rightarrow> (int, 'z fs_st_scheme) outcome" where
  "open_finish E fd f i flag s =
     (let mode = i_mode (inode s i); dev = i_zone (inode s i) 0
      in if S_ISCHR mode \<and> MAJOR dev = 5 \<and> t_tty (cur s) < 0
         then bindK (iput E (Some i) s) (\<lambda>_ s. Ok (- EPERM) (upd_file f (f_count_update (\<lambda>_. 0)) (set_filp fd None s)))
         else let s = (if S_ISCHR mode \<and> MAJOR dev = 4 \<and> t_leader (cur s) \<noteq> 0 \<and> t_tty (cur s) < 0
                       then (upd_cur (t_tty_update (\<lambda>_. int (MINOR dev))) s)\<lparr>tty_pgrp := (tty_pgrp s)(MINOR dev := t_pgrp (cur s))\<rparr>
                       else s)
              in bindK (if S_ISBLK (i_mode (inode s i)) then check_disk_change E (i_zone (inode s i) 0) s else Ok () s) (\<lambda>_ s.
                 Ok (int fd) (upd_file f (\<lambda>x. x\<lparr>f_mode := i_mode (inode s i), f_flags := ucast flag, f_count := 1, f_inode := Some i, f_pos := 0\<rparr>) s)))"

definition sys_open :: "('z fs_st_scheme) ctx \<Rightarrow> u32 \<Rightarrow> u32 \<Rightarrow> u32 \<Rightarrow> 'z fs_st_scheme \<Rightarrow> (int, 'z fs_st_scheme) outcome" where
  "sys_open E filename flag mode s =
     (let mode = mode AND 0x1ff AND NOT (ucast (t_umask (cur s)))
      in case free_fds s of
           [] \<Rightarrow> Ok (- EINVAL) s
         | fd # _ \<Rightarrow>
             let s = clear_cloexec fd s
             in case free_files s of
                  [] \<Rightarrow> Ok (- EINVAL) s
                | f # _ \<Rightarrow>
                    bindK (open_namei E filename flag mode (upd_file f (f_count_update (\<lambda>c. c + 1)) (set_filp fd (Some f) s))) (\<lambda>r s.
                    case r of
                      Inl e \<Rightarrow> Ok e (upd_file f (f_count_update (\<lambda>_. 0)) (set_filp fd None s))
                    | Inr i \<Rightarrow> open_finish E fd f i flag s))"

definition sys_creat :: "('z fs_st_scheme) ctx \<Rightarrow> u32 \<Rightarrow> u32 \<Rightarrow> 'z fs_st_scheme \<Rightarrow> (int, 'z fs_st_scheme) outcome" where
  "sys_creat E pathname mode s = sys_open E pathname (O_CREAT OR O_TRUNC) mode s"

definition sys_stat :: "('z fs_st_scheme) ctx \<Rightarrow> (nat \<Rightarrow> u8) \<Rightarrow> u32 \<Rightarrow> u32 \<Rightarrow> 'z fs_st_scheme \<Rightarrow> (int, 'z fs_st_scheme) outcome" where
  "sys_stat E pad filename statbuf s =
     bindK (namei E filename s) (\<lambda>r s.
     case r of
       None \<Rightarrow> Ok (- ENOENT) s
     | Some i \<Rightarrow> bindK (cp_stat pad i statbuf s) (\<lambda>_ s. leave E [RInode i] 0 s))"

definition sys_umount :: "('z fs_st_scheme) ctx \<Rightarrow> u32 \<Rightarrow> 'z fs_st_scheme \<Rightarrow> (int, 'z fs_st_scheme) outcome" where
  "sys_umount E dev_name s =
     bindK (namei E dev_name s) (\<lambda>r s.
     case r of
       None \<Rightarrow> Ok (- ENOENT) s
     | Some i \<Rightarrow>
         let dev = i_zone (inode s i) 0
         in if \<not> S_ISBLK (i_mode (inode s i)) then leave E [RInode i] (- ENOTBLK) s
            else bindK (iput E (Some i) s) (\<lambda>_ s.
              if dev = ROOT_DEV s then Ok (- EBUSY) s
              else bindK (get_super E dev s) (\<lambda>sb s.
                case sb of
                  None \<Rightarrow> Ok (- ENOENT) s
                | Some sb \<Rightarrow>
                    (case s_imount (sblock s sb) of
                       None \<Rightarrow> Ok (- ENOENT) s
                     | Some m \<Rightarrow>
                         if \<exists>k \<in> set [0..<NR_INODE]. i_dev (inode s k) = dev \<and> i_count (inode s k) \<noteq> 0 then Ok (- EBUSY) s
                         else bindK (iput E (Some m) (upd_inode m (i_mount_update (\<lambda>_. False)) s)) (\<lambda>_ s.
                              bindK (iput E (s_isup (sblock s sb)) (upd_super sb (s_imount_update (\<lambda>_. None)) s)) (\<lambda>_ s.
                              bindK (put_super E dev (upd_super sb (s_isup_update (\<lambda>_. None)) s)) (\<lambda>_ s.
                              bindK (sync_dev E dev s) (\<lambda>_ s. Ok 0 s))))))))"

definition sys_mount :: "('z fs_st_scheme) ctx \<Rightarrow> u32 \<Rightarrow> u32 \<Rightarrow> 'z fs_st_scheme \<Rightarrow> (int, 'z fs_st_scheme) outcome" where
  "sys_mount E dev_name dir_name s =
     bindK (namei E dev_name s) (\<lambda>r s.
     case r of
       None \<Rightarrow> Ok (- ENOENT) s
     | Some i \<Rightarrow>
         let dev = i_zone (inode s i) 0
         in if \<not> S_ISBLK (i_mode (inode s i)) then leave E [RInode i] (- EPERM) s
            else bindK (iput E (Some i) s) (\<lambda>_ s.
              bindK (namei E dir_name s) (\<lambda>r s.
              case r of
                None \<Rightarrow> Ok (- ENOENT) s
              | Some d \<Rightarrow>
                  if i_count (inode s d) \<noteq> 1 \<or> i_num (inode s d) = ROOT_INO then leave E [RInode d] (- EBUSY) s
                  else if \<not> S_ISDIR (i_mode (inode s d)) then leave E [RInode d] (- EPERM) s
                  else bindK (read_super E dev s) (\<lambda>sb s.
                    case sb of
                      None \<Rightarrow> leave E [RInode d] (- EBUSY) s
                    | Some sb \<Rightarrow>
                        if s_imount (sblock s sb) \<noteq> None then leave E [RInode d] (- EBUSY) s
                        else if i_mount (inode s d) then leave E [RInode d] (- EPERM) s
                        else Ok 0 (upd_inode d (\<lambda>n. n\<lparr>i_mount := True, i_dirt := True\<rparr>) (upd_super sb (s_imount_update (\<lambda>_. Some d)) s))))))"

end
