(* ===== verification/Ring_Buffer.thy ===== *)
theory Ring_Buffer
  imports Kernel_Prelude
begin

section \<open>Ring buffers\<close>

text \<open>
  Pipes keep their bytes in a page with a head and a tail index, and terminals keep their characters in queues of the same
  kind. The locale \<open>ring_buffer\<close> is the contract both fulfil: \<open>put u\<close> stores the run \<open>src u s\<close> of elements behind the head and \<open>get v\<close>
  removes the run \<open>out v s\<close> from the tail on; a run never crosses the end of the buffer, and one cell always stays free. From this the locale
  concludes that the two operations are those of a queue.
\<close>

definition ring_used :: "nat \<Rightarrow> nat \<Rightarrow> nat \<Rightarrow> nat" where
  "ring_used N h t = (h + N - t) mod N"

definition ring_contents :: "nat \<Rightarrow> nat \<Rightarrow> nat \<Rightarrow> (nat \<Rightarrow> 'a) \<Rightarrow> 'a list" where
  "ring_contents N h t c = map (\<lambda>k. c ((t + k) mod N)) [0..<ring_used N h t]"

lemma ring_used_less: "0 < N \<Longrightarrow> ring_used N h t < N"
  by (simp add: ring_used_def)

lemma ring_used_put:
  assumes "h < N" and "t < N" and "n + ring_used N h t < N"
  shows "ring_used N ((h + n) mod N) t = ring_used N h t + n" and "(t + ring_used N h t) mod N = h"
proof -
  have "((h + n) mod N + N - t) mod N = ((h + n) mod N + (N - t)) mod N" using assms(2) by simp
  also have "\<dots> = (h + n + (N - t)) mod N" by (simp add: mod_add_left_eq)
  also have "h + n + (N - t) = (h + N - t) + n" using assms(2) by linarith
  also have "((h + N - t) + n) mod N = ((h + N - t) mod N + n) mod N" by (simp add: mod_add_left_eq)
  finally show "ring_used N ((h + n) mod N) t = ring_used N h t + n" using assms(3) by (simp add: ring_used_def add.commute)
  have "(t + (h + N - t) mod N) mod N = (t + (h + N - t)) mod N" by (simp add: mod_add_right_eq)
  then show "(t + ring_used N h t) mod N = h" using assms(1,2) by (simp add: ring_used_def)
qed

lemma ring_used_get:
  assumes "h < N" and "t < N" and "n \<le> ring_used N h t"
  shows "ring_used N h ((t + n) mod N) = ring_used N h t - n"
proof -
  let ?t = "(t + n) mod N"
  have N: "0 < N" using assms(1) by simp
  have less: "ring_used N h ?t + n < 2 * N" using ring_used_less [OF N, of h ?t] ring_used_less [OF N, of h t] assms(3) by linarith
  have "(ring_used N h ?t + n) mod N = (h + (N - ?t) + n) mod N"
    using N mod_less_divisor [OF N, of "t + n"] by (simp add: ring_used_def mod_add_left_eq)
  also have "\<dots> = (h + (N - ?t) + n + (t + N - t)) mod N" using assms(2) by simp
  also have "h + (N - ?t) + n + (t + N - t) = (h + N - t) + (N - ?t) + (t + n)"
    using assms(2) mod_less_divisor [OF N, of "t + n"] by linarith
  also have "((h + N - t) + (N - ?t) + (t + n)) mod N = ((h + N - t) + (N - ?t) + ?t) mod N" by (simp add: mod_add_right_eq)
  also have "(h + N - t) + (N - ?t) + ?t = (h + N - t) + N" using mod_less_divisor [OF N, of "t + n"] by linarith
  also have "((h + N - t) + N) mod N = ring_used N h t" unfolding ring_used_def by (rule mod_add_self2)
  finally have m: "(ring_used N h ?t + n) mod N = ring_used N h t" .
  show ?thesis
  proof (cases "ring_used N h ?t + n < N")
    case False
    then have "(ring_used N h ?t + n) mod N = ring_used N h ?t + n - N" using less by (subst le_mod_geq) auto
    then have "ring_used N h ?t + n - N = ring_used N h t" using m by (rule trans [OF sym])
    then show ?thesis using ring_used_less [OF N, of h ?t] assms(3) False by linarith
  qed (use m in simp)
qed

locale ring_buffer =
  fixes N :: nat and ok :: "'s \<Rightarrow> bool" and head tail :: "'s \<Rightarrow> nat" and cell :: "'s \<Rightarrow> nat \<Rightarrow> 'a"
    and put :: "'u \<Rightarrow> 's \<Rightarrow> 's" and src :: "'u \<Rightarrow> 's \<Rightarrow> 'a list" and get :: "'v \<Rightarrow> 's \<Rightarrow> 's" and out :: "'v \<Rightarrow> 's \<Rightarrow> 'a list"
  assumes range: "ok s \<Longrightarrow> head s < N \<and> tail s < N"
    and src_fits: "ok s \<Longrightarrow> head s + length (src u s) \<le> N \<and> length (src u s) + ring_used N (head s) (tail s) < N"
    and put_ok: "ok s \<Longrightarrow> ok (put u s)"
    and put_head: "ok s \<Longrightarrow> head (put u s) = (head s + length (src u s)) mod N"
    and put_tail: "ok s \<Longrightarrow> tail (put u s) = tail s"
    and put_cell: "ok s \<Longrightarrow> k < N \<Longrightarrow>
      cell (put u s) k = (if head s \<le> k \<and> k < head s + length (src u s) then src u s ! (k - head s) else cell s k)"
    and out_fits: "ok s \<Longrightarrow> tail s + length (out v s) \<le> N \<and> length (out v s) \<le> ring_used N (head s) (tail s)"
    and out_cell: "ok s \<Longrightarrow> k < length (out v s) \<Longrightarrow> out v s ! k = cell s (tail s + k)"
    and get_ok: "ok s \<Longrightarrow> ok (get v s)"
    and get_head: "ok s \<Longrightarrow> head (get v s) = head s"
    and get_tail: "ok s \<Longrightarrow> tail (get v s) = (tail s + length (out v s)) mod N"
    and get_cell: "ok s \<Longrightarrow> k < N \<Longrightarrow> cell (get v s) k = cell s k"
begin

lemma put_contents:
  assumes "ok s"
  shows "ring_contents N (head (put u s)) (tail (put u s)) (cell (put u s)) = ring_contents N (head s) (tail s) (cell s) @ src u s"
proof (rule nth_equalityI)
  let ?n = "length (src u s)" and ?m = "ring_used N (head s) (tail s)"
  have r: "head s < N" "tail s < N" "?n + ?m < N" "head s + ?n \<le> N" using range [OF assms] src_fits [OF assms, of u] by auto
  note m = ring_used_put [OF r(1-3)]
  show "length (ring_contents N (head (put u s)) (tail (put u s)) (cell (put u s))) = length (ring_contents N (head s) (tail s) (cell s) @ src u s)"
    by (simp add: ring_contents_def put_head [OF assms] put_tail [OF assms] m)
  fix k assume "k < length (ring_contents N (head (put u s)) (tail (put u s)) (cell (put u s)))"
  then have k: "k < ?m + ?n" by (simp add: ring_contents_def put_head [OF assms] put_tail [OF assms] m)
  have c: "(tail s + k) mod N < N" using r(1) by simp
  have "cell (put u s) ((tail s + k) mod N) = (if k < ?m then cell s ((tail s + k) mod N) else src u s ! (k - ?m))"
  proof (cases "k < ?m")
    case True
    have "\<not> (head s \<le> (tail s + k) mod N \<and> (tail s + k) mod N < head s + ?n)"
    proof
      assume h: "head s \<le> (tail s + k) mod N \<and> (tail s + k) mod N < head s + ?n"
      have "ring_used N ((tail s + k) mod N) (tail s) = k"
        using ring_used_put(1) [of "tail s" N "tail s" k] r True by (simp add: ring_used_def)
      moreover have "ring_used N ((tail s + k) mod N) (tail s) = ?m + ((tail s + k) mod N - head s)"
      proof -
        have "(tail s + k) mod N - head s + ?m < N" using h r(3) by linarith
        from ring_used_put(1) [OF r(1,2) this] show ?thesis using h c by simp
      qed
      ultimately show False using True by simp
    qed
    then show ?thesis using True put_cell [OF assms c, of u] by auto
  next
    case False
    have "(tail s + k) mod N = (head s + (k - ?m)) mod N"
      using m(2) False by (metis add.assoc le_add_diff_inverse linorder_not_less mod_add_left_eq)
    then have "(tail s + k) mod N = head s + (k - ?m)" using k False r(4) by simp
    then show ?thesis using False k put_cell [OF assms c, of u] by auto
  qed
  then show "ring_contents N (head (put u s)) (tail (put u s)) (cell (put u s)) ! k = (ring_contents N (head s) (tail s) (cell s) @ src u s) ! k"
    using k by (simp add: ring_contents_def put_head [OF assms] put_tail [OF assms] m nth_append)
qed

lemma get_contents:
  assumes "ok s"
  shows "ring_contents N (head s) (tail s) (cell s) = out v s @ ring_contents N (head (get v s)) (tail (get v s)) (cell (get v s))"
proof (rule nth_equalityI)
  let ?n = "length (out v s)" and ?m = "ring_used N (head s) (tail s)"
  have r: "head s < N" "tail s < N" "?n \<le> ?m" "tail s + ?n \<le> N" using range [OF assms] out_fits [OF assms, of v] by auto
  note m = ring_used_get [OF r(1-3)]
  show "length (ring_contents N (head s) (tail s) (cell s)) = length (out v s @ ring_contents N (head (get v s)) (tail (get v s)) (cell (get v s)))"
    using r(3) by (simp add: ring_contents_def get_head [OF assms] get_tail [OF assms] m)
  fix k assume "k < length (ring_contents N (head s) (tail s) (cell s))"
  then have k: "k < ?m" by (simp add: ring_contents_def)
  then show "ring_contents N (head s) (tail s) (cell s) ! k = (out v s @ ring_contents N (head (get v s)) (tail (get v s)) (cell (get v s))) ! k"
  proof (cases "k < ?n")
    case True
    then show ?thesis using k r(2,4) by (simp add: ring_contents_def nth_append out_cell [OF assms])
  next
    case False
    have "((tail s + ?n) mod N + (k - ?n)) mod N = (tail s + k) mod N"
      using mod_add_left_eq [of "tail s + ?n" N "k - ?n"] False by simp
    moreover have "(tail s + k) mod N < N" using r(1) by simp
    ultimately show ?thesis using k False r(3)
      by (simp add: ring_contents_def nth_append get_head [OF assms] get_tail [OF assms] m get_cell [OF assms])
  qed
qed

end

end
