(* ===== verification/Pipe_Fifo.thy ===== *)
theory Pipe_Fifo
  imports File_Io Ring_Buffer
begin

unbundle bit_operations_syntax

section \<open>Pipes are queues\<close>

text \<open>
  The page of a pipe with \<^verbatim>\<open>PIPE_HEAD\<close> and \<^verbatim>\<open>PIPE_TAIL\<close> fulfils the contract \<open>ring_buffer\<close>; so whatever writers and readers do in
  turn, the bytes come out in the order in which they went in, and a write followed by a read hands over the bytes unchanged.
\<close>

subsection \<open>Bytes of physical memory\<close>

lemma byte_lane:
  assumes "j < 4" and "k < 4"
  shows "(ucast (drop_bit (8 * j) ((w AND NOT (push_bit (8 * k) 0xff)) OR push_bit (8 * k) (ucast v))) :: u8) =
    (if j = k then v else ucast (drop_bit (8 * j) (w :: u32)))"
proof (rule bit_word_eqI)
  fix n assume "n < LENGTH(8)"
  then have n: "n < 8" by simp
  have ff: "(0xff :: u32) = mask 8" by (simp add: mask_eq_exp_minus_1)
  have b: "8 * j + n < 32" using n assms by linarith
  consider "j = k" | "8 * j + n < 8 * k" "j \<noteq> k" | "8 * k \<le> 8 * j + n" "8 \<le> 8 * j + n - 8 * k" "j \<noteq> k" using n by linarith
  then show "bit (ucast (drop_bit (8 * j) ((w AND NOT (push_bit (8 * k) 0xff)) OR push_bit (8 * k) (ucast v))) :: u8) n =
    bit (if j = k then v else ucast (drop_bit (8 * j) w)) n"
  proof cases
    case 3
    have "\<not> bit v (8 * j + n - 8 * k)" using 3(2) bit_imp_le_length [of v "8 * j + n - 8 * k"] by auto
    then show ?thesis using n b 3 unfolding ff by (simp add: bit_simps)
  qed (use n b in \<open>simp_all add: ff bit_simps\<close>)
qed

lemma low_bits: "unat (a AND 3 :: u32) < 4"
  using word_and_le1 [of a 3] by (simp add: word_le_nat_alt)

lemma addr_eq: "a AND NOT 3 = b AND NOT 3 \<Longrightarrow> unat (a AND 3) = unat (b AND 3) \<Longrightarrow> a = (b :: u32)"
proof -
  assume "a AND NOT 3 = b AND NOT 3" "unat (a AND 3) = unat (b AND 3)"
  then have "(a AND NOT 3) OR (a AND 3) = (b AND NOT 3) OR (b AND 3)" by (simp only: word_unat_eq_iff [symmetric])
  moreover have "(x AND NOT 3) OR (x AND 3) = x" for x :: u32 by (rule bit_word_eqI) (auto simp: bit_simps)
  ultimately show ?thesis by metis
qed

lemma phys_byte_poke: "phys_byte a (poke_byte b v s) = (if a = b then v else phys_byte a s)"
proof (cases "a AND NOT 3 = b AND NOT 3")
  case True
  have "unat (a AND 3) = unat (b AND 3) \<longleftrightarrow> a = b" using addr_eq [OF True] by auto
  then show ?thesis unfolding phys_byte_def poke_byte_def Let_def poke_simps True fun_upd_same
    byte_lane [OF low_bits [of a] low_bits [of b], of "phys s (b AND NOT 3)" v] by simp
qed (auto simp: phys_byte_def poke_byte_def Let_def)

lemma poke_byte_frame [simp]:
  "inode (poke_byte a v s) = inode s" "fs_mem (poke_byte a v s) = fs_mem s" "get_fs_byte u (poke_byte a v s) = get_fs_byte u s"
  by (simp_all add: poke_byte_def poke_def Let_def get_fs_byte_def)

lemma put_fs_byte_fs [simp]:
  "inode (put_fs_byte v a s) = inode s" "phys (put_fs_byte v a s) = phys s" "phys_byte b (put_fs_byte v a s) = phys_byte b s"
  by (simp_all add: put_fs_byte_def phys_byte_def)

lemma phys_byte_upd_inode [simp]: "phys_byte a (upd_inode i f s) = phys_byte a s" "get_fs_byte u (upd_inode i f s) = get_fs_byte u s"
  by (simp_all add: phys_byte_def upd_inode_def get_fs_byte_def)

subsection \<open>The ring of a pipe\<close>

definition pipe_ok :: "nat \<Rightarrow> 'z fs_st_scheme \<Rightarrow> bool" where
  "pipe_ok i s \<longleftrightarrow> unat (PIPE_HEAD (inode s i)) < 4096 \<and> unat (PIPE_TAIL (inode s i)) < 4096 \<and> i_size (inode s i) AND 4095 = 0"

definition pipe_cell :: "nat \<Rightarrow> 'z fs_st_scheme \<Rightarrow> nat \<Rightarrow> u8" where
  "pipe_cell i s k = phys_byte (i_size (inode s i) + word_of_nat k) s"

text \<open>
  The bytes in a pipe, in the order in which they will be read; the bytes of the writer's buffer that a run of the writer moves; and what the
  reader's buffer holds after a run of the reader.
\<close>

definition pipe_bytes :: "nat \<Rightarrow> 'z fs_st_scheme \<Rightarrow> u8 list" where
  "pipe_bytes i s = ring_contents 4096 (unat (PIPE_HEAD (inode s i))) (unat (PIPE_TAIL (inode s i))) (pipe_cell i s)"

definition user_bytes :: "u32 \<Rightarrow> nat \<Rightarrow> 'z sched_st_scheme \<Rightarrow> u8 list" where
  "user_bytes u n s = map (\<lambda>k. get_fs_byte (u + word_of_nat k) s) [0..<n]"

definition given :: "nat \<Rightarrow> u32 \<times> int \<Rightarrow> 'z fs_st_scheme \<Rightarrow> u8 list" where
  "given i w s = user_bytes (fst w) (fst (pipe_give i (fst w) (snd w) s)) s"

definition taken :: "nat \<Rightarrow> u32 \<times> int \<Rightarrow> 'z fs_st_scheme \<Rightarrow> u8 list" where
  "taken i w s = (let (n, t) = pipe_take i (fst w) (snd w) s in user_bytes (fst w) n t)"

lemma user_bytes_split: "user_bytes u (a + b) s = user_bytes u a s @ user_bytes (u + word_of_nat a) b s"
  by (induction b) (simp_all add: user_bytes_def add.assoc)

lemma user_bytes_cong: "(\<And>k. k < n \<Longrightarrow> get_fs_byte (u + word_of_nat k) s = get_fs_byte (u + word_of_nat k) t) \<Longrightarrow> user_bytes u n s = user_bytes u n t"
  by (simp add: user_bytes_def)

lemma unat_and_4095: "unat ((w :: 'a :: len word) AND 4095) = unat w mod 4096"
proof -
  have "w AND 4095 = take_bit 12 w" by (simp add: take_bit_eq_mask mask_eq_exp_minus_1)
  then have "unat (w AND 4095) = take_bit 12 (unat w)" by (simp only: unsigned_take_bit_eq)
  then show ?thesis by (simp add: take_bit_eq_mod)
qed

lemma PIPE_SIZE_used:
  assumes "unat (PIPE_HEAD n) < 4096" and "unat (PIPE_TAIL n) < 4096"
  shows "PIPE_SIZE n = ring_used 4096 (unat (PIPE_HEAD n)) (unat (PIPE_TAIL n))"
proof -
  let ?h = "ucast (PIPE_HEAD n) :: u32" and ?t = "ucast (PIPE_TAIL n) :: u32"
  have u: "unat ?h = unat (PIPE_HEAD n)" "unat ?t = unat (PIPE_TAIL n)" by (simp_all add: unsigned_ucast_eq take_bit_nat_eq_self unsigned_less [where ?'a = nat, THEN less_trans])
  have "unat ((?h - ?t) AND 4095) = unat (?h - ?t) mod 4096" by (rule unat_and_4095)
  also have "\<dots> = (unat (PIPE_HEAD n) + 4096 - unat (PIPE_TAIL n)) mod 4096"
  proof (cases "unat (PIPE_TAIL n) \<le> unat (PIPE_HEAD n)")
    case True
    then have "unat (PIPE_HEAD n) + 4096 - unat (PIPE_TAIL n) = (unat (PIPE_HEAD n) - unat (PIPE_TAIL n)) + 4096" by simp
    then have "(unat (PIPE_HEAD n) + 4096 - unat (PIPE_TAIL n)) mod 4096 = (unat (PIPE_HEAD n) - unat (PIPE_TAIL n)) mod 4096"
      by (simp only: mod_add_self2)
    then show ?thesis using True by (simp add: unat_sub_if' u)
  next
    case False
    then have "unat (PIPE_HEAD n) + 4294967296 - unat (PIPE_TAIL n) = (unat (PIPE_HEAD n) + 4096 - unat (PIPE_TAIL n)) + 4096 * 1048575"
      using assms by simp
    then have "(unat (PIPE_HEAD n) + 4294967296 - unat (PIPE_TAIL n)) mod 4096 = (unat (PIPE_HEAD n) + 4096 - unat (PIPE_TAIL n)) mod 4096"
      by (simp only: mod_mult_self2)
    then show ?thesis using False by (simp add: unat_sub_if' u)
  qed
  finally show ?thesis by (simp add: PIPE_SIZE_def ring_used_def)
qed

lemma offset_eq: "a < 4294967296 \<Longrightarrow> b < 4294967296 \<Longrightarrow> p + word_of_nat a = p + (word_of_nat b :: u32) \<longleftrightarrow> a = b"
  by (simp add: word_of_nat_eq_iff take_bit_nat_eq_self del: of_nat_eq_iff)

lemma store_run:
  fixes u p :: u32 and s :: "'z fs_st_scheme"
  assumes "h + n \<le> 4096"
  defines "t \<equiv> fold (\<lambda>k s. poke_byte (p + word_of_nat (h + k)) (get_fs_byte (u + word_of_nat k) s) s) [0..<n] s"
  shows "inode t = inode s" and "fs_mem t = fs_mem s"
    and "j < 4096 \<Longrightarrow> phys_byte (p + word_of_nat j) t =
      (if h \<le> j \<and> j < h + n then get_fs_byte (u + word_of_nat (j - h)) s else phys_byte (p + word_of_nat j) s)"
proof -
  have *: "inode t = inode s \<and> fs_mem t = fs_mem s \<and> (\<forall>j < 4096. phys_byte (p + word_of_nat j) t =
      (if h \<le> j \<and> j < h + n then get_fs_byte (u + word_of_nat (j - h)) s else phys_byte (p + word_of_nat j) s))"
    using assms(1) unfolding t_def
  proof (induction n)
    case (Suc n)
    let ?t = "fold (\<lambda>k s. poke_byte (p + word_of_nat (h + k)) (get_fs_byte (u + word_of_nat k) s) s) [0..<n] s"
    have IH: "inode ?t = inode s" "fs_mem ?t = fs_mem s" "\<And>j. j < 4096 \<Longrightarrow> phys_byte (p + word_of_nat j) ?t =
      (if h \<le> j \<and> j < h + n then get_fs_byte (u + word_of_nat (j - h)) s else phys_byte (p + word_of_nat j) s)"
      using Suc by simp_all
    have "p + word_of_nat j = p + (word_of_nat (h + n) :: u32) \<longleftrightarrow> j = h + n" if "j < 4096" for j
      using that Suc.prems by (intro offset_eq) simp_all
    then show ?case using IH by (auto simp: phys_byte_poke get_fs_byte_def simp del: of_nat_add of_nat_diff)
  qed auto
  show "inode t = inode s" "fs_mem t = fs_mem s" using * by simp_all
  show "phys_byte (p + word_of_nat j) t =
      (if h \<le> j \<and> j < h + n then get_fs_byte (u + word_of_nat (j - h)) s else phys_byte (p + word_of_nat j) s)" if "j < 4096"
    using * that by simp
qed

lemma fetch_run:
  fixes u p :: u32 and h :: nat and s :: "'z fs_st_scheme"
  assumes "n \<le> 4096"
  defines "t \<equiv> fold (\<lambda>k s. put_fs_byte (phys_byte (p + word_of_nat (h + k)) s) (u + word_of_nat k) s) [0..<n] s"
  shows "inode t = inode s" and "phys_byte a t = phys_byte a s"
    and "j < n \<Longrightarrow> get_fs_byte (u + word_of_nat j) t = phys_byte (p + word_of_nat (h + j)) s"
    and "(\<And>j. j < n \<Longrightarrow> a \<noteq> u + word_of_nat j) \<Longrightarrow> get_fs_byte a t = get_fs_byte a s"
proof -
  have *: "inode t = inode s \<and> (\<forall>a. phys_byte a t = phys_byte a s) \<and> (\<forall>a. (\<forall>j < n. a \<noteq> u + word_of_nat j) \<longrightarrow> get_fs_byte a t = get_fs_byte a s) \<and>
      (\<forall>j < n. get_fs_byte (u + word_of_nat j) t = phys_byte (p + word_of_nat (h + j)) s)"
    using assms(1) unfolding t_def
  proof (induction n)
    case (Suc n)
    let ?t = "fold (\<lambda>k s. put_fs_byte (phys_byte (p + word_of_nat (h + k)) s) (u + word_of_nat k) s) [0..<n] s"
    have IH: "inode ?t = inode s" "\<And>a. phys_byte a ?t = phys_byte a s" "\<And>a. (\<forall>j < n. a \<noteq> u + word_of_nat j) \<longrightarrow> get_fs_byte a ?t = get_fs_byte a s"
      "\<And>j. j < n \<Longrightarrow> get_fs_byte (u + word_of_nat j) ?t = phys_byte (p + word_of_nat (h + j)) s"
      using Suc by simp_all
    have "u + word_of_nat j = u + (word_of_nat n :: u32) \<longleftrightarrow> j = n" if "j < Suc n" for j
      using that Suc.prems by (intro offset_eq) simp_all
    then show ?case using IH by (auto simp: get_fs_byte_def less_Suc_eq put_fs_byte_def phys_byte_def simp del: of_nat_add)
  qed simp
  then show "inode t = inode s" "phys_byte a t = phys_byte a s" by simp_all
  show "get_fs_byte (u + word_of_nat j) t = phys_byte (p + word_of_nat (h + j)) s" if "j < n" using * that by simp
  show "get_fs_byte a t = get_fs_byte a s" if "\<And>j. j < n \<Longrightarrow> a \<noteq> u + word_of_nat j" using * that by blast
qed

lemma PIPE_ends [simp]:
  "PIPE_HEAD (set_zone 0 v n) = v" "PIPE_TAIL (set_zone 0 v n) = PIPE_TAIL n"
  "PIPE_TAIL (set_zone (Suc 0) v n) = v" "PIPE_HEAD (set_zone (Suc 0) v n) = PIPE_HEAD n" "i_size (set_zone k v n) = i_size n"
  by (simp_all add: PIPE_HEAD_def PIPE_TAIL_def set_zone_def)

lemma advance: "unat (w :: u16) < 4096 \<Longrightarrow> n \<le> 4096 \<Longrightarrow> unat ((w + word_of_nat n) AND 4095) = (unat w + n) mod 4096"
  by (simp only: unat_and_4095 unat_word_ariths(1) unat_of_nat) (simp add: mod_less)

lemma pipe_give_effect:
  fixes s :: "'z fs_st_scheme"
  assumes "pipe_ok i s" and g: "pipe_give i u c s = (n, t)"
  shows "pipe_ok i t" and "unat (PIPE_HEAD (inode t i)) = (unat (PIPE_HEAD (inode s i)) + n) mod 4096"
    and "PIPE_TAIL (inode t i) = PIPE_TAIL (inode s i)"
    and "n = min (min (4096 - unat (PIPE_HEAD (inode s i))) (nat c)) (4095 - PIPE_SIZE (inode s i))"
    and "j < 4096 \<Longrightarrow> pipe_cell i t j = (if unat (PIPE_HEAD (inode s i)) \<le> j \<and> j < unat (PIPE_HEAD (inode s i)) + n
      then get_fs_byte (u + word_of_nat (j - unat (PIPE_HEAD (inode s i)))) s else pipe_cell i s j)"
    and "get_fs_byte a t = get_fs_byte a s"
proof -
  let ?h = "unat (PIPE_HEAD (inode s i))" and ?p = "i_size (inode s i)"
  let ?v = "upd_inode i (set_zone 0 ((PIPE_HEAD (inode s i) + word_of_nat n) AND 4095)) s"
  have n: "n = min (min (4096 - ?h) (nat c)) (4095 - PIPE_SIZE (inode s i))"
    and t: "t = fold (\<lambda>k s. poke_byte (?p + word_of_nat (?h + k)) (get_fs_byte (u + word_of_nat k) s) s) [0..<n] ?v"
    using g by (auto simp: pipe_give_def Let_def simp del: of_nat_add)
  have b: "?h + n \<le> 4096" "?h < 4096" using n assms(1) unfolding pipe_ok_def by linarith+
  note r = store_run [OF b(1), where p = ?p and u = u and s = ?v, folded t]
  show h: "unat (PIPE_HEAD (inode t i)) = (?h + n) mod 4096" using b by (simp add: r advance)
  show "PIPE_TAIL (inode t i) = PIPE_TAIL (inode s i)" by (simp add: r)
  then show "pipe_ok i t" using assms(1) h by (simp add: pipe_ok_def r)
  show "pipe_cell i t j = (if ?h \<le> j \<and> j < ?h + n then get_fs_byte (u + word_of_nat (j - ?h)) s else pipe_cell i s j)" if "j < 4096"
    using r(3) [OF that] by (simp add: pipe_cell_def r)
  show "get_fs_byte a t = get_fs_byte a s" by (simp add: get_fs_byte_def r)
qed (use g in \<open>simp add: pipe_give_def Let_def\<close>)

lemma pipe_take_effect:
  fixes s :: "'z fs_st_scheme"
  assumes "pipe_ok i s" and g: "pipe_take i u c s = (n, t)"
  shows "pipe_ok i t" and "unat (PIPE_TAIL (inode t i)) = (unat (PIPE_TAIL (inode s i)) + n) mod 4096"
    and "PIPE_HEAD (inode t i) = PIPE_HEAD (inode s i)"
    and "n = min (min (4096 - unat (PIPE_TAIL (inode s i))) (nat c)) (PIPE_SIZE (inode s i))"
    and "pipe_cell i t j = pipe_cell i s j"
    and "j < n \<Longrightarrow> get_fs_byte (u + word_of_nat j) t = pipe_cell i s (unat (PIPE_TAIL (inode s i)) + j)"
    and "(\<And>j. j < n \<Longrightarrow> a \<noteq> u + word_of_nat j) \<Longrightarrow> get_fs_byte a t = get_fs_byte a s"
proof -
  let ?h = "unat (PIPE_TAIL (inode s i))" and ?p = "i_size (inode s i)"
  let ?v = "upd_inode i (set_zone 1 ((PIPE_TAIL (inode s i) + word_of_nat n) AND 4095)) s"
  have n: "n = min (min (4096 - ?h) (nat c)) (PIPE_SIZE (inode s i))"
    and t: "t = fold (\<lambda>k s. put_fs_byte (phys_byte (?p + word_of_nat (?h + k)) s) (u + word_of_nat k) s) [0..<n] ?v"
    using g by (auto simp: pipe_take_def Let_def simp del: of_nat_add)
  have b: "n \<le> 4096" "?h < 4096" using n assms(1) unfolding pipe_ok_def by linarith+
  note r = fetch_run [OF b(1), where p = ?p and h = ?h and u = u and s = ?v, folded t]
  show h: "unat (PIPE_TAIL (inode t i)) = (?h + n) mod 4096" using b by (simp add: r advance)
  show "PIPE_HEAD (inode t i) = PIPE_HEAD (inode s i)" by (simp add: r)
  then show "pipe_ok i t" using assms(1) h by (simp add: pipe_ok_def r)
  show "pipe_cell i t j = pipe_cell i s j" by (simp add: pipe_cell_def r)
  show "get_fs_byte (u + word_of_nat j) t = pipe_cell i s (?h + j)" if "j < n" using r(3) [OF that] by (simp add: pipe_cell_def r)
  show "get_fs_byte a t = get_fs_byte a s" if "\<And>j. j < n \<Longrightarrow> a \<noteq> u + word_of_nat j" using r(4) [OF that] by simp
qed (use g in \<open>simp add: pipe_take_def Let_def\<close>)

lemma pipe_used: "pipe_ok i s \<Longrightarrow> ring_used 4096 (unat (PIPE_HEAD (inode s i))) (unat (PIPE_TAIL (inode s i))) = PIPE_SIZE (inode s i) \<and> PIPE_SIZE (inode s i) < 4096"
  using ring_used_less [of 4096] by (simp add: PIPE_SIZE_used pipe_ok_def)

lemma give_laws:
  fixes s :: "'z fs_st_scheme" and w :: "u32 \<times> int"
  assumes "pipe_ok i s"
  defines "t \<equiv> snd (pipe_give i (fst w) (snd w) s)" and "h \<equiv> unat (PIPE_HEAD (inode s i))"
  shows "h + length (given i w s) \<le> 4096" and "length (given i w s) + PIPE_SIZE (inode s i) < 4096" and "pipe_ok i t"
    and "unat (PIPE_HEAD (inode t i)) = (h + length (given i w s)) mod 4096" and "PIPE_TAIL (inode t i) = PIPE_TAIL (inode s i)"
    and "j < 4096 \<Longrightarrow> pipe_cell i t j = (if h \<le> j \<and> j < h + length (given i w s) then given i w s ! (j - h) else pipe_cell i s j)"
proof -
  obtain n where g: "pipe_give i (fst w) (snd w) s = (n, t)" unfolding t_def by (metis prod.collapse)
  note e = pipe_give_effect [OF assms(1) g]
  have l: "length (given i w s) = n" "\<And>k. k < n \<Longrightarrow> given i w s ! k = get_fs_byte (fst w + word_of_nat k) s"
    using g by (simp_all add: given_def user_bytes_def)
  show "h + length (given i w s) \<le> 4096" "length (given i w s) + PIPE_SIZE (inode s i) < 4096"
    using e(4) pipe_used [OF assms(1)] assms(1) unfolding l h_def pipe_ok_def length_map length_upt by linarith+
  show "pipe_cell i t j = (if h \<le> j \<and> j < h + length (given i w s) then given i w s ! (j - h) else pipe_cell i s j)" if "j < 4096"
    using e(5) [OF that] l by (auto simp: h_def)
  show "unat (PIPE_HEAD (inode t i)) = (h + length (given i w s)) mod 4096" using e(2) by (simp add: l h_def)
  show "pipe_ok i t" "PIPE_TAIL (inode t i) = PIPE_TAIL (inode s i)" by (rule e)+
qed

lemma take_laws:
  fixes s :: "'z fs_st_scheme" and w :: "u32 \<times> int"
  assumes "pipe_ok i s"
  defines "t \<equiv> snd (pipe_take i (fst w) (snd w) s)" and "h \<equiv> unat (PIPE_TAIL (inode s i))"
  shows "h + length (taken i w s) \<le> 4096" and "length (taken i w s) \<le> PIPE_SIZE (inode s i)" and "pipe_ok i t"
    and "unat (PIPE_TAIL (inode t i)) = (h + length (taken i w s)) mod 4096" and "PIPE_HEAD (inode t i) = PIPE_HEAD (inode s i)"
    and "pipe_cell i t j = pipe_cell i s j" and "k < length (taken i w s) \<Longrightarrow> taken i w s ! k = pipe_cell i s (h + k)"
proof -
  obtain n where g: "pipe_take i (fst w) (snd w) s = (n, t)" unfolding t_def by (metis prod.collapse)
  note e = pipe_take_effect [OF assms(1) g]
  have l: "taken i w s = map (\<lambda>k. get_fs_byte (fst w + word_of_nat k) t) [0..<n]" using g by (simp add: taken_def user_bytes_def)
  show "h + length (taken i w s) \<le> 4096" "length (taken i w s) \<le> PIPE_SIZE (inode s i)"
    using e(4) assms(1) unfolding l h_def pipe_ok_def length_map length_upt by linarith+
  show "unat (PIPE_TAIL (inode t i)) = (h + length (taken i w s)) mod 4096" using e(2) by (simp add: l h_def)
  show "taken i w s ! k = pipe_cell i s (h + k)" if "k < length (taken i w s)" using that e(6) by (simp add: l h_def)
  show "pipe_ok i t" "PIPE_HEAD (inode t i) = PIPE_HEAD (inode s i)" "pipe_cell i t j = pipe_cell i s j" by (rule e)+
qed

interpretation pipe_ring: ring_buffer 4096 "pipe_ok i" "\<lambda>s. unat (PIPE_HEAD (inode s i))" "\<lambda>s. unat (PIPE_TAIL (inode s i))" "pipe_cell i"
    "\<lambda>w s. snd (pipe_give i (fst w) (snd w) s)" "given i" "\<lambda>w s. snd (pipe_take i (fst w) (snd w) s)" "taken i" for i
proof (unfold_locales, goal_cases)
  case (1 s)
  then show ?case by (simp add: pipe_ok_def)
next
  case (2 s u)
  show ?case using give_laws(1,2) [OF 2] pipe_used [OF 2] by simp
next
  case (7 s v)
  show ?case using take_laws(1,2) [OF 7] pipe_used [OF 7] by simp
qed (simp_all only: give_laws take_laws)

lemmas pipe_bytes_give = pipe_ring.put_contents [folded pipe_bytes_def]
lemmas pipe_bytes_take = pipe_ring.get_contents [folded pipe_bytes_def]

subsection \<open>Writers and readers in turn\<close>

text \<open>
  A history of a pipe: runs of writers and of readers in any order, with the user memory changing arbitrarily in between (another
  task runs, or the same task goes on). \<open>ins\<close> collects what the writers' buffers held, \<open>outs\<close> what the readers' buffers received.
\<close>

inductive pipe_history :: "nat \<Rightarrow> 'z fs_st_scheme \<Rightarrow> u8 list \<Rightarrow> u8 list \<Rightarrow> 'z fs_st_scheme \<Rightarrow> bool" for i s where
  none: "pipe_history i s [] [] s"
| give: "pipe_history i s ins outs t \<Longrightarrow> pipe_give i u c t = (n, t') \<Longrightarrow> pipe_history i s (ins @ user_bytes u n t) outs t'"
| take: "pipe_history i s ins outs t \<Longrightarrow> pipe_take i u c t = (n, t') \<Longrightarrow> pipe_history i s ins (outs @ user_bytes u n t') t'"
| user: "pipe_history i s ins outs t \<Longrightarrow> pipe_history i s ins outs (t\<lparr>fs_mem := m\<rparr>)"

lemma pipe_ok_user [simp]: "pipe_ok i (t\<lparr>fs_mem := m\<rparr>) = pipe_ok i t" "pipe_bytes i (t\<lparr>fs_mem := m\<rparr>) = pipe_bytes i t"
proof -
  have "pipe_cell i (t\<lparr>fs_mem := m\<rparr>) = pipe_cell i t" by (rule ext) (simp add: pipe_cell_def phys_byte_def)
  then show "pipe_ok i (t\<lparr>fs_mem := m\<rparr>) = pipe_ok i t" "pipe_bytes i (t\<lparr>fs_mem := m\<rparr>) = pipe_bytes i t" by (simp_all add: pipe_ok_def pipe_bytes_def)
qed

lemma give_bytes:
  assumes "pipe_ok i s" and "pipe_give i u c s = (n, t)"
  shows "pipe_ok i t" and "pipe_bytes i t = pipe_bytes i s @ user_bytes u n s"
  using pipe_bytes_give [OF assms(1), of "(u, c)"] give_laws(3) [OF assms(1), of "(u, c)"] assms(2) by (simp_all add: given_def)

lemma take_bytes:
  assumes "pipe_ok i s" and "pipe_take i u c s = (n, t)"
  shows "pipe_ok i t" and "pipe_bytes i s = user_bytes u n t @ pipe_bytes i t"
  using pipe_bytes_take [OF assms(1), of "(u, c)"] take_laws(3) [OF assms(1), of "(u, c)"] assms(2) by (simp_all add: taken_def)

lemma pipe_bytes_length: "pipe_ok i s \<Longrightarrow> length (pipe_bytes i s) = PIPE_SIZE (inode s i)"
  using pipe_used [of i s] by (simp add: pipe_bytes_def ring_contents_def)

text \<open>
  C3. A pipe is a queue of bytes. Whatever writers and readers do in turn, the bytes that were in the pipe followed by all bytes given
  by writers are the bytes received by readers followed by those still in the pipe, so nothing is lost, invented or reordered; and a pipe
  never holds more than 4095 bytes.
\<close>

theorem pipe_is_queue:
  assumes "pipe_history i s ins outs t" and "pipe_ok i s"
  shows "pipe_ok i t \<and> pipe_bytes i s @ ins = outs @ pipe_bytes i t \<and> length (pipe_bytes i t) \<le> 4095"
proof -
  from assms have "pipe_ok i t \<and> pipe_bytes i s @ ins = outs @ pipe_bytes i t"
  proof induction
    case (give ins outs t u c n t')
    then show ?case using give_bytes [OF _ give.hyps(2)] by (simp flip: append_assoc)
  next
    case (take ins outs t u c n t')
    then show ?case using take_bytes [OF _ take.hyps(2)] by simp
  qed simp_all
  then show ?thesis using pipe_used [of i t] pipe_bytes_length [of i t] by simp
qed

definition a_pipe :: fs_st where
  "a_pipe = upd_inode 3 (\<lambda>_. empty_inode\<lparr>i_pipe := True, i_count := 1, i_size := 0x100000, i_zone := (\<lambda>_. 4090)\<rparr>) (fs_boot mm_empty)"

lemma a_pipe_empty: "pipe_ok 3 a_pipe" "PIPE_HEAD (inode a_pipe 3) = 4090" "PIPE_TAIL (inode a_pipe 3) = 4090"
  "PIPE_SIZE (inode a_pipe 3) = 0" "i_count (inode a_pipe 3) = 1"
  by (simp_all add: a_pipe_def pipe_ok_def PIPE_HEAD_def PIPE_TAIL_def PIPE_SIZE_def)

theorem pipe_is_queue_witness:
  "\<exists>t u. pipe_history 3 a_pipe (user_bytes 100 6 a_pipe) (user_bytes 200 4 u) u \<and> user_bytes 100 6 a_pipe = user_bytes 200 4 u @ pipe_bytes 3 u"
proof -
  obtain n t where g: "pipe_give 3 100 10 a_pipe = (n, t)" by fastforce
  have n: "n = 6" using pipe_give_effect(4) [OF a_pipe_empty(1) g] by (simp add: a_pipe_empty)
  note b = give_bytes [OF a_pipe_empty(1) g]
  obtain m u where h: "pipe_take 3 200 4 t = (m, u)" by fastforce
  have z: "pipe_bytes 3 a_pipe = []" using pipe_bytes_length [OF a_pipe_empty(1)] by (simp add: a_pipe_empty)
  have "PIPE_SIZE (inode t 3) = 6" using pipe_bytes_length [OF b(1)] b(2) z by (simp add: user_bytes_def n)
  then have m: "m = 4" using pipe_take_effect(4) [OF b(1) h] pipe_give_effect(3) [OF a_pipe_empty(1) g] by (simp add: a_pipe_empty)
  have r: "pipe_history 3 a_pipe (user_bytes 100 6 a_pipe) (user_bytes 200 4 u) u"
    using pipe_history.take [OF pipe_history.give [OF pipe_history.none g] h] by (simp add: n m)
  from pipe_is_queue [OF r a_pipe_empty(1)] r z show ?thesis by auto
qed

lemma user_bytes_frame:
  assumes "\<And>a. (\<And>j. j < b \<Longrightarrow> a \<noteq> u + word_of_nat n + word_of_nat j) \<Longrightarrow> get_fs_byte a t = get_fs_byte a s" and "n + b \<le> 4096"
  shows "user_bytes u n t = user_bytes u n s"
proof (rule user_bytes_cong, rule assms(1))
  fix k j assume "k < n" "j < b"
  then show "u + word_of_nat k \<noteq> u + word_of_nat n + (word_of_nat j :: u32)"
    using offset_eq [of k "n + j" u] assms(2) by (simp add: add.assoc)
qed

lemma wake_up_pipe [simp]: "pipe_ok i (wake_up q s) = pipe_ok i s" "pipe_bytes i (wake_up q s) = pipe_bytes i s" "get_fs_byte a (wake_up q s) = get_fs_byte a s"
proof -
  have "pipe_cell i (wake_up q s) = pipe_cell i s" "inode (wake_up q s) = inode s"
    by (auto simp: pipe_cell_def phys_byte_def wake_up_def upd_task_def split: option.split)
  then show "pipe_ok i (wake_up q s) = pipe_ok i s" "pipe_bytes i (wake_up q s) = pipe_bytes i s" by (simp_all add: pipe_ok_def pipe_bytes_def)
  show "get_fs_byte a (wake_up q s) = get_fs_byte a s" by (simp add: get_fs_byte_def wake_up_def upd_task_def split: option.split)
qed

text \<open>A run leaves the number of users of the pipe and the tasks alone.\<close>

definition pipe_ends :: "nat \<Rightarrow> 'z fs_st_scheme \<Rightarrow> 'z fs_st_scheme \<Rightarrow> bool" where
  "pipe_ends i s t \<longleftrightarrow> i_count (inode t i) = i_count (inode s i) \<and> (cur_ok s \<longrightarrow> cur_ok t)"

lemma pipe_ends_run:
  "pipe_give i u c s = (n, t) \<Longrightarrow> pipe_ends i s t" "pipe_take i u c s = (n, t) \<Longrightarrow> pipe_ends i s t"
proof -
  let ?f = "\<lambda>s. (i_count (inode s i), task s, current s)"
  have "?f (snd (pipe_give i u c s)) = ?f s" unfolding pipe_give_def Let_def snd_conv
    by (rule trans, rule fold_frame) (simp_all add: poke_byte_def poke_def Let_def upd_inode_def set_zone_def)
  moreover have "?f (snd (pipe_take i u c s)) = ?f s" unfolding pipe_take_def Let_def snd_conv
    by (rule trans, rule fold_frame) (simp_all add: put_fs_byte_def upd_inode_def set_zone_def)
  ultimately show "pipe_give i u c s = (n, t) \<Longrightarrow> pipe_ends i s t" "pipe_take i u c s = (n, t) \<Longrightarrow> pipe_ends i s t"
    by (auto simp: pipe_ends_def cur_ok_def)
qed

lemma pipe_ends_refl [simp]: "pipe_ends i s s" by (simp add: pipe_ends_def)
lemma pipe_ends_trans: "pipe_ends i s t \<Longrightarrow> pipe_ends i t u \<Longrightarrow> pipe_ends i s u" by (simp add: pipe_ends_def)

lemma pipe_bytes_upd_cur [simp]: "pipe_bytes i (upd_cur f s) = pipe_bytes i s"
proof -
  have "pipe_cell i (upd_cur f s) = pipe_cell i s" "inode (upd_cur f s) = inode s"
    by (auto simp: pipe_cell_def phys_byte_def upd_cur_def upd_task_def)
  then show ?thesis by (simp add: pipe_bytes_def)
qed

lemma SIGPIPE_bit: "bit (sig_bit 13) 12"
  by code_simp

lemma cur_ok_wake_up [simp]: "cur_ok s \<Longrightarrow> cur_ok (wake_up q s)"
  by (auto simp: cur_ok_def wake_up_def upd_task_def split: option.split)

lemma write_rounds:
  fixes k :: nat
  assumes "pipe_ok i s"
  defines "m \<equiv> min k (4095 - PIPE_SIZE (inode s i))"
  shows "\<exists>t. iterK (write_pipe_round E i) (int k, w, u) s = iterK (write_pipe_round E i) (int (k - m), w + int m, u + word_of_nat m) t \<and>
    pipe_ok i t \<and> pipe_bytes i t = pipe_bytes i s @ user_bytes u m s \<and> pipe_ends i s t"
  using assms(1) unfolding m_def
proof (induction k arbitrary: w u s rule: less_induct)
  case (less k)
  show ?case
  proof (cases "k = 0 \<or> PIPE_SIZE (inode s i) = 4095")
    case True
    then show ?thesis using less.prems by (intro exI [of _ s]) (auto simp: user_bytes_def)
  next
    case False
    obtain n t where g: "pipe_give i u (int k) s = (n, t)" by fastforce
    note e = pipe_give_effect(4,6) [OF less.prems g] and b = give_bytes [OF less.prems g]
    let ?m = "min k (4095 - PIPE_SIZE (inode s i))"
    have n: "0 < n" "n \<le> ?m" using e(1) False pipe_used [OF less.prems] less.prems by (auto simp: pipe_ok_def)
    have "length (pipe_bytes i t) = length (pipe_bytes i s) + n" using b(2) by (simp add: user_bytes_def)
    then have m: "min (k - n) (4095 - PIPE_SIZE (inode t i)) = ?m - n" using less.prems n(2) b(1) by (simp add: pipe_bytes_length)
    from less.IH [OF _ b(1), of "k - n" "w + int n" "u + word_of_nat n", unfolded m] obtain v where v:
      "iterK (write_pipe_round E i) (int (k - n), w + int n, u + word_of_nat n) t =
        iterK (write_pipe_round E i) (int (k - n - (?m - n)), w + int n + int (?m - n), u + word_of_nat n + word_of_nat (?m - n)) v"
      "pipe_ok i v" "pipe_bytes i v = pipe_bytes i t @ user_bytes (u + word_of_nat n) (?m - n) t" "pipe_ends i t v"
      using n by auto
    have u: "user_bytes u ?m s = user_bytes u n s @ user_bytes (u + word_of_nat n) (?m - n) t"
      using user_bytes_split [of u n "?m - n" s] n(2) e(2) by (simp add: user_bytes_def)
    have "iterK (write_pipe_round E i) (int k, w, u) s = iterK (write_pipe_round E i) (int (k - n), w + int n, u + word_of_nat n) t"
      using False n g pipe_used [OF less.prems] by (subst iterK_unfold) (simp add: write_pipe_round_def of_nat_diff)
    moreover have "k - n - (?m - n) = k - ?m" "w + int n + int (?m - n) = w + int ?m" "n + (?m - n) = ?m" using n(2) by simp_all
    ultimately show ?thesis using v u b(2) pipe_ends_trans [OF pipe_ends_run(1) [OF g]] by (intro exI [of _ v]) (simp add: add.assoc flip: of_nat_add)
  qed
qed

lemma read_rounds:
  fixes k :: nat
  assumes "pipe_ok i s"
  defines "m \<equiv> min k (PIPE_SIZE (inode s i))"
  shows "\<exists>t. iterK (read_pipe_round E i) (int k, w, u) s = iterK (read_pipe_round E i) (int (k - m), w + int m, u + word_of_nat m) t \<and>
    pipe_ok i t \<and> pipe_bytes i s = user_bytes u m t @ pipe_bytes i t \<and> pipe_ends i s t \<and>
    (\<forall>a. (\<forall>j < m. a \<noteq> u + word_of_nat j) \<longrightarrow> get_fs_byte a t = get_fs_byte a s)"
  using assms(1) unfolding m_def
proof (induction k arbitrary: w u s rule: less_induct)
  case (less k)
  show ?case
  proof (cases "k = 0 \<or> PIPE_SIZE (inode s i) = 0")
    case True
    then show ?thesis using less.prems by (intro exI [of _ s]) (auto simp: user_bytes_def)
  next
    case False
    obtain n t where g: "pipe_take i u (int k) s = (n, t)" by fastforce
    note e = pipe_take_effect(4,7) [OF less.prems g] and b = take_bytes [OF less.prems g]
    let ?m = "min k (PIPE_SIZE (inode s i))"
    have n: "0 < n" "n \<le> ?m" "?m < 4096" using e(1) False pipe_used [OF less.prems] less.prems by (auto simp: pipe_ok_def)
    have "length (pipe_bytes i s) = n + length (pipe_bytes i t)" using b(2) by (simp add: user_bytes_def)
    then have m: "min (k - n) (PIPE_SIZE (inode t i)) = ?m - n" using less.prems n(2) b(1) by (simp add: pipe_bytes_length)
    from less.IH [OF _ b(1), of "k - n" "w + int n" "u + word_of_nat n", unfolded m] obtain v where v:
      "iterK (read_pipe_round E i) (int (k - n), w + int n, u + word_of_nat n) t =
        iterK (read_pipe_round E i) (int (k - n - (?m - n)), w + int n + int (?m - n), u + word_of_nat n + word_of_nat (?m - n)) v"
      "pipe_ok i v" "pipe_bytes i t = user_bytes (u + word_of_nat n) (?m - n) v @ pipe_bytes i v" "pipe_ends i t v"
      and f: "\<And>a. (\<And>j. j < ?m - n \<Longrightarrow> a \<noteq> u + word_of_nat n + word_of_nat j) \<Longrightarrow> get_fs_byte a v = get_fs_byte a t"
      using n by auto
    have "n + (?m - n) \<le> 4096" using n by simp
    from user_bytes_frame [OF f this] have u: "user_bytes u ?m v = user_bytes u n t @ user_bytes (u + word_of_nat n) (?m - n) v"
      using user_bytes_split [of u n "?m - n" v] n(2) by simp
    have r: "get_fs_byte a v = get_fs_byte a s" if a: "\<forall>j < ?m. a \<noteq> u + word_of_nat j" for a
    proof -
      have "a \<noteq> u + word_of_nat n + word_of_nat j" if "j < ?m - n" for j
      proof -
        have "n + j < ?m" using that by linarith
        from a [rule_format, OF this] show ?thesis by (simp add: add.assoc)
      qed
      moreover have "a \<noteq> u + word_of_nat j" if "j < n" for j using that a n(2) by simp
      ultimately show ?thesis using e(2) f by metis
    qed
    have "iterK (read_pipe_round E i) (int k, w, u) s = iterK (read_pipe_round E i) (int (k - n), w + int n, u + word_of_nat n) t"
      using False n g by (subst iterK_unfold) (simp add: read_pipe_round_def of_nat_diff)
    moreover have "k - n - (?m - n) = k - ?m" "w + int n + int (?m - n) = w + int ?m" "n + (?m - n) = ?m" using n(2) by simp_all
    ultimately show ?thesis using v u r b(2) pipe_ends_trans [OF pipe_ends_run(2) [OF g]] by (intro exI [of _ v]) (simp add: add.assoc flip: of_nat_add)
  qed
qed

lemma write_pipe_all:
  assumes "pipe_ok i s" and "k + PIPE_SIZE (inode s i) \<le> 4095"
  shows "\<exists>t. write_pipe E i u (int k) s = Ok (int k) t \<and> pipe_ok i t \<and> pipe_bytes i t = pipe_bytes i s @ user_bytes u k s"
proof -
  have "min k (4095 - PIPE_SIZE (inode s i)) = k" using assms(2) by simp
  from write_rounds [OF assms(1), where k = k and E = E and w = 0 and u = u, unfolded this] obtain t where t:
    "iterK (write_pipe_round E i) (int k, 0, u) s = iterK (write_pipe_round E i) (0, int k, u + word_of_nat k) t" "pipe_ok i t"
    "pipe_bytes i t = pipe_bytes i s @ user_bytes u k s" by auto
  have "iterK (write_pipe_round E i) (0, int k, u + word_of_nat k) t = Ok (int k) (wake_up (WqInode i) t)"
    by (subst iterK_unfold) (simp add: write_pipe_round_def)
  then show ?thesis using t by (simp add: write_pipe_def)
qed

lemma read_pipe_all:
  assumes "pipe_ok i s" and "k \<le> PIPE_SIZE (inode s i)"
  shows "\<exists>t. read_pipe E i u (int k) s = Ok (int k) t \<and> pipe_ok i t \<and> pipe_bytes i s = user_bytes u k t @ pipe_bytes i t"
proof -
  have "min k (PIPE_SIZE (inode s i)) = k" using assms(2) by simp
  from read_rounds [OF assms(1), where k = k and E = E and w = 0 and u = u, unfolded this] obtain t where t:
    "iterK (read_pipe_round E i) (int k, 0, u) s = iterK (read_pipe_round E i) (0, int k, u + word_of_nat k) t" "pipe_ok i t"
    "pipe_bytes i s = user_bytes u k t @ pipe_bytes i t" by auto
  have "iterK (read_pipe_round E i) (0, int k, u + word_of_nat k) t = Ok (int k) (wake_up (WqInode i) t)"
    by (subst iterK_unfold) (simp add: read_pipe_round_def)
  moreover have "user_bytes u k (wake_up (WqInode i) t) = user_bytes u k t" by (simp add: user_bytes_def)
  ultimately show ?thesis using t by (simp add: read_pipe_def)
qed

lemma empty_pipe: "pipe_ok i s \<Longrightarrow> PIPE_HEAD (inode s i) = PIPE_TAIL (inode s i) \<Longrightarrow> PIPE_SIZE (inode s i) = 0 \<and> pipe_bytes i s = []"
  by (simp add: PIPE_SIZE_def pipe_bytes_def ring_contents_def ring_used_def)

text \<open>
  C29. Writing up to 4095 bytes to an empty pipe returns their number without waiting, and a reader that then asks for as many, with its own
  memory in user space, gets exactly these bytes and leaves the pipe empty, wherever in the page head and tail stood.
\<close>

theorem pipe_roundtrip:
  assumes "pipe_ok i s" and "PIPE_HEAD (inode s i) = PIPE_TAIL (inode s i)" and "n \<le> 4095"
  shows "\<exists>t. write_pipe E i u (int n) s = Ok (int n) t \<and>
    (\<exists>r. read_pipe E i v (int n) (t\<lparr>fs_mem := m\<rparr>) = Ok (int n) r \<and> user_bytes v n r = user_bytes u n s \<and> pipe_bytes i r = [])"
proof -
  note e = empty_pipe [OF assms(1,2)]
  obtain t where t: "write_pipe E i u (int n) s = Ok (int n) t" "pipe_ok i t" "pipe_bytes i t = user_bytes u n s"
    using write_pipe_all [OF assms(1), of n E u] e assms(3) by auto
  let ?t = "t\<lparr>fs_mem := m\<rparr>"
  have b: "pipe_ok i ?t" "pipe_bytes i ?t = user_bytes u n s" using t by simp_all
  then have "n \<le> PIPE_SIZE (inode ?t i)" using pipe_bytes_length [OF b(1)] by (simp add: user_bytes_def)
  from read_pipe_all [OF b(1) this, of E v] obtain r where r: "read_pipe E i v (int n) ?t = Ok (int n) r" "user_bytes u n s = user_bytes v n r @ pipe_bytes i r"
    unfolding b(2) by auto
  have "length (user_bytes u n s) = length (user_bytes v n r)" by (simp add: user_bytes_def)
  then have "user_bytes v n r = user_bytes u n s \<and> pipe_bytes i r = []" using r(2) by simp
  then show ?thesis using t(1) r(1) by blast
qed

theorem pipe_roundtrip_witness:
  "\<exists>t r. write_pipe idle_ctx 3 100 (int 4000) a_pipe = Ok 4000 t \<and> read_pipe idle_ctx 3 8000 (int 4000) (t\<lparr>fs_mem := (\<lambda>_. 7)\<rparr>) = Ok 4000 r \<and>
    user_bytes 8000 4000 r = user_bytes 100 4000 a_pipe"
  using pipe_roundtrip [OF a_pipe_empty(1), of 4000 idle_ctx 100 8000 "\<lambda>_. 7"] by (auto simp: a_pipe_empty)

text \<open>
  C30. A pipe whose other end is closed never blocks. A reader that asks for more than the pipe holds gets what is there, which is 0 bytes,
  the end of the file, for an empty pipe. A writer that does not fit fills the pipe to 4095 bytes and gets their number, or -1 when there was
  no room at all, with the signal SIGPIPE pending in both cases.
\<close>

theorem pipe_closed_end:
  assumes "pipe_ok i s" and "i_count (inode s i) \<noteq> 2" and "cur_ok s"
  shows "(PIPE_SIZE (inode s i) < k \<longrightarrow>
      (\<exists>t. read_pipe E i u (int k) s = Ok (int (PIPE_SIZE (inode s i))) t \<and> user_bytes u (PIPE_SIZE (inode s i)) t = pipe_bytes i s \<and> pipe_bytes i t = [])) \<and>
    (4095 < k + PIPE_SIZE (inode s i) \<longrightarrow>
      (\<exists>t. write_pipe E i u (int k) s = Ok (if PIPE_SIZE (inode s i) = 4095 then - 1 else int (4095 - PIPE_SIZE (inode s i))) t \<and>
        pipe_bytes i t = pipe_bytes i s @ user_bytes u (4095 - PIPE_SIZE (inode s i)) s \<and> bit (t_signal (cur t)) 12))"
proof (intro conjI impI)
  let ?n = "PIPE_SIZE (inode s i)"
  assume k: "?n < k"
  then have "min k ?n = ?n" by simp
  from read_rounds [OF assms(1), where k = k and E = E and w = 0 and u = u, unfolded this] obtain t where t:
    "read_pipe E i u (int k) s = iterK (read_pipe_round E i) (int (k - ?n), int ?n, u + word_of_nat ?n) t" "pipe_ok i t"
    "pipe_bytes i s = user_bytes u ?n t @ pipe_bytes i t" "pipe_ends i s t" by (auto simp: read_pipe_def)
  have e: "PIPE_SIZE (inode t i) = 0" "pipe_bytes i t = []"
    using arg_cong [OF t(3), of length] pipe_bytes_length [OF assms(1)] pipe_bytes_length [OF t(2)] by (simp_all add: user_bytes_def)
  have "iterK (read_pipe_round E i) (int (k - ?n), int ?n, u + word_of_nat ?n) t = Ok (int ?n) (wake_up (WqInode i) t)"
    using k e(1) t(4) assms(2) by (subst iterK_unfold) (simp add: read_pipe_round_def pipe_ends_def)
  moreover have "user_bytes u ?n (wake_up (WqInode i) t) = user_bytes u ?n t" by (simp add: user_bytes_def)
  ultimately show "\<exists>t. read_pipe E i u (int k) s = Ok (int ?n) t \<and> user_bytes u ?n t = pipe_bytes i s \<and> pipe_bytes i t = []"
    using t(1,3) e(2) by simp
next
  let ?n = "PIPE_SIZE (inode s i)"
  let ?m = "4095 - ?n"
  assume k: "4095 < k + ?n"
  then have "min k ?m = ?m" by simp
  from write_rounds [OF assms(1), where k = k and E = E and w = 0 and u = u, unfolded this] obtain t where t:
    "write_pipe E i u (int k) s = iterK (write_pipe_round E i) (int (k - ?m), int ?m, u + word_of_nat ?m) t" "pipe_ok i t"
    "pipe_bytes i t = pipe_bytes i s @ user_bytes u ?m s" "pipe_ends i s t" by (auto simp: write_pipe_def)
  let ?w = "upd_cur (\<lambda>t. t\<lparr>t_signal := t_signal t OR sig_bit 13\<rparr>) (wake_up (WqInode i) t)"
  have n: "?n < 4096" using pipe_used [OF assms(1)] by simp
  then have e: "PIPE_SIZE (inode t i) = 4095"
    using arg_cong [OF t(3), of length] pipe_bytes_length [OF assms(1)] pipe_bytes_length [OF t(2)] by (simp add: user_bytes_def)
  have "iterK (write_pipe_round E i) (int (k - ?m), int ?m, u + word_of_nat ?m) t = Ok (if ?n = 4095 then - 1 else int ?m) ?w"
    using k n e t(4) assms(2) by (subst iterK_unfold) (auto simp: write_pipe_round_def pipe_ends_def)
  moreover have "bit (t_signal (cur ?w)) 12" using t(4) assms(3) by (simp add: pipe_ends_def SIGPIPE_bit bit_or_iff)
  ultimately show "\<exists>t. write_pipe E i u (int k) s = Ok (if ?n = 4095 then - 1 else int ?m) t \<and>
      pipe_bytes i t = pipe_bytes i s @ user_bytes u ?m s \<and> bit (t_signal (cur t)) 12"
    using t(1,3) by (intro exI [of _ ?w]) (simp del: of_nat_diff)
qed

theorem pipe_closed_end_witness:
  "(\<exists>t. read_pipe idle_ctx 3 200 (int 5) a_pipe = Ok 0 t) \<and> (\<exists>t. write_pipe idle_ctx 3 200 (int 5000) a_pipe = Ok 4095 t \<and> bit (t_signal (cur t)) 12)"
proof -
  have "cur_ok a_pipe" by (simp add: a_pipe_def cur_ok_def upd_inode_def mm_empty_def sched_boot_def sched_st.defs)
  then show ?thesis
    using pipe_closed_end [OF a_pipe_empty(1), of 5 idle_ctx 200] pipe_closed_end [OF a_pipe_empty(1), of 5000 idle_ctx 200] by (auto simp: a_pipe_empty)
qed

end
