(* ===== verification/Fork_Exec.thy ===== *)
theory Fork_Exec
  imports Pipe_Fifo Open_Files
begin

unbundle bit_operations_syntax

section \<open>Creating, replacing and ending processes\<close>

text \<open>
  \<^verbatim>\<open>copy_process\<close> of \<^verbatim>\<open>kernel/fork.c\<close>, \<^verbatim>\<open>do_exit\<close> and \<^verbatim>\<open>sys_exit\<close> of \<^verbatim>\<open>kernel/exit.c\<close>, the demand loading of
  \<^verbatim>\<open>mm/memory.c\<close> and all of \<^verbatim>\<open>fs/exec.c\<close>: the calls that use the file system, the memory management and the task table together.
  \<^item> \<open>gdt\<close> is the global descriptor table. \<^verbatim>\<open>&p->tss\<close> and \<^verbatim>\<open>&p->ldt\<close> are 744 and 720 bytes into the page of the task.
  \<^item> The arguments of \<^verbatim>\<open>copy_process\<close> that the system call entry pushes are the record \<open>fork_regs\<close>. The i387 state is left out.
  \<^item> What the \<^verbatim>\<open>fs\<close> segment games of \<^verbatim>\<open>copy_strings\<close> select is passed as two functions: \<open>arg k\<close> fetches the pointer to
    string \<open>k\<close> and \<open>rd\<close> a byte of a string. Kernel strings lie at the fixed address \<open>exec_buf\<close>, which no result depends on.
  \<^item> After \<^verbatim>\<open>change_ldt\<close> the \<^verbatim>\<open>fs\<close> segment shows the new address space: the argument pages at its top, and elsewhere
    what demand loading supplies, the argument \<open>img\<close>.
\<close>

abbreviation (input) ENOEXEC :: int where "ENOEXEC \<equiv> 8"
abbreviation (input) S_ISUID :: u16 where "S_ISUID \<equiv> 0x800"
abbreviation (input) S_ISGID :: u16 where "S_ISGID \<equiv> 0x400"
abbreviation (input) MAX_ARG_PAGES :: nat where "MAX_ARG_PAGES \<equiv> 32"
abbreviation (input) ZMAGIC :: u32 where "ZMAGIC \<equiv> 267"

record exec_st = fs_st +
  gdt :: "nat \<Rightarrow> desc_struct"

subsection \<open>Demand loading\<close>

definition share_page :: "u32 \<Rightarrow> 'z fs_st_scheme \<Rightarrow> (bool, 'z fs_st_scheme) outcome" where
  "share_page address s =
     (case t_executable (cur s) of
        None \<Rightarrow> Ok False s
      | Some x \<Rightarrow>
          if i_count (inode s x) < 2 then Ok False s
          else iterK (\<lambda>ps s.
            case ps of
              [] \<Rightarrow> Ok (Inr False) s
            | p # ps \<Rightarrow>
                (case task s p of
                   None \<Rightarrow> Ok (Inl ps) s
                 | Some t \<Rightarrow>
                     if p = current s \<or> t_executable t \<noteq> t_executable (cur s) then Ok (Inl ps) s
                     else bindK (try_to_share address t s) (\<lambda>r s. Ok (if r \<noteq> 0 then Inr True else Inl ps) s))) task_order s)"

definition do_no_page :: "('z fs_st_scheme) ctx \<Rightarrow> u32 \<Rightarrow> u32 \<Rightarrow> 'z fs_st_scheme \<Rightarrow> (unit, 'z fs_st_scheme) outcome" where
  "do_no_page E error_code address s =
     (let address = address AND 0xfffff000; tmp = address - t_start_code (cur s)
      in case t_executable (cur s) of
           None \<Rightarrow> get_empty_page address s
         | Some x \<Rightarrow>
             if tmp \<ge> t_end_data (cur s) then get_empty_page address s
             else bindK (share_page tmp s) (\<lambda>shared s.
               if shared then Ok () s
               else let (page, s) = get_free_page s
                    in if page = 0 then oom s
                       else bindK (iterK (\<lambda>nr s.
                              if length nr = 4 then Ok (Inr nr) s
                              else bindK (bmap E x (1 + uint (tmp div 1024) + int (length nr)) s) (\<lambda>b s. Ok (Inl (nr @ [ucast b])) s)) [] s) (\<lambda>nr s.
                            bindK (bread_page E page (i_dev (inode s x)) (\<lambda>k. nr ! k) s) (\<lambda>_ s.
                            let i = nat (sint (tmp + 4096 - t_end_data (cur s)));
                                s = fold (\<lambda>k. poke_byte (page + 4096 - word_of_nat (k + 1)) 0) [0..<i] s;
                                (r, s) = put_page page address s
                            in if r \<noteq> 0 then Ok () s else bindK (free_page page s) (\<lambda>_ s. oom s)))))"

subsection \<open>fork\<close>

definition set_tssldt_desc :: "nat \<Rightarrow> u32 \<Rightarrow> u32 \<Rightarrow> 'z exec_st_scheme \<Rightarrow> 'z exec_st_scheme" where
  "set_tssldt_desc n addr type s = s\<lparr>gdt := (gdt s)(n :=
     \<lparr>desc_a = push_bit 16 addr OR 104,
      desc_b = (addr AND 0xff000000) OR push_bit 8 type OR (drop_bit 16 addr AND 0xff)\<rparr>)\<rparr>"

abbreviation (input) FIRST_TSS_ENTRY :: nat where "FIRST_TSS_ENTRY \<equiv> 4"
abbreviation (input) FIRST_LDT_ENTRY :: nat where "FIRST_LDT_ENTRY \<equiv> 5"

definition LDT_sel :: "nat \<Rightarrow> u32" where
  "LDT_sel n = push_bit 4 (word_of_nat n) + push_bit 3 5"

record fork_regs =
  rg_ebp :: u32
  rg_edi :: u32
  rg_esi :: u32
  rg_gs :: u32
  rg_ebx :: u32
  rg_ecx :: u32
  rg_edx :: u32
  rg_fs :: u32
  rg_es :: u32
  rg_ds :: u32
  rg_eip :: u32
  rg_cs :: u32
  rg_eflags :: u32
  rg_esp :: u32
  rg_ss :: u32

definition new_task :: "nat \<Rightarrow> fork_regs \<Rightarrow> u32 \<Rightarrow> 'z sched_st_scheme \<Rightarrow> task_struct" where
  "new_task nr r p s =
     (let c = cur s in c\<lparr>t_state := TASK_UNINTERRUPTIBLE, t_pid := last_pid s, t_father := t_pid c, t_counter := t_priority c,
        t_signal := 0, t_alarm := 0, t_leader := 0, t_utime := 0, t_stime := 0, t_cutime := 0, t_cstime := 0, t_start_time := jiffies s,
        t_tss := \<lparr>tss_back_link = 0, tss_esp0 = 4096 + p, tss_ss0 = 0x10, tss_eip = rg_eip r, tss_eflags = rg_eflags r, tss_eax = 0,
          tss_ecx = rg_ecx r, tss_edx = rg_edx r, tss_ebx = rg_ebx r, tss_esp = rg_esp r, tss_ebp = rg_ebp r, tss_esi = rg_esi r, tss_edi = rg_edi r,
          tss_es = rg_es r AND 0xffff, tss_cs = rg_cs r AND 0xffff, tss_ss = rg_ss r AND 0xffff, tss_ds = rg_ds r AND 0xffff,
          tss_fs = rg_fs r AND 0xffff, tss_gs = rg_gs r AND 0xffff, tss_ldt = LDT_sel nr, tss_trace_bitmap = 0x80000000\<rparr>\<rparr>)"

definition hold_inode :: "nat option \<Rightarrow> 'z fs_st_scheme \<Rightarrow> 'z fs_st_scheme" where
  "hold_inode i s = (case i of None \<Rightarrow> s | Some i \<Rightarrow> upd_inode i (i_count_update (\<lambda>c. c + 1)) s)"

definition share_files :: "nat \<Rightarrow> 'z fs_st_scheme \<Rightarrow> 'z fs_st_scheme" where
  "share_files nr s = fold (\<lambda>i s.
     case t_filp (the (task s nr)) i of None \<Rightarrow> s | Some f \<Rightarrow> upd_file f (f_count_update (\<lambda>c. c + 1)) s) [0..<NR_OPEN] s"

definition copy_process :: "nat \<Rightarrow> fork_regs \<Rightarrow> 'z exec_st_scheme \<Rightarrow> (int, 'z exec_st_scheme) outcome" where
  "copy_process nr r s =
     (let (p, s) = get_free_page s
      in if p = 0 then Ok (- EAGAIN) s
         else let s = s\<lparr>task := (task s)(nr \<mapsto> new_task nr r p s), task_page := (task_page s)(nr := p)\<rparr>
              in bindK (copy_mem nr s) (\<lambda>e s.
                 if e \<noteq> 0 then bindK (free_page p (s\<lparr>task := (task s)(nr := None)\<rparr>)) (\<lambda>_ s. Ok (- EAGAIN) s)
                 else let s = share_files nr s;
                          s = hold_inode (t_executable (cur s)) (hold_inode (t_root (cur s)) (hold_inode (t_pwd (cur s)) s));
                          s = set_tssldt_desc (2 * nr + FIRST_TSS_ENTRY) (p + 744) 0x89 s;
                          s = set_tssldt_desc (2 * nr + FIRST_LDT_ENTRY) (p + 720) 0x82 s
                      in Ok (last_pid s) (upd_task nr (t_state_update (\<lambda>_. TASK_RUNNING)) s)))"

subsection \<open>exit\<close>

definition free_segments :: "'z mm_st_scheme \<Rightarrow> (unit, 'z mm_st_scheme) outcome" where
  "free_segments s =
     bindK (free_page_tables (get_base (t_ldt (cur s) 1)) (get_limit (t_ldt (cur s) 1)) s) (\<lambda>_ s.
     bindK (free_page_tables (get_base (t_ldt (cur s) 2)) (get_limit (t_ldt (cur s) 2)) s) (\<lambda>_ s. Ok () s))"

definition adopt_children :: "'z sched_st_scheme \<Rightarrow> 'z sched_st_scheme" where
  "adopt_children s = fold (\<lambda>i s.
     case task s i of
       None \<Rightarrow> s
     | Some t \<Rightarrow>
         if t_father t = t_pid (cur s)
         then let s = upd_task i (t_father_update (\<lambda>_. 1)) s
              in if t_state t = TASK_ZOMBIE then snd (send_sig (int SIGCHLD) 1 True s) else s
         else s) [0..<NR_TASKS] s"

definition forget_math :: "'z sched_st_scheme \<Rightarrow> 'z sched_st_scheme" where
  "forget_math s = (if last_task_used_math s = Some (current s) then s\<lparr>last_task_used_math := None\<rparr> else s)"

definition do_exit :: "('z fs_st_scheme) ctx \<Rightarrow> int \<Rightarrow> 'z fs_st_scheme \<Rightarrow> (int, 'z fs_st_scheme) outcome" where
  "do_exit E code s =
     bindK (free_segments s) (\<lambda>_ s.
     bindK (forK [0..<NR_OPEN] (\<lambda>i s.
       if t_filp (cur s) i \<noteq> None then bindK (sys_close E i s) (\<lambda>_ s. Ok () s) else Ok () s) (adopt_children s)) (\<lambda>_ s.
     bindK (iput E (t_pwd (cur s)) s) (\<lambda>_ s.
     let s = upd_cur (t_pwd_update (\<lambda>_. None)) s in
     bindK (iput E (t_root (cur s)) s) (\<lambda>_ s.
     let s = upd_cur (t_root_update (\<lambda>_. None)) s in
     bindK (iput E (t_executable (cur s)) s) (\<lambda>_ s.
     let s = upd_cur (t_executable_update (\<lambda>_. None)) s;
         s = (if t_leader (cur s) \<noteq> 0 \<and> t_tty (cur s) \<ge> 0 then s\<lparr>tty_pgrp := (tty_pgrp s)(nat (t_tty (cur s)) := 0)\<rparr> else s);
         s = forget_math s;
         s = (if t_leader (cur s) \<noteq> 0 then kill_session s else s);
         s = upd_cur (\<lambda>t. t\<lparr>t_state := TASK_ZOMBIE, t_exit_code := code\<rparr>) s
     in bindK (tell_father (c_env E) (t_father (cur s)) s) (\<lambda>_ s.
        bindK (yield (c_env E) s) (\<lambda>_ s. Ok (- 1) s)))))))"

definition sys_exit :: "('z fs_st_scheme) ctx \<Rightarrow> int \<Rightarrow> 'z fs_st_scheme \<Rightarrow> (int, 'z fs_st_scheme) outcome" where
  "sys_exit E error_code = do_exit E (256 * (error_code mod 256))"

subsection \<open>execve\<close>

text \<open>\<^verbatim>\<open>while (get_fs_byte(p++)) ;\<close>: the address behind the string at \<open>p\<close>.\<close>

definition skip_string :: "(u32 \<Rightarrow> 's \<Rightarrow> u8) \<Rightarrow> u32 \<Rightarrow> 's \<Rightarrow> (u32, 's) outcome" where
  "skip_string rd p s = iterK (\<lambda>p s. if rd p s \<noteq> 0 then Ok (Inl (p + 1)) s else Ok (Inr (p + 1)) s) p s"

primrec put_pointers :: "nat \<Rightarrow> u32 \<Rightarrow> u32 \<Rightarrow> 'z sched_st_scheme \<Rightarrow> (u32, 'z sched_st_scheme) outcome" where
  "put_pointers 0 p tab s = Ok p (put_fs_long 0 tab s)"
| "put_pointers (Suc n) p tab s =
     bindK (skip_string get_fs_byte p (put_fs_long p tab s)) (\<lambda>p s. put_pointers n p (tab + 4) s)"

definition create_tables :: "u32 \<Rightarrow> nat \<Rightarrow> nat \<Rightarrow> 'z sched_st_scheme \<Rightarrow> (u32, 'z sched_st_scheme) outcome" where
  "create_tables p argc envc s =
     (let sp = 0xfffffffc AND p;
          envp = sp - 4 * (word_of_nat envc + 1);
          argv = envp - 4 * (word_of_nat argc + 1);
          s = put_fs_long envp (argv - 4) s;
          s = put_fs_long argv (argv - 8) s;
          s = put_fs_long (word_of_nat argc) (argv - 12) s
      in bindK (put_pointers argc p argv s) (\<lambda>p s.
         bindK (put_pointers envc p envp s) (\<lambda>_ s. Ok (argv - 12) s)))"

definition count_args :: "u32 \<Rightarrow> 'z sched_st_scheme \<Rightarrow> (nat, 'z sched_st_scheme) outcome" where
  "count_args argv s =
     (if argv = 0 then Ok 0 s
      else iterK (\<lambda>i s. if get_fs_long (argv + 4 * word_of_nat i) s \<noteq> 0 then Ok (Inl (i + 1)) s else Ok (Inr i) s) 0 s)"

text \<open>
  The loop variables of \<^verbatim>\<open>copy_strings\<close>; \<open>cs_page\<close> is the caller's array \<^verbatim>\<open>page\<close>. \<open>copy_chars n\<close> is the loop \<^verbatim>\<open>while (len)\<close>, which
  ends with \<open>False\<close> at \<^verbatim>\<open>return 0\<close>; \<open>copy_args\<close> is the outer loop.
\<close>

record copy_st =
  cs_p :: u32
  cs_tmp :: u32
  cs_offset :: int
  cs_pag :: u32
  cs_page :: "nat \<Rightarrow> u32"

definition page_for :: "copy_st \<Rightarrow> 'z mm_st_scheme \<Rightarrow> (copy_st, 'z mm_st_scheme) outcome" where
  "page_for c s =
     (let k = unat (cs_p c div 4096); c = c\<lparr>cs_offset := uint (cs_p c mod 4096)\<rparr>
      in if k \<ge> MAX_ARG_PAGES then UB
         else if cs_page c k \<noteq> 0 then Ok (c\<lparr>cs_pag := cs_page c k\<rparr>) s
         else let (q, s) = get_free_page s in Ok (c\<lparr>cs_pag := q, cs_page := (cs_page c)(k := q)\<rparr>) s)"

primrec copy_chars :: "(u32 \<Rightarrow> 'z mm_st_scheme \<Rightarrow> u8) \<Rightarrow> nat \<Rightarrow> copy_st \<Rightarrow> 'z mm_st_scheme \<Rightarrow> (copy_st \<times> bool, 'z mm_st_scheme) outcome" where
  "copy_chars rd 0 c s = Ok (c, True) s"
| "copy_chars rd (Suc len) c s =
     (let c = c\<lparr>cs_p := cs_p c - 1, cs_tmp := cs_tmp c - 1, cs_offset := cs_offset c - 1\<rparr>
      in bindK (if cs_offset c < 0 then page_for c s else Ok c s) (\<lambda>c s.
         if cs_pag c = 0 then Ok (c, False) s
         else copy_chars rd len c (poke_byte (cs_pag c + word_of_int (cs_offset c)) (rd (cs_tmp c) s) s)))"

primrec copy_args :: "(nat \<Rightarrow> 'z mm_st_scheme \<Rightarrow> u32) \<Rightarrow> (u32 \<Rightarrow> 'z mm_st_scheme \<Rightarrow> u8) \<Rightarrow> nat \<Rightarrow> copy_st \<Rightarrow> 'z mm_st_scheme \<Rightarrow>
    (u32 \<times> (nat \<Rightarrow> u32), 'z mm_st_scheme) outcome" where
  "copy_args arg rd 0 c s = Ok (cs_p c, cs_page c) s"
| "copy_args arg rd (Suc argc) c s =
     (let tmp = arg argc s
      in if tmp = 0 then Panic ''argc is wrong''
         else bindK (skip_string rd tmp s) (\<lambda>stop s.
           let len = stop - tmp
           in if uint (cs_p c - len) < 0 then Ok (0, cs_page c) s
              else bindK (copy_chars rd (unat len) (c\<lparr>cs_tmp := stop\<rparr>) s) (\<lambda>(c, ok) s.
                   if ok then copy_args arg rd argc c s else Ok (0, cs_page c) s)))"

definition copy_strings :: "nat \<Rightarrow> (nat \<Rightarrow> 'z mm_st_scheme \<Rightarrow> u32) \<Rightarrow> (u32 \<Rightarrow> 'z mm_st_scheme \<Rightarrow> u8) \<Rightarrow> (nat \<Rightarrow> u32) \<Rightarrow> u32 \<Rightarrow> 'z mm_st_scheme \<Rightarrow>
    (u32 \<times> (nat \<Rightarrow> u32), 'z mm_st_scheme) outcome" where
  "copy_strings argc arg rd page p s =
     (if p = 0 then Ok (0, page) s
      else copy_args arg rd argc \<lparr>cs_p = p, cs_tmp = 0, cs_offset = 0, cs_pag = 0, cs_page = page\<rparr> s)"

definition user_arg :: "u32 \<Rightarrow> nat \<Rightarrow> 'z sched_st_scheme \<Rightarrow> u32" where
  "user_arg argv k s = get_fs_long (argv + 4 * word_of_nat k) s"

definition exec_buf :: u32 where "exec_buf = 0x1000"

definition kernel_byte :: "u8 list \<Rightarrow> u32 \<Rightarrow> u8" where
  "kernel_byte str a = (let k = unat (a - exec_buf) in if k < length str then str ! k else 0)"

definition set_limit :: "u32 \<Rightarrow> desc_struct \<Rightarrow> desc_struct" where
  "set_limit limit d =
     (let l = drop_bit 12 (limit - 1)
      in \<lparr>desc_a = (desc_a d AND 0xffff0000) OR (l AND 0xffff),
          desc_b = (desc_b d AND 0xff00ffff) OR push_bit 16 ((drop_bit 16 l AND 0xff) OR (drop_bit 16 (desc_b d) AND 0xf0))\<rparr>)"

text \<open>The user space after \<^verbatim>\<open>change_ldt\<close>.\<close>

definition new_space :: "(u32 \<Rightarrow> u8) \<Rightarrow> (nat \<Rightarrow> u32) \<Rightarrow> 'z mm_st_scheme \<Rightarrow> u32 \<Rightarrow> u8" where
  "new_space img page s a =
     (let k = unat ((a - 0x3fe0000) div 4096)
      in if 0x3fe0000 \<le> a \<and> k < MAX_ARG_PAGES \<and> page k \<noteq> 0 then phys_byte (page k + (a AND 0xfff)) s else img a)"

definition change_ldt :: "(u32 \<Rightarrow> u8) \<Rightarrow> u32 \<Rightarrow> (nat \<Rightarrow> u32) \<Rightarrow> 'z mm_st_scheme \<Rightarrow> u32 \<times> 'z mm_st_scheme" where
  "change_ldt img text_size page s =
     (let code_limit = (text_size + 4096 - 1) AND 0xfffff000; data_limit = 0x4000000;
          code_base = get_base (t_ldt (cur s) 1); data_base = code_base;
          s = upd_cur (\<lambda>t. t\<lparr>t_ldt := (t_ldt t)(1 := set_limit code_limit (set_base code_base (t_ldt t 1)),
                                             2 := set_limit data_limit (set_base data_base (t_ldt t 2)))\<rparr>) s;
          s = s\<lparr>fs_mem := new_space img page s\<rparr>;
          s = fold (\<lambda>i s. if page i \<noteq> 0 then snd (put_page (page i) (data_base + data_limit - 4096 * word_of_nat (MAX_ARG_PAGES - i)) s) else s)
                (rev [0..<MAX_ARG_PAGES]) s
      in (data_limit, s))"

record exec_hdr =
  a_magic :: u32
  a_text :: u32
  a_data :: u32
  a_bss :: u32
  a_syms :: u32
  a_entry :: u32
  a_trsize :: u32
  a_drsize :: u32

definition get_exec :: "block \<Rightarrow> exec_hdr" where
  "get_exec d = \<lparr>a_magic = get32 d 0, a_text = get32 d 4, a_data = get32 d 8, a_bss = get32 d 12, a_syms = get32 d 16,
     a_entry = get32 d 20, a_trsize = get32 d 24, a_drsize = get32 d 28\<rparr>"

definition N_TXTOFF :: "exec_hdr \<Rightarrow> u32" where
  "N_TXTOFF x = (if a_magic x = ZMAGIC then 1024 else 32)"

definition bad_exec :: "exec_hdr \<Rightarrow> u32 \<Rightarrow> bool" where
  "bad_exec ex sz \<longleftrightarrow> a_magic ex \<noteq> ZMAGIC \<or> a_trsize ex \<noteq> 0 \<or> a_drsize ex \<noteq> 0 \<or> a_text ex + a_data ex + a_bss ex > 0x3000000 \<or>
     sz < a_text ex + a_data ex + a_syms ex + N_TXTOFF ex"

text \<open>
  The line after \<^verbatim>\<open>#!\<close>: the interpreter, its name without the directories, and its argument. There is no interpreter in a block without
  a newline and in one whose line is blank.
\<close>

definition blank :: "u8 \<Rightarrow> bool" where
  "blank c \<longleftrightarrow> c = 32 \<or> c = 9"

fun last_name :: "u8 list \<Rightarrow> u8 list \<Rightarrow> u8 list" where
  "last_name name [] = name"
| "last_name name (c # cs) = last_name (if c = 47 then cs else name) cs"

definition parse_interp :: "block \<Rightarrow> (u8 list \<times> u8 list \<times> u8 list option) option" where
  "parse_interp d =
     (let buf = takeWhile (\<lambda>c. c \<noteq> 0) (block_bytes d 2 1022)
      in if 10 \<notin> set buf then None
         else let cp = dropWhile blank (takeWhile (\<lambda>c. c \<noteq> 10) buf); interp = takeWhile (\<lambda>c. \<not> blank c) cp; rest = dropWhile (\<lambda>c. \<not> blank c) cp
              in if cp = [] then None
                 else Some (interp, last_name interp interp, if rest = [] then None else Some (tl rest)))"

definition exec_allowed :: "m_inode \<Rightarrow> 'z sched_st_scheme \<Rightarrow> bool" where
  "exec_allowed n s \<longleftrightarrow>
     (let i = (if t_euid (cur s) = i_uid n then drop_bit 6 (i_mode n)
               else if t_egid (cur s) = ucast (i_gid n) then drop_bit 3 (i_mode n) else i_mode n)
      in bit i 0 \<or> i_mode n AND 0x49 \<noteq> 0 \<and> suser s)"

definition exec_error :: "('z fs_st_scheme) ctx \<Rightarrow> int \<Rightarrow> nat option \<Rightarrow> (nat \<Rightarrow> u32) \<Rightarrow> 'z fs_st_scheme \<Rightarrow>
    ('a + int \<times> (u32 \<times> u32) option, 'z fs_st_scheme) outcome" where
  "exec_error E retval i page s =
     bindK (iput E i s) (\<lambda>_ s. bindK (forK [0..<MAX_ARG_PAGES] (\<lambda>k. free_page (page k)) s) (\<lambda>_ s. Ok (Inr (retval, None)) s))"

text \<open>
  One round from \<^verbatim>\<open>restart_interp\<close> on; \<open>Inl\<close> goes back to this label with the interpreter's inode. The result is the return value and, after
  success, the new \<^verbatim>\<open>eip[0]\<close> and \<^verbatim>\<open>eip[3]\<close>.
\<close>

record exec_args =
  x_sh_bang :: bool
  x_argc :: int
  x_p :: u32
  x_page :: "nat \<Rightarrow> u32"
  x_inode :: nat

definition splice_interp :: "('z fs_st_scheme) ctx \<Rightarrow> u32 \<Rightarrow> u32 \<Rightarrow> u32 \<Rightarrow> nat \<Rightarrow> u8 list \<times> u8 list \<times> u8 list option \<Rightarrow> exec_args \<Rightarrow> 'z fs_st_scheme \<Rightarrow>
    (exec_args + int \<times> (u32 \<times> u32) option, 'z fs_st_scheme) outcome" where
  "splice_interp E filename argv envp envc line x s =
     (case line of (interp, i_name, i_arg) \<Rightarrow>
        let copy_kernel = (\<lambda>str (p, page). copy_strings 1 (\<lambda>_ _. exec_buf) (\<lambda>a _. kernel_byte str a) page p) in
        bindK (copy_strings envc (user_arg envp) get_fs_byte (x_page x) (x_p x) s) (\<lambda>(p, page) s.
        bindK (copy_strings (nat (x_argc x - 1)) (user_arg (argv + 4)) get_fs_byte page p s) (\<lambda>(p, page) s.
        bindK (copy_strings 1 (\<lambda>_ _. filename) get_fs_byte page p s) (\<lambda>(p, page) s.
        bindK (case i_arg of None \<Rightarrow> Ok (p, page) s | Some str \<Rightarrow> copy_kernel str (p, page) s) (\<lambda>(p, page) s.
        bindK (copy_kernel i_name (p, page) s) (\<lambda>(p, page) s.
        let argc = x_argc x - 1 + (if i_arg = None then 2 else 3)
        in if p = 0 then exec_error E (- ENOMEM) None page s
           else let user = fs_mem s
                in bindK (namei E exec_buf (s\<lparr>fs_mem := kernel_byte interp\<rparr>)) (\<lambda>i s.
                   let s = s\<lparr>fs_mem := user\<rparr>
                   in case i of
                        None \<Rightarrow> exec_error E (- ENOENT) None page s
                      | Some i \<Rightarrow> Ok (Inl \<lparr>x_sh_bang = True, x_argc = argc, x_p = p, x_page = page, x_inode = i\<rparr>) s)))))))"

definition close_on_exec_files :: "('z fs_st_scheme) ctx \<Rightarrow> 'z fs_st_scheme \<Rightarrow> (unit, 'z fs_st_scheme) outcome" where
  "close_on_exec_files E s = forK [0..<NR_OPEN] (\<lambda>i s.
     if bit (t_close_on_exec (cur s)) i then bindK (sys_close E i s) (\<lambda>_ s. Ok () s) else Ok () s) s"

definition clear_tail :: "u32 \<Rightarrow> 'z sched_st_scheme \<Rightarrow> 'z sched_st_scheme" where
  "clear_tail i s = fold (\<lambda>k. put_fs_byte 0 (i + word_of_nat k)) [0..<(4096 - unat (i AND 0xfff)) mod 4096] s"

definition start_image :: "('z fs_st_scheme) ctx \<Rightarrow> (u32 \<Rightarrow> u8) \<Rightarrow> exec_hdr \<Rightarrow> u16 \<times> u16 \<Rightarrow> nat \<Rightarrow> exec_args \<Rightarrow> 'z fs_st_scheme \<Rightarrow>
    (exec_args + int \<times> (u32 \<times> u32) option, 'z fs_st_scheme) outcome" where
  "start_image E img ex ids envc x s =
     bindK (iput E (t_executable (cur s)) s) (\<lambda>_ s.
     let s = upd_cur (\<lambda>t. t\<lparr>t_executable := Some (x_inode x),
           t_sigaction := (\<lambda>i. if i < 32 then (t_sigaction t i)\<lparr>sa_handler := 0\<rparr> else t_sigaction t i)\<rparr>) s in
     bindK (close_on_exec_files E s) (\<lambda>_ s.
     bindK (free_segments (upd_cur (t_close_on_exec_update (\<lambda>_. 0)) s)) (\<lambda>_ s.
     let s = upd_cur (t_used_math_update (\<lambda>_. 0)) (forget_math s);
         (limit, s) = change_ldt img (a_text ex) (x_page x) s
     in bindK (create_tables (x_p x + (limit - 4096 * word_of_nat MAX_ARG_PAGES)) (nat (x_argc x)) envc s) (\<lambda>p s.
        let s = upd_cur (\<lambda>t. t\<lparr>t_end_code := a_text ex, t_end_data := a_data ex + a_text ex, t_brk := a_bss ex + (a_data ex + a_text ex),
              t_start_stack := p AND 0xfffff000, t_euid := fst ids, t_egid := snd ids\<rparr>) s
        in Ok (Inr (0, Some (a_entry ex, p))) (clear_tail (a_text ex + a_data ex) s)))))"

definition exec_round :: "('z fs_st_scheme) ctx \<Rightarrow> (u32 \<Rightarrow> u8) \<Rightarrow> u32 \<Rightarrow> u32 \<Rightarrow> u32 \<Rightarrow> nat \<Rightarrow> exec_args \<Rightarrow> 'z fs_st_scheme \<Rightarrow>
    (exec_args + int \<times> (u32 \<times> u32) option, 'z fs_st_scheme) outcome" where
  "exec_round E img filename argv envp envc x s =
     (let i = x_inode x; n = inode s i; fail = (\<lambda>e. exec_error E e (Some i) (x_page x))
      in if \<not> S_ISREG (i_mode n) then fail (- EACCES) s
         else if \<not> exec_allowed n s then fail (- ENOEXEC) s
         else let ids = (if i_mode n AND S_ISUID \<noteq> 0 then i_uid n else t_euid (cur s), if i_mode n AND S_ISGID \<noteq> 0 then ucast (i_gid n) else t_egid (cur s))
              in bindK (bread E (i_dev n) (ucast (i_zone n 0)) s) (\<lambda>bh s.
                 case bh of
                   None \<Rightarrow> fail (- EACCES) s
                 | Some b \<Rightarrow>
                     let d = b_data (buf s b); ex = get_exec d
                     in if d 0 = 35 \<and> d 1 = 33 \<and> \<not> x_sh_bang x
                        then bindK (brelse E bh s) (\<lambda>_ s. bindK (iput E (Some i) s) (\<lambda>_ s.
                             case parse_interp d of
                               None \<Rightarrow> exec_error E (- ENOEXEC) None (x_page x) s
                             | Some line \<Rightarrow> splice_interp E filename argv envp envc line x s))
                        else bindK (brelse E bh s) (\<lambda>_ s.
                          if bad_exec ex (i_size (inode s i)) \<or> N_TXTOFF ex \<noteq> 1024 then fail (- ENOEXEC) s
                          else if x_sh_bang x then start_image E img ex ids envc x s
                          else bindK (copy_strings envc (user_arg envp) get_fs_byte (x_page x) (x_p x) s) (\<lambda>(p, page) s.
                            bindK (copy_strings (nat (x_argc x)) (user_arg argv) get_fs_byte page p s) (\<lambda>(p, page) s.
                            if p = 0 then exec_error E (- ENOMEM) (Some i) page s
                            else start_image E img ex ids envc (x\<lparr>x_p := p, x_page := page\<rparr>) s)))))"

definition do_execve :: "('z fs_st_scheme) ctx \<Rightarrow> (u32 \<Rightarrow> u8) \<Rightarrow> u32 \<Rightarrow> u32 \<Rightarrow> u32 \<Rightarrow> u32 \<Rightarrow> 'z fs_st_scheme \<Rightarrow>
    (int \<times> (u32 \<times> u32) option, 'z fs_st_scheme) outcome" where
  "do_execve E img cs filename argv envp s =
     (if cs AND 0xffff \<noteq> 0xf then Panic ''execve called from supervisor mode''
      else bindK (namei E filename s) (\<lambda>r s.
        case r of
          None \<Rightarrow> Ok (- ENOENT, None) s
        | Some i \<Rightarrow>
            bindK (count_args argv s) (\<lambda>argc s.
            bindK (count_args envp s) (\<lambda>envc s.
            iterK (exec_round E img filename argv envp envc)
              \<lparr>x_sh_bang = False, x_argc = int argc, x_p = 4096 * 32 - 4, x_page = (\<lambda>_. 0), x_inode = i\<rparr> s))))"

end
