(* ===== verification/Fork_Child.thy ===== *)
theory Fork_Child
  imports Fork_Exec
begin

unbundle bit_operations_syntax

section \<open>What fork gives the child\<close>

text \<open>
  \<^verbatim>\<open>copy_process\<close> uses the memory management, the task table and the file system together. This theory
  combines the lemmas on \<^verbatim>\<open>copy_page_tables\<close> and \<^verbatim>\<open>free_page_tables\<close> with the task and file tables: either a
  complete child exists and every object it shares with its parent has the references it needs, or nothing
  has changed.
\<close>

subsection \<open>Page tables and frames do not depend on the other tables\<close>

lemma entry_phys: "phys t = phys s \<Longrightarrow> entry t = entry s"
proof
  fix x assume "phys t = phys s"
  then show "entry t x = entry s x" by (cases x rule: ptref_cases) (simp_all add: pde_def)
qed

lemma mm_inv_cong:
  "phys t = phys s \<Longrightarrow> mem_map t = mem_map s \<Longrightarrow> HIGH_MEMORY t = HIGH_MEMORY s \<Longrightarrow> mm_inv h t = mm_inv h s"
  using entry_phys [of t s] by (simp add: mm_inv_def)

lemma forkable_cong:
  "phys t = phys s \<Longrightarrow> mem_map t = mem_map s \<Longrightarrow> forkable from to sz t = forkable from to sz s"
  using entry_phys [of t s] by (simp add: forkable_def del: entry.simps)

lemma forkable_free_page:
  assumes "mm_inv h s" and "get_free_page s = (p, t)" and "forkable from to sz s"
  shows "forkable from to sz t"
proof (cases rule: get_free_page_spec [OF assms(1,2)])
  case 1
  then show ?thesis using assms(3) by simp
next
  case (2 i)
  let ?R = "ptes (dir_nr from) (dirs_of sz) (fork_pages from)"
  have src: "src_ok (entry s) ?R" and room: "room (entry s) (mem_map s) ?R"
    using assms(3) by (simp_all add: forkable_def del: entry.simps)
  have "refs (entry s) (page_of i) = 0"
    using counts_okD [OF mm_invD(2) [OF assms(1)] 2(2)] 2(9) by simp
  then have unused: "map_option frame (entry s x) \<noteq> Some (page_of i)" if "x \<in> user_refs" for x
    using that by (cases x) (auto simp: refs_def simp del: entry.simps)
  have "map_option frame (entry s x) \<noteq> Some (page_of i)" if x: "x \<in> ?R" for x
  proof
    assume e: "map_option frame (entry s x) = Some (page_of i)"
    obtain d j where dj: "x = (d, Some j)" using x by (auto simp: ptes_def)
    then obtain e' where e': "entry s (d, Some j) = Some e'" "frame e' = page_of i" using e by auto
    then have "4 \<le> d" using src x dj page_of_simps(2) [OF 2(2)] unfolding src_ok_def by fastforce
    then show False using unused [of x] e entry_user [OF e'(1)] dj by blast
  qed
  then have c: "card {x \<in> ?R. map_option frame (entry s x) = Some (page_of i)} = 0"
    by (metis (mono_tags, lifting) Collect_empty_eq card.empty)
  have "room (entry s) ((mem_map s)(i := 1)) ?R"
    unfolding room_def
  proof (intro allI impI)
    fix k assume "k < PAGING_PAGES"
    then show "unat (((mem_map s)(i := 1)) k) + card {x \<in> ?R. map_option frame (entry s x) = Some (page_of k)} \<le> 255"
      using room by (cases "k = i", simp only: c, simp)
        (simp add: room_def del: map_option_eq_Some entry.simps)
  qed
  then show ?thesis
    using assms(3) unfolding forkable_def 2(5) 2(10) by blast
qed

subsection \<open>What the memory management leaves alone\<close>

lemma mm_only_free_page: "wpK (free_page p s) (\<lambda>_. mm_only s)"
  by (simp add: free_page_def)

lemma mm_only_free_page_tables: "wpK (free_page_tables from sz s) (\<lambda>_. mm_only s)"
proof -
  have pte: "wpK (free_pte tbl i t) (\<lambda>_. mm_only s)" if "mm_only s t" for tbl i t
    using that by (auto simp: free_pte_def Let_def intro!: wpK_mono [OF mm_only_free_page] dest: mm_only_trans)
  have "wpK (free_dir d t) (\<lambda>_. mm_only s)" if t: "mm_only s t" for d t
  proof -
    have "wpK (free_page p u) (\<lambda>_ v. mm_only s (poke d 0 v))" if "mm_only s u" for p u
      by (rule wpK_mono [OF mm_only_free_page]) (simp add: mm_only_trans [OF that])
    then show ?thesis
      using t wpK_forK [of "[0..<1024]" "mm_only s" "free_pte (frame (phys t d))" t] pte
      by (auto simp: free_dir_def intro: wpK_mono)
  qed
  then show ?thesis
    by (auto simp: free_page_tables_def Let_def intro!: wpK_forK)
qed

lemma mm_only_copy_page_tables: "wpK (copy_page_tables from to sz s) (\<lambda>_. mm_only s)"
proof -
  have pte: "mm_only t (copy_pte a b i t)" for a b i and t :: "'a mm_st_scheme"
    by (simp add: copy_pte_def Let_def)
  have dir: "wpK (copy_dir nr a b t) (\<lambda>_. mm_only t)" for nr a b and t :: "'a mm_st_scheme"
    by (auto simp: copy_dir_def Let_def split: prod.splits
        intro: mm_only_trans [OF _ mm_only_fold [OF pte]] dest!: mm_only_get_free_page)
  have "wpK (copy_dirs nr n a b t) (\<lambda>_. mm_only t)" for nr n a b and t :: "'a mm_st_scheme"
  proof (induction n arbitrary: a b t)
    case (Suc n)
    have "wpK (copy_dirs nr n a b u) (\<lambda>_. mm_only t)" if "mm_only t u" for a b u
      by (rule wpK_mono [OF Suc]) (rule mm_only_trans [OF that])
    then show ?case by (auto intro!: wpK_mono [OF dir])
  qed simp
  then show ?thesis
    by (simp add: copy_page_tables_def Let_def)
qed

lemma mm_only_tables:
  assumes "mm_only s t"
  shows "file_tab t = file_tab s" "inode t = inode s" "last_pid t = last_pid s" "task_page t = task_page s"
    "gdt t = gdt s"
proof -
  from assms obtain p m where "t = s\<lparr>phys := p, mem_map := m\<rparr>" unfolding mm_only_def by blast
  then show "file_tab t = file_tab s" "inode t = inode s" "last_pid t = last_pid s"
    "task_page t = task_page s" "gdt t = gdt s"
    by simp_all
qed


subsection \<open>Copying the address space\<close>

definition relocate :: "nat \<Rightarrow> task_struct \<Rightarrow> task_struct" where
  "relocate nr p = (let b = word_of_nat nr * 0x4000000 in
     p\<lparr>t_start_code := b, t_ldt := (t_ldt p)(1 := set_base b (t_ldt p 1), 2 := set_base b (t_ldt p 2))\<rparr>)"

text \<open>The segments of the running task are as \<^verbatim>\<open>copy_mem\<close> wants them.\<close>

definition one_segment :: "'z sched_st_scheme \<Rightarrow> bool" where
  "one_segment s \<longleftrightarrow> get_base (t_ldt (cur s) 2) = get_base (t_ldt (cur s) 1)
     \<and> get_limit (t_ldt (cur s) 1) \<le> get_limit (t_ldt (cur s) 2)"

text \<open>The running task can fork into slot \<open>nr\<close>.\<close>

definition can_fork :: "nat \<Rightarrow> 'z mm_st_scheme \<Rightarrow> bool" where
  "can_fork nr s \<longleftrightarrow> one_segment s
     \<and> forkable (get_base (t_ldt (cur s) 1)) (word_of_nat nr * 0x4000000) (get_limit (t_ldt (cur s) 2)) s"

definition same_memory :: "'z mm_st_scheme \<Rightarrow> 'z mm_st_scheme \<Rightarrow> bool" where
  "same_memory s t \<longleftrightarrow> (\<forall>x. map_option frame (entry t x) = map_option frame (entry s x))
     \<and> (\<forall>k < PAGING_PAGES. mem_map t k = mem_map s k)"

text \<open>The child sees its parent's memory.\<close>

definition space_shared :: "nat \<Rightarrow> 'z mm_st_scheme \<Rightarrow> 'z mm_st_scheme \<Rightarrow> bool" where
  "space_shared nr s t \<longleftrightarrow> (let b = get_base (t_ldt (cur s) 1); sz = get_limit (t_ldt (cur s) 2) in
     \<forall>x. dir_nr x < dirs_of sz \<longrightarrow> walk t (word_of_nat nr * 0x4000000 + x)
       = (if tbl_nr x < fork_pages b then map_option ro (walk s (b + x)) else None))"

lemma copy_mem_spec:
  assumes "mm_inv h s" and "can_fork nr s" and "nr \<noteq> current s"
  shows "okK (copy_mem nr s) (\<lambda>e t. mm_inv h t \<and> mm_only (upd_task nr (relocate nr) s) t \<and>
     (e = 0 \<and> space_shared nr s t \<or> e \<noteq> 0 \<and> same_memory s t))"
proof -
  let ?b = "get_base (t_ldt (cur s) 1)" and ?sz = "get_limit (t_ldt (cur s) 2)"
    and ?to = "word_of_nat nr * 0x4000000" and ?s = "upd_task nr (relocate nr) s"
  have s: "phys ?s = phys s" "mem_map ?s = mem_map s" "HIGH_MEMORY ?s = HIGH_MEMORY s"
    by (simp_all add: upd_task_def)
  have inv: "mm_inv h ?s" and f: "forkable ?b ?to ?sz ?s" and e: "entry ?s = entry s" and seg: "one_segment s"
    using assms(1,2) mm_inv_cong [OF s] forkable_cong [OF s(1,2)] entry_phys [OF s(1)]
    by (simp_all add: can_fork_def del: entry.simps)
  obtain r t where t: "copy_page_tables ?b ?to ?sz ?s = Ok r t" "mm_inv h t"
    "outside_kept (dirs_of ?sz) (dir_nr ?to) (entry ?s) (entry t)"
    "r = 0 \<and> copied (fork_pages ?b) (dirs_of ?sz) (dir_nr ?b) (dir_nr ?to) (entry ?s) (entry t) \<or> r = -1"
    using copy_forkable [OF inv f] by (auto simp: okK_iff)
  have t_only: "mm_only ?s t"
    using mm_only_copy_page_tables [of ?b ?to ?sz ?s] t(1) by simp
  have mem: "copy_mem nr s = bindK (copy_page_tables ?b ?to ?sz ?s) (\<lambda>r s.
      if r \<noteq> 0 then bindK (free_page_tables ?to ?sz s) (\<lambda>_ s. Ok (- ENOMEM) s) else Ok 0 s)"
    using seg by (auto simp: copy_mem_def one_segment_def Let_def relocate_def [abs_def])
  show ?thesis
  proof (cases "r = 0")
    case True
    have c: "copied (fork_pages ?b) (dirs_of ?sz) (dir_nr ?b) (dir_nr ?to) (entry ?s) (entry t)"
      using True t(4) by simp
    have "walk ?s a = walk s a" for a using e by (simp add: walk_def del: entry.simps)
    then have "space_shared nr s t"
      unfolding space_shared_def Let_def using copied_walk(1) [OF c refl f] by simp
    then show ?thesis using True t t_only by (simp add: mem)
  next
    case False
    obtain u where u: "free_page_tables ?to ?sz t = Ok 0 u" "mm_inv h u"
      "entry u = (\<lambda>x. if dir_nr ?to \<le> fst x \<and> fst x < dir_nr ?to + dirs_of ?sz then None else entry t x)"
      using free_page_tables_spec [OF t(2), of ?to ?sz] f by (auto simp: okK_iff forkable_def simp del: entry.simps)
    have fr: "map_option frame (entry u x) = map_option frame (entry s x)" for x
      using fork_exit_frames [OF f t(3) u(3)] e by simp
    have "\<forall>k<PAGING_PAGES. mem_map u k = mem_map s k"
      using counts_determined [OF mm_invD(2) [OF assms(1)] mm_invD(2) [OF u(2)] fr] by blast
    moreover have "mm_only ?s u"
      using mm_only_trans [OF t_only] mm_only_free_page_tables [of ?to ?sz t] u(1) by simp
    ultimately show ?thesis using False t(1) u(1,2) fr by (simp add: mem same_memory_def del: entry.simps)
  qed
qed


subsection \<open>The references of the child\<close>

lemma share_files_simps:
  "task (share_files nr s) = task s" "current (share_files nr s) = current s" "inode (share_files nr s) = inode s"
  "last_pid (share_files nr s) = last_pid s" "phys (share_files nr s) = phys s"
  "mem_map (share_files nr s) = mem_map s" "HIGH_MEMORY (share_files nr s) = HIGH_MEMORY s"
  "gdt (share_files nr s) = gdt s" "task_page (share_files nr s) = task_page s"
  unfolding share_files_def
  by (rule fold_inv, auto simp: upd_file_def split: option.splits)+

lemma share_files_count:
  "f_count (file_tab (share_files nr s) f)
   = f_count (file_tab s f) + word_of_nat (card {i. i < NR_OPEN \<and> t_filp (the (task s nr)) i = Some f})"
proof -
  let ?g = "\<lambda>i s. case t_filp (the (task s nr)) i of None \<Rightarrow> s | Some f \<Rightarrow> upd_file f (f_count_update (\<lambda>c. c + 1)) s"
  have "task (fold ?g [0..<n] s) = task s \<and> f_count (file_tab (fold ?g [0..<n] s) f)
      = f_count (file_tab s f) + word_of_nat (card {i. i < n \<and> t_filp (the (task s nr)) i = Some f})" for n
  proof (induction n)
    case (Suc n)
    have "{i. i < Suc n \<and> t_filp (the (task s nr)) i = Some f}
        = (if t_filp (the (task s nr)) n = Some f then insert n else id) {i. i < n \<and> t_filp (the (task s nr)) i = Some f}"
      by (auto simp: less_Suc_eq)
    with Suc show ?case by (auto split: option.splits)
  qed simp
  then show ?thesis by (simp add: share_files_def)
qed

lemma hold_inode_simps [simp]:
  "task (hold_inode i s) = task s" "current (hold_inode i s) = current s" "file_tab (hold_inode i s) = file_tab s"
  "last_pid (hold_inode i s) = last_pid s" "task_page (hold_inode i s) = task_page s" "phys (hold_inode i s) = phys s"
  "mem_map (hold_inode i s) = mem_map s" "HIGH_MEMORY (hold_inode i s) = HIGH_MEMORY s"
  by (simp_all add: hold_inode_def upd_inode_def split: option.splits)

lemma hold_inode_count:
  "i_count (inode (hold_inode k s) i) = i_count (inode s i) + (if k = Some i then 1 else 0)"
  by (simp add: hold_inode_def split: option.splits)

text \<open>The task that \<^verbatim>\<open>copy_process\<close> makes in the page \<open>p\<close>.\<close>

definition fork_child :: "nat \<Rightarrow> fork_regs \<Rightarrow> u32 \<Rightarrow> 'z sched_st_scheme \<Rightarrow> task_struct" where
  "fork_child nr r p s = (relocate nr (new_task nr r p s))\<lparr>t_state := TASK_RUNNING\<rparr>"

text \<open>How often a task refers to a file and to an inode.\<close>

definition file_uses :: "task_struct \<Rightarrow> nat \<Rightarrow> nat" where
  "file_uses c f = card {i. i < NR_OPEN \<and> t_filp c i = Some f}"

definition inode_uses :: "task_struct \<Rightarrow> nat \<Rightarrow> nat" where
  "inode_uses c i = count_list [t_pwd c, t_root c, t_executable c] (Some i)"

definition forked :: "nat \<Rightarrow> fork_regs \<Rightarrow> (nat \<Rightarrow> nat) \<Rightarrow> 'z exec_st_scheme \<Rightarrow> 'z exec_st_scheme \<Rightarrow> bool" where
  "forked nr r h s t \<longleftrightarrow>
     (\<exists>k < PAGING_PAGES. mem_map s k = 0 \<and> mm_inv (h(k := 1)) t
        \<and> task t = (task s)(nr \<mapsto> fork_child nr r (page_of k) s) \<and> task_page t nr = page_of k)
     \<and> space_shared nr s t
     \<and> (\<forall>f. f_count (file_tab t f) = f_count (file_tab s f) + word_of_nat (file_uses (cur s) f))
     \<and> (\<forall>i. i_count (inode t i) = i_count (inode s i) + word_of_nat (inode_uses (cur s) i))"

definition unchanged :: "(nat \<Rightarrow> nat) \<Rightarrow> 'z exec_st_scheme \<Rightarrow> 'z exec_st_scheme \<Rightarrow> bool" where
  "unchanged h s t \<longleftrightarrow> task t = task s \<and> file_tab t = file_tab s \<and> inode t = inode s \<and> gdt t = gdt s
     \<and> mm_inv h t \<and> same_memory s t"

lemma new_task_mm_only: "mm_only s t \<Longrightarrow> new_task nr r p t = new_task nr r p s"
  unfolding mm_only_def by (auto simp: new_task_def cur_def)

lemma drop_hold:
  assumes "mm_inv (h(i := 1)) t" and "h i = 0" and "mem_map t i = 1" and "i < PAGING_PAGES" and "page_of i < HIGH_MEMORY t"
  shows "free_page (page_of i) t = Ok () (upd_map i (\<lambda>c. c - 1) t) \<and> mm_inv h (upd_map i (\<lambda>c. c - 1) t)"
proof -
  note ok = mm_invD [OF assms(1)]
  have "counts_ok h (entry t) ((mem_map t)(i := 0))"
    unfolding counts_ok_def
  proof (intro allI impI)
    fix k assume "k < PAGING_PAGES"
    then show "unat (((mem_map t)(i := 0)) k) = refs (entry t) (page_of k) + h k"
      using counts_okD [OF ok(2), of k] assms(2,3) by (cases "k = i") auto
  qed
  moreover have "high_held h (HIGH_MEMORY t)"
    using ok(3) assms(5) unfolding high_held_def by (metis fun_upd_other leD)
  moreover have "entry (upd_map i (\<lambda>c. c - 1) t) = entry t"
    by (rule entry_phys) (simp add: upd_map_def)
  ultimately have "mm_inv h (upd_map i (\<lambda>c. c - 1) t)"
    using ok(1) assms(3) by (simp add: mm_inv_def upd_map_def del: entry.simps)
  then show ?thesis
    using page_of_simps [OF assms(4)] assms(3,5) by (simp add: free_page_def not_less [symmetric])
qed

lemma set_tssldt_desc_simps [simp]:
  "task (set_tssldt_desc n a x s) = task s" "task_page (set_tssldt_desc n a x s) = task_page s"
  "file_tab (set_tssldt_desc n a x s) = file_tab s" "inode (set_tssldt_desc n a x s) = inode s"
  "phys (set_tssldt_desc n a x s) = phys s" "mem_map (set_tssldt_desc n a x s) = mem_map s"
  "HIGH_MEMORY (set_tssldt_desc n a x s) = HIGH_MEMORY s" "last_pid (set_tssldt_desc n a x s) = last_pid s"
  by (simp_all add: set_tssldt_desc_def)

lemma space_shared_cong:
  "phys t' = phys t \<Longrightarrow> entry s' = entry s \<Longrightarrow> cur s' = cur s \<Longrightarrow> space_shared nr s' t' = space_shared nr s t"
  using entry_phys [of t' t] by (simp add: space_shared_def walk_def del: entry.simps)

lemma fork_success:
  assumes s: "nr \<noteq> current s" and i: "i < PAGING_PAGES" "mem_map s i = 0" "mm_inv (h(i := 1)) t"
    and t: "task t = (task s)(nr \<mapsto> relocate nr (new_task nr r (page_of i) s))" "current t = current s"
      "task_page t nr = page_of i" "file_tab t = file_tab s" "inode t = inode s" "space_shared nr s t"
  defines "u \<equiv> share_files nr t"
  defines "v \<equiv> hold_inode (t_executable (cur u)) (hold_inode (t_root (cur u)) (hold_inode (t_pwd (cur u)) u))"
  shows "forked nr r h s (upd_task nr (t_state_update (\<lambda>_. TASK_RUNNING))
    (set_tssldt_desc a x y (set_tssldt_desc b x' y' v)))"
proof -
  let ?w = "upd_task nr (t_state_update (\<lambda>_. TASK_RUNNING)) (set_tssldt_desc a x y (set_tssldt_desc b x' y' v))"
  have m: "phys ?w = phys t" "mem_map ?w = mem_map t" "HIGH_MEMORY ?w = HIGH_MEMORY t"
    by (simp_all add: upd_task_def v_def u_def share_files_simps)
  have c: "cur u = cur s" "the (task t nr) = relocate nr (new_task nr r (page_of i) s)"
    using s t by (simp_all add: u_def cur_def share_files_simps)
  have fp: "t_filp (relocate nr (new_task nr r (page_of i) s)) = t_filp (cur s)"
    by (simp add: relocate_def new_task_def Let_def)
  have "task ?w = (task s)(nr \<mapsto> fork_child nr r (page_of i) s)" "task_page ?w nr = page_of i"
    using t by (simp_all add: upd_task_def v_def u_def share_files_simps fork_child_def)
  moreover have "f_count (file_tab ?w f) = f_count (file_tab s f) + word_of_nat (file_uses (cur s) f)" for f
    using t(4) share_files_count [of nr t f] by (simp add: upd_task_def v_def u_def c fp file_uses_def)
  moreover have "i_count (inode ?w k) = i_count (inode s k) + word_of_nat (inode_uses (cur s) k)" for k
    using t(5) by (simp add: upd_task_def v_def hold_inode_count c inode_uses_def) (simp add: u_def share_files_simps)
  moreover have "mm_inv (h(i := 1)) ?w" using mm_inv_cong [OF m] i(3) by blast
  moreover have "space_shared nr s ?w" using space_shared_cong [OF m(1) refl refl] t(6) by blast
  ultimately show ?thesis
    using i(1,2) unfolding forked_def by blast
qed

lemma fork_failure:
  assumes "mm_inv (h(i := 1)) t" "h i = 0" "i < PAGING_PAGES" "page_of i < HIGH_MEMORY t" "mem_map s i = 0"
    and "same_memory v t" "entry v = entry s" "mem_map v = (mem_map s)(i := 1)"
    and "task t = (task s)(nr \<mapsto> q)" "task s nr = None" "file_tab t = file_tab s" "inode t = inode s" "gdt t = gdt s"
  shows "\<exists>u. free_page (page_of i) (t\<lparr>task := (task t)(nr := None)\<rparr>) = Ok () u \<and> unchanged h s u"
proof -
  let ?t = "t\<lparr>task := (task t)(nr := None)\<rparr>"
  let ?u = "upd_map i (\<lambda>c. c - 1) ?t"
  have one: "mem_map t i = 1" using assms(3,6,8) by (simp add: same_memory_def)
  have "mm_inv (h(i := 1)) ?t" using mm_inv_cong [of ?t t] assms(1) by simp
  from drop_hold [where h = h and i = i and t = ?t, OF this assms(2) _ assms(3)] one assms(4)
  have u: "free_page (page_of i) ?t = Ok () ?u" "mm_inv h ?u" by simp_all
  have "entry ?u = entry t" by (rule entry_phys) (simp add: upd_map_def)
  moreover have "mem_map ?u = (mem_map t)(i := 0)" using one by (simp add: upd_map_def)
  ultimately have "same_memory s ?u"
    using assms(5-8) by (simp add: same_memory_def del: entry.simps)
  then have "unchanged h s ?u"
    using assms(9-13) u(2) by (simp add: unchanged_def upd_map_def fun_upd_idem)
  with u(1) show ?thesis by blast
qed

text \<open>
  C1. \<^verbatim>\<open>copy_process\<close>, called for a free slot by a task whose address space can be shared, always returns.
  It returns the new process number and has made a complete child: the task in the slot is the parent's
  copy with the given registers and 0 in \<^verbatim>\<open>eax\<close>, in its own 64 MB and ready to run; the child's addresses
  translate to the parent's frames, write protected; every file has one more reference for each
  descriptor of the parent that refers to it, and the working directory, the root and the executable have
  one more each; and the reference counts of the frames are exact with the child's page held. Or it
  returns \<^verbatim>\<open>-EAGAIN\<close>, and the task table, the file and inode tables, the translations and the reference
  counts of all frames are as before.
\<close>

theorem fork_all_or_nothing:
  assumes "mm_inv h s" and "can_fork nr s" and "task s nr = None" and "task s (current s) \<noteq> None"
  shows "\<exists>v t. copy_process nr r s = Ok v t
    \<and> (v = last_pid s \<and> forked nr r h s t \<or> v = - EAGAIN \<and> unchanged h s t)"
proof -
  have nr: "nr \<noteq> current s" using assms(3,4) by auto
  obtain p s1 where g: "get_free_page s = (p, s1)" by fastforce
  show ?thesis
  proof (cases rule: get_free_page_spec [OF assms(1) g])
    case 1
    then have "copy_process nr r s = Ok (- EAGAIN) s" using g by (simp add: copy_process_def)
    then show ?thesis using assms(1) by (auto simp: unchanged_def same_memory_def)
  next
    case (2 i)
    let ?s = "s1\<lparr>task := (task s1)(nr \<mapsto> new_task nr r p s1), task_page := (task_page s1)(nr := p)\<rparr>"
    have only: "mm_only s s1" by (rule mm_only_get_free_page [OF g])
    note f = mm_only_fields [OF only] mm_only_tables [OF only]
    have m: "phys ?s = phys s1" "mem_map ?s = mem_map s1" "HIGH_MEMORY ?s = HIGH_MEMORY s1" by simp_all
    have c: "cur ?s = cur s" "current ?s = current s" using nr f by (simp_all add: cur_def)
    have inv: "mm_inv (h(i := 1)) ?s" using mm_inv_cong [OF m] 2(6) by blast
    have "can_fork nr ?s"
      using assms(2) forkable_cong [OF m(1,2)] forkable_free_page [OF assms(1) g]
      by (simp add: can_fork_def one_segment_def c)
    from copy_mem_spec [OF inv this] nr c obtain e t where t: "copy_mem nr ?s = Ok e t" "mm_inv (h(i := 1)) t"
      "mm_only (upd_task nr (relocate nr) ?s) t" "e = 0 \<and> space_shared nr ?s t \<or> e \<noteq> 0 \<and> same_memory ?s t"
      by (auto simp: okK_iff)
    have ft: "task t = (task s)(nr \<mapsto> relocate nr (new_task nr r p s))" "current t = current s"
      "task_page t nr = p" "file_tab t = file_tab s" "inode t = inode s" "gdt t = gdt s" "last_pid t = last_pid s"
      "HIGH_MEMORY t = HIGH_MEMORY s"
      using mm_only_fields [OF t(3)] mm_only_tables [OF t(3)] f new_task_mm_only [OF only]
      by (simp_all add: upd_task_def)
    show ?thesis
    proof (cases "e = 0")
      case True
      have "space_shared nr s t"
        using True t(4) space_shared_cong [of t t ?s s nr] entry_phys [OF m(1)] 2(5) c by simp
      from fork_success [OF nr 2(2,9) t(2)] this ft 2(1) show ?thesis
        using True t(1) g page_of_simps(4) [OF 2(2)]
        by (simp add: copy_process_def Let_def share_files_simps)
    next
      case False
      obtain u where "free_page p (t\<lparr>task := (task t)(nr := None)\<rparr>) = Ok () u" "unchanged h s u"
        using fork_failure [OF t(2) 2(3,2) _ 2(9) _ _ _ ft(1) assms(3) ft(4,5,6), of ?s] False t(4)
          2(1,5,7,10) ft(8) entry_phys [OF m(1)] by auto
      moreover from this have "copy_process nr r s = Ok (- EAGAIN) u"
        using False t(1) g 2(1) page_of_simps(4) [OF 2(2)] by (simp add: copy_process_def Let_def)
      ultimately show ?thesis by blast
    qed
  qed
qed

text \<open>A task with one page, one file open as descriptors 0 and 1, and a working directory forks into slot 2.\<close>

definition fork_parent :: task_struct where
  "fork_parent = (INIT_TASK 0)\<lparr>t_pid := 1, t_filp := (\<lambda>_. None)(0 \<mapsto> 5, 1 \<mapsto> 5), t_pwd := Some 7,
     t_ldt := (\<lambda>_. \<lparr>desc_a = 0x3ff, desc_b = 0x4c0fa00\<rparr>)\<rparr>"

definition fork_state :: exec_st where
  "fork_state = (fs_st.extend (fs_boot mm_task) (exec_st.fields (\<lambda>_. \<lparr>desc_a = 0, desc_b = 0\<rparr>)))
     \<lparr>task := [1 \<mapsto> fork_parent], current := 1, last_pid := 2\<rparr>"

definition fork_args :: fork_regs where
  "fork_args = \<lparr>rg_ebp = 0, rg_edi = 0, rg_esi = 0, rg_gs = 0x17, rg_ebx = 0, rg_ecx = 0, rg_edx = 0, rg_fs = 0x17, rg_es = 0x17,
     rg_ds = 0x17, rg_eip = 0x1000, rg_cs = 0x0f, rg_eflags = 0x202, rg_esp = 0x3fff000, rg_ss = 0x17\<rparr>"

lemma fork_state_simps [simp]:
  "task fork_state = [1 \<mapsto> fork_parent]" "current fork_state = 1" "cur fork_state = fork_parent"
  "phys fork_state = phys mm_task" "mem_map fork_state = mem_map mm_task"
  "HIGH_MEMORY fork_state = HIGH_MEMORY mm_task" "last_pid fork_state = 2"
  "file_tab fork_state = file_tab (fs_boot mm_task)" "inode fork_state = inode (fs_boot mm_task)"
  by (simp_all add: fork_state_def cur_def fs_st.defs exec_st.defs fs_boot_def proc_st.defs mm_st.defs)

theorem fork_all_or_nothing_witness:
  "mm_inv (\<lambda>_. 0) fork_state \<and> can_fork 2 fork_state
   \<and> (\<exists>v t. copy_process 2 fork_args fork_state = Ok v t
      \<and> (v = 2 \<and> f_count (file_tab t 5) = 2 \<and> i_count (inode t 7) = 1 \<or> v = - EAGAIN \<and> task t = [1 \<mapsto> fork_parent]))"
proof -
  have seg: "get_base (t_ldt fork_parent n) = 0x4000000" "get_limit (t_ldt fork_parent n) = 0x400000" for n
    by (simp_all add: fork_parent_def get_base_def get_limit_def)
  have inv: "mm_inv (\<lambda>_. 0) fork_state"
    using mm_inv_cong [of fork_state mm_task] mm_task_facts(2) by simp
  have can: "can_fork 2 fork_state"
    using mm_task_forkable forkable_cong [of fork_state mm_task] by (simp add: can_fork_def one_segment_def seg)
  have "{i. i < NR_OPEN \<and> t_filp fork_parent i = Some 5} = {0, 1}"
    by (auto simp: fork_parent_def)
  then have "file_uses fork_parent 5 = 2" "inode_uses fork_parent 7 = 1"
    by (simp_all add: file_uses_def inode_uses_def) (simp add: fork_parent_def INIT_TASK_def)
  then show ?thesis
    using fork_all_or_nothing [OF inv can, of fork_args] inv can
    by (auto simp: forked_def unchanged_def empty_inode_def)
qed

end
