(* ===== verification/Tty_Queue.thy ===== *)
theory Tty_Queue
  imports Ring_Buffer
begin

unbundle bit_operations_syntax

section \<open>Terminal queues\<close>

text \<open>
  The queues of \<^verbatim>\<open>include/linux/tty.h\<close> and their macros. The terminal layer puts a character only when the queue
  is not \<^verbatim>\<open>FULL\<close> and gets one only when it is not \<^verbatim>\<open>EMPTY\<close>; used like this, a queue is a ring buffer of 1024
  characters. \<^verbatim>\<open>DEC\<close> on the head takes the last character back, as the erase character does.
\<close>

abbreviation (input) TTY_BUF_SIZE :: nat where "TTY_BUF_SIZE \<equiv> 1024"

record tty_queue =
  q_data :: u32
  q_head :: u32
  q_tail :: u32
  q_buf :: "nat \<Rightarrow> u8"

definition INC :: "u32 \<Rightarrow> u32" where "INC a = (a + 1) AND 1023"
definition DEC :: "u32 \<Rightarrow> u32" where "DEC a = (a - 1) AND 1023"
definition EMPTY :: "tty_queue \<Rightarrow> bool" where "EMPTY q \<longleftrightarrow> q_head q = q_tail q"
definition LEFT_q :: "tty_queue \<Rightarrow> u32" where "LEFT_q q = (q_tail q - q_head q - 1) AND 1023"
definition LAST :: "tty_queue \<Rightarrow> u8" where "LAST q = q_buf q (unat (1023 AND (q_head q - 1)))"
definition FULL :: "tty_queue \<Rightarrow> bool" where "FULL q \<longleftrightarrow> LEFT_q q = 0"
definition CHARS :: "tty_queue \<Rightarrow> u32" where "CHARS q = (q_head q - q_tail q) AND 1023"

definition GETCH :: "tty_queue \<Rightarrow> u8 \<times> tty_queue" where
  "GETCH q = (q_buf q (unat (q_tail q)), q\<lparr>q_tail := INC (q_tail q)\<rparr>)"

definition PUTCH :: "u8 \<Rightarrow> tty_queue \<Rightarrow> tty_queue" where
  "PUTCH c q = q\<lparr>q_buf := (q_buf q)(unat (q_head q) := c), q_head := INC (q_head q)\<rparr>"

subsection \<open>Indices\<close>

definition queue_ok :: "tty_queue \<Rightarrow> bool" where
  "queue_ok q \<longleftrightarrow> unat (q_head q) < TTY_BUF_SIZE \<and> unat (q_tail q) < TTY_BUF_SIZE"

definition queue_used :: "tty_queue \<Rightarrow> nat" where
  "queue_used q = ring_used TTY_BUF_SIZE (unat (q_head q)) (unat (q_tail q))"

definition queue_chars :: "tty_queue \<Rightarrow> u8 list" where
  "queue_chars q = ring_contents TTY_BUF_SIZE (unat (q_head q)) (unat (q_tail q)) (q_buf q)"

lemma uint_and_1023: "uint ((a :: u32) AND 1023) = uint a mod 1024"
proof -
  have "a AND 1023 = take_bit 10 a" by (simp add: take_bit_eq_mask mask_eq_exp_minus_1)
  then show ?thesis by (simp add: unsigned_take_bit_eq take_bit_int_def)
qed

lemma uint_diff_1023: "uint (((a :: u32) - b) AND 1023) = (uint a - uint b) mod 1024"
  by (simp add: uint_and_1023 uint_word_ariths(2) mod_mod_cancel)

lemma unat_INC: "unat (INC a) = (unat a + 1) mod TTY_BUF_SIZE"
proof -
  have "int (unat (INC a)) = int ((unat a + 1) mod TTY_BUF_SIZE)"
    by (simp add: INC_def uint_and_1023 uint_word_ariths(1) mod_mod_cancel zmod_int add.commute)
  then show ?thesis by (simp only: of_nat_eq_iff)
qed

lemma INC_less: "unat (INC a) < TTY_BUF_SIZE"
  by (simp add: unat_INC)

lemma queue_used_int:
  assumes "queue_ok q"
  shows "int (queue_used q) = (uint (q_head q) - uint (q_tail q)) mod 1024"
proof -
  have "int (queue_used q) = (uint (q_head q) + 1024 - uint (q_tail q)) mod 1024"
    using assms by (simp add: queue_used_def ring_used_def queue_ok_def zmod_int of_nat_diff)
  also have "uint (q_head q) + 1024 - uint (q_tail q) = uint (q_head q) - uint (q_tail q) + 1024" by simp
  finally show ?thesis by simp
qed

lemma CHARS_used: "queue_ok q \<Longrightarrow> unat (CHARS q) = queue_used q"
  using queue_used_int [of q] by (simp add: CHARS_def uint_diff_1023 flip: of_nat_eq_iff [where ?'a = int])

lemma EMPTY_used: "queue_ok q \<Longrightarrow> EMPTY q \<longleftrightarrow> queue_used q = 0"
proof -
  assume q: "queue_ok q"
  then have "uint (q_head q) < 1024" "uint (q_tail q) < 1024"
    by (simp_all add: queue_ok_def flip: of_nat_less_iff [where ?'a = int])
  moreover have "EMPTY q \<longleftrightarrow> uint (q_head q) = uint (q_tail q)" by (simp add: EMPTY_def word_uint_eq_iff)
  moreover have "queue_used q = 0 \<longleftrightarrow> uint (q_head q) mod 1024 = uint (q_tail q) mod 1024"
    using queue_used_int [OF q] by (simp add: mod_eq_dvd_iff mod_eq_0_iff_dvd flip: of_nat_eq_0_iff [where ?'a = int])
  ultimately show ?thesis by simp
qed

lemma minus_mod_1024: "(- d - 1) mod 1024 = 1023 - d mod (1024 :: int)"
proof -
  have "- d - 1 = 1023 - d + - 1 * 1024" by simp
  then have "(- d - 1) mod 1024 = (1023 - d) mod 1024" by (simp only: mod_mult_self1)
  also have "\<dots> = (1023 - d mod 1024) mod 1024" by (simp only: mod_diff_right_eq)
  also have "\<dots> = 1023 - d mod 1024"
    using pos_mod_bound [of 1024 d] pos_mod_sign [of 1024 d] by (intro mod_pos_pos_trivial) linarith+
  finally show ?thesis .
qed

lemma LEFT_used:
  assumes "queue_ok q"
  shows "unat (LEFT_q q) = 1023 - queue_used q"
proof -
  let ?d = "uint (q_head q) - uint (q_tail q)"
  have "uint (LEFT_q q) = ((- ?d) mod 2 ^ 32 - 1) mod 1024"
    unfolding LEFT_q_def uint_diff_1023 by (simp add: uint_word_ariths(2))
  also have "\<dots> = ((- ?d) mod 2 ^ 32 mod 1024 - 1) mod 1024" by (simp only: mod_diff_left_eq)
  also have "\<dots> = (- ?d - 1) mod 1024" by (simp add: mod_mod_cancel mod_diff_left_eq)
  also have "\<dots> = 1023 - ?d mod 1024" by (rule minus_mod_1024)
  finally have "int (unat (LEFT_q q)) = 1023 - int (queue_used q)"
    using queue_used_int [OF assms] by simp
  then show ?thesis by linarith
qed

lemma FULL_used: "queue_ok q \<Longrightarrow> FULL q \<longleftrightarrow> queue_used q = 1023"
  using LEFT_used [of q] ring_used_less [of 1024 "unat (q_head q)" "unat (q_tail q)"]
  by (auto simp: FULL_def queue_used_def unat_eq_zero)

subsection \<open>A queue\<close>

definition put_q :: "u8 \<Rightarrow> tty_queue \<Rightarrow> tty_queue" where
  "put_q c q = (if FULL q then q else PUTCH c q)"

definition get_q :: "unit \<Rightarrow> tty_queue \<Rightarrow> tty_queue" where
  "get_q _ q = (if EMPTY q then q else snd (GETCH q))"

interpretation tty_ring: ring_buffer TTY_BUF_SIZE queue_ok "\<lambda>q. unat (q_head q)" "\<lambda>q. unat (q_tail q)" q_buf
    put_q "\<lambda>c q. if FULL q then [] else [c]" get_q "\<lambda>_ q. if EMPTY q then [] else [fst (GETCH q)]"
proof (unfold_locales, goal_cases)
  case (2 s u)
  then show ?case
    using FULL_used [of s] ring_used_less [of 1024 "unat (q_head s)" "unat (q_tail s)"]
    by (auto simp: queue_ok_def queue_used_def)
next
  case (7 s v)
  then show ?case using EMPTY_used [of s] by (auto simp: queue_ok_def queue_used_def)
qed (auto simp: queue_ok_def put_q_def get_q_def PUTCH_def GETCH_def unat_INC INC_less)

lemma queue_fifo:
  assumes "queue_ok q"
  shows "\<not> FULL q \<Longrightarrow> queue_chars (PUTCH c q) = queue_chars q @ [c]"
    and "\<not> EMPTY q \<Longrightarrow> queue_chars q = fst (GETCH q) # queue_chars (snd (GETCH q))"
  using tty_ring.put_contents [OF assms, of c] tty_ring.get_contents [OF assms, of "()"]
  by (simp_all add: queue_chars_def put_q_def get_q_def)

lemma queue_capacity: "queue_ok q \<Longrightarrow> length (queue_chars q) \<le> 1023"
  using ring_used_less [of 1024 "unat (q_head q)" "unat (q_tail q)"] by (simp add: queue_chars_def ring_contents_def)

text \<open>The erase character takes back the character that was put last.\<close>

lemma erase_last:
  assumes "queue_ok q"
  shows "LAST (PUTCH c q) = c" and "DEC (q_head (PUTCH c q)) = q_head q"
proof -
  have "uint ((INC (q_head q) - 1) AND 1023) = (uint (q_head q) + 1 - 1) mod 1024"
    unfolding uint_diff_1023
    by (simp add: INC_def uint_and_1023 uint_word_ariths(1) mod_mod_cancel mod_diff_left_eq)
  also have "\<dots> = uint (q_head q)"
    using assms by (simp add: queue_ok_def flip: of_nat_less_iff [where ?'a = int])
  finally have "(INC (q_head q) - 1) AND 1023 = q_head q" by (simp add: word_uint_eq_iff)
  then show "LAST (PUTCH c q) = c" "DEC (q_head (PUTCH c q)) = q_head q"
    by (simp_all add: LAST_def DEC_def PUTCH_def and.commute)
qed

end
