(* ===== verification/Mqueue.thy ===== *)
theory Mqueue
  imports Kernel_Prelude "HOL-Library.Multiset"
begin

unbundle bit_operations_syntax

section \<open>Message queues in a mapped file\<close>

text \<open>
  \<^verbatim>\<open>unpv22e/my_pxmsg_mmap\<close>: Posix message queues in a memory-mapped file that all processes share. The header holds the attributes
  and the heads of two lists, the messages and the free entries; a list is linked by byte offsets into the file, 0 is its end.
  \<^item> \<open>msgs\<close> maps the offset of an entry to its \<^verbatim>\<open>mymsg_hdr\<close>, \<open>body\<close> is the memory of the file outside of the headers. \<open>H\<close>
    stands for \<^verbatim>\<open>sizeof(struct mymq_hdr)\<close>, which the C library fixes; \<^verbatim>\<open>sizeof(struct mymsg_hdr)\<close> is 12 and \<^verbatim>\<open>sizeof(long)\<close> is 4.
  \<^item> \<open>Inl\<close> is a return of -1 with this \<^verbatim>\<open>errno\<close>, \<open>Panic\<close> the exit of \<^verbatim>\<open>err_dump\<close>. The mutex of the header makes every call one step up to
    a wait; \<open>wait\<close> is \<^verbatim>\<open>pthread_cond_wait\<close>, \<open>signals\<close> counts the calls of \<^verbatim>\<open>pthread_cond_signal\<close>, \<open>sigqueued\<close> lists those of \<^verbatim>\<open>sigqueue\<close>.
  The operations are shown to be those of a priority queue, and the wake-ups to be too few when several readers wait.
\<close>

subsection \<open>Model\<close>

datatype mq_errno = MQ_EBADF | MQ_EMSGSIZE | MQ_EAGAIN | MQ_EBUSY | MQ_EINVAL

record mymsg_hdr =
  msg_next :: nat
  msg_len :: nat
  msg_prio :: u32

record sigevent =
  sigev_signal :: bool
  sigev_signo :: int
  sigev_value :: int

record mymq_hdr =
  mq_maxmsg :: int
  mq_msgsize :: int
  mq_curmsgs :: int
  mqh_head :: nat
  mqh_free :: nat
  mqh_nwait :: int
  mqh_pid :: int
  mqh_event :: sigevent
  msgs :: "nat \<Rightarrow> mymsg_hdr"
  body :: "nat \<Rightarrow> u8"
  signals :: nat
  sigqueued :: "(int \<times> int \<times> int) list"

record mymq_info =
  mqi_magic :: u32
  mqi_flags :: u32

abbreviation (input) MQI_MAGIC :: u32 where "MQI_MAGIC \<equiv> 0x98765432"
abbreviation (input) MQ_NONBLOCK :: u32 where "MQ_NONBLOCK \<equiv> 0x800"

definition MSGSIZE :: "nat \<Rightarrow> nat" where
  "MSGSIZE i = (i + 3) div 4 * 4"

definition upd_msg :: "nat \<Rightarrow> (mymsg_hdr \<Rightarrow> mymsg_hdr) \<Rightarrow> mymq_hdr \<Rightarrow> mymq_hdr" where
  "upd_msg i f s = s\<lparr>msgs := (msgs s)(i := f (msgs s i))\<rparr>"

text \<open>The part of \<^verbatim>\<open>mymq_open\<close> that lays out a new file.\<close>

definition mq_init :: "nat \<Rightarrow> int \<Rightarrow> int \<Rightarrow> mymq_hdr \<Rightarrow> mq_errno + mymq_hdr" where
  "mq_init H maxmsg msgsize s =
     (if maxmsg \<le> 0 \<or> msgsize \<le> 0 then Inl MQ_EINVAL
      else let sz = 12 + MSGSIZE (nat msgsize);
               s = s\<lparr>mq_maxmsg := maxmsg, mq_msgsize := msgsize, mq_curmsgs := 0, mqh_nwait := 0, mqh_pid := 0, mqh_head := 0, mqh_free := H\<rparr>;
               s = fold (\<lambda>i. upd_msg (H + i * sz) (msg_next_update (\<lambda>_. H + i * sz + sz))) [0..<nat maxmsg - 1] s
           in Inr (upd_msg (H + (nat maxmsg - 1) * sz) (msg_next_update (\<lambda>_. 0)) s))"

definition copy_in :: "nat \<Rightarrow> u8 list \<Rightarrow> (nat \<Rightarrow> u8) \<Rightarrow> nat \<Rightarrow> u8" where
  "copy_in a bs m = (\<lambda>k. if a \<le> k \<and> k < a + length bs then bs ! (k - a) else m k)"

definition copy_out :: "nat \<Rightarrow> nat \<Rightarrow> (nat \<Rightarrow> u8) \<Rightarrow> u8 list" where
  "copy_out a n m = map (\<lambda>k. m (a + k)) [0..<n]"

text \<open>
  The loop of \<^verbatim>\<open>mymq_send\<close> that looks for the place of the new message: \<open>p\<close> is the entry before \<open>index\<close>, or \<open>None\<close> for \<^verbatim>\<open>&mqhdr->mqh_head\<close>.
\<close>

definition set_next :: "nat option \<Rightarrow> nat \<Rightarrow> mymq_hdr \<Rightarrow> mymq_hdr" where
  "set_next p i s = (case p of None \<Rightarrow> s\<lparr>mqh_head := i\<rparr> | Some p \<Rightarrow> upd_msg p (msg_next_update (\<lambda>_. i)) s)"

definition mq_link :: "u32 \<Rightarrow> nat \<Rightarrow> mymq_hdr \<Rightarrow> (unit, mymq_hdr) outcome" where
  "mq_link prio freeindex s =
     iterK (\<lambda>(p, index) s.
       if index = 0 then Ok (Inr ()) (upd_msg freeindex (msg_next_update (\<lambda>_. 0)) (set_next p freeindex s))
       else if prio > msg_prio (msgs s index)
       then Ok (Inr ()) (set_next p freeindex (upd_msg freeindex (msg_next_update (\<lambda>_. index)) s))
       else Ok (Inl (Some index, msg_next (msgs s index))) s) (None, mqh_head s) s"

definition mq_put :: "u8 list \<Rightarrow> u32 \<Rightarrow> mymq_hdr \<Rightarrow> (unit, mymq_hdr) outcome" where
  "mq_put ptr prio s =
     (let f = mqh_free s
      in if f = 0 then Panic ''mymq_send: free = 0''
         else let s = upd_msg f (\<lambda>m. m\<lparr>msg_prio := prio, msg_len := length ptr\<rparr>) s;
                  s = s\<lparr>body := copy_in (f + 12) ptr (body s)\<rparr>;
                  s = s\<lparr>mqh_free := msg_next (msgs s f)\<rparr>
              in bindK (mq_link prio f s) (\<lambda>_ s.
                 let s = (if mq_curmsgs s = 0 then s\<lparr>signals := signals s + 1\<rparr> else s)
                 in Ok () (s\<lparr>mq_curmsgs := mq_curmsgs s + 1\<rparr>)))"

definition mq_get :: "mymq_hdr \<Rightarrow> (u8 list \<times> u32, mymq_hdr) outcome" where
  "mq_get s =
     (let i = mqh_head s; m = msgs s i
      in if i = 0 then Panic ''mymq_receive: head = 0''
         else let s = s\<lparr>mqh_head := msg_next m\<rparr>;
                  r = (copy_out (i + 12) (msg_len m) (body s), msg_prio m);
                  s = (upd_msg i (msg_next_update (\<lambda>_. mqh_free s)) s)\<lparr>mqh_free := i\<rparr>;
                  s = (if mq_curmsgs s = mq_maxmsg s then s\<lparr>signals := signals s + 1\<rparr> else s)
              in Ok r (s\<lparr>mq_curmsgs := mq_curmsgs s - 1\<rparr>))"

definition mq_notify_reader :: "mymq_hdr \<Rightarrow> mymq_hdr" where
  "mq_notify_reader s =
     (if mqh_pid s \<noteq> 0 \<and> mqh_nwait s = 0
      then let e = mqh_event s
           in s\<lparr>sigqueued := sigqueued s @ (if sigev_signal e then [(mqh_pid s, sigev_signo e, sigev_value e)] else []), mqh_pid := 0\<rparr>
      else s)"

definition mymq_send :: "(mymq_hdr \<Rightarrow> (unit, mymq_hdr) outcome) \<Rightarrow> mymq_info \<Rightarrow> u8 list \<Rightarrow> u32 \<Rightarrow> mymq_hdr \<Rightarrow> (mq_errno + unit, mymq_hdr) outcome" where
  "mymq_send wait info ptr prio s =
     (if mqi_magic info \<noteq> MQI_MAGIC then Ok (Inl MQ_EBADF) s
      else if int (length ptr) > mq_msgsize s then Ok (Inl MQ_EMSGSIZE) s
      else if mq_curmsgs s = 0 then bindK (mq_put ptr prio (mq_notify_reader s)) (\<lambda>_ s. Ok (Inr ()) s)
      else if mq_curmsgs s \<ge> mq_maxmsg s \<and> mqi_flags info AND MQ_NONBLOCK \<noteq> 0 then Ok (Inl MQ_EAGAIN) s
      else bindK (iterK (\<lambda>(_ :: unit) s.
             if mq_curmsgs s \<ge> mq_maxmsg s then bindK (wait s) (\<lambda>_ s. Ok (Inl ()) s) else Ok (Inr ()) s) () s) (\<lambda>_ s.
           bindK (mq_put ptr prio s) (\<lambda>_ s. Ok (Inr ()) s)))"

definition mymq_receive :: "(mymq_hdr \<Rightarrow> (unit, mymq_hdr) outcome) \<Rightarrow> mymq_info \<Rightarrow> nat \<Rightarrow> mymq_hdr \<Rightarrow> (mq_errno + u8 list \<times> u32, mymq_hdr) outcome" where
  "mymq_receive wait info maxlen s =
     (if mqi_magic info \<noteq> MQI_MAGIC then Ok (Inl MQ_EBADF) s
      else if int maxlen < mq_msgsize s then Ok (Inl MQ_EMSGSIZE) s
      else if mq_curmsgs s \<noteq> 0 then bindK (mq_get s) (\<lambda>r s. Ok (Inr r) s)
      else if mqi_flags info AND MQ_NONBLOCK \<noteq> 0 then Ok (Inl MQ_EAGAIN) s
      else bindK (iterK (\<lambda>(_ :: unit) s.
             if mq_curmsgs s = 0 then bindK (wait s) (\<lambda>_ s. Ok (Inl ()) s) else Ok (Inr ()) s) () (s\<lparr>mqh_nwait := mqh_nwait s + 1\<rparr>)) (\<lambda>_ s.
           bindK (mq_get (s\<lparr>mqh_nwait := mqh_nwait s - 1\<rparr>)) (\<lambda>r s. Ok (Inr r) s)))"

text \<open>\<open>alive\<close> is the answer of \<^verbatim>\<open>kill(pid, 0)\<close>, that there is such a process; the system calls behind it are not part of this library.\<close>

definition mymq_notify :: "(int \<Rightarrow> bool) \<Rightarrow> int \<Rightarrow> mymq_info \<Rightarrow> sigevent option \<Rightarrow> mymq_hdr \<Rightarrow> (mq_errno + unit) \<times> mymq_hdr" where
  "mymq_notify alive pid info notification s =
     (if mqi_magic info \<noteq> MQI_MAGIC then (Inl MQ_EBADF, s)
      else case notification of
             None \<Rightarrow> (Inr (), if mqh_pid s = pid then s\<lparr>mqh_pid := 0\<rparr> else s)
           | Some e \<Rightarrow> if mqh_pid s \<noteq> 0 \<and> alive (mqh_pid s) then (Inl MQ_EBUSY, s)
                        else (Inr (), s\<lparr>mqh_pid := pid, mqh_event := e\<rparr>))"

definition mymq_getattr :: "mymq_info \<Rightarrow> mymq_hdr \<Rightarrow> mq_errno + (u32 \<times> int \<times> int \<times> int)" where
  "mymq_getattr info s =
     (if mqi_magic info \<noteq> MQI_MAGIC then Inl MQ_EBADF else Inr (mqi_flags info, mq_maxmsg s, mq_msgsize s, mq_curmsgs s))"

definition mymq_setattr :: "u32 \<Rightarrow> mymq_info \<Rightarrow> mymq_hdr \<Rightarrow> (mq_errno + (u32 \<times> int \<times> int \<times> int)) \<times> mymq_info" where
  "mymq_setattr flags info s =
     (if mqi_magic info \<noteq> MQI_MAGIC then (Inl MQ_EBADF, info)
      else (Inr (mqi_flags info, mq_maxmsg s, mq_msgsize s, mq_curmsgs s),
            info\<lparr>mqi_flags := (if flags AND MQ_NONBLOCK \<noteq> 0 then mqi_flags info OR MQ_NONBLOCK else mqi_flags info AND NOT MQ_NONBLOCK)\<rparr>))"

lemma upd_msg_simps [simp]:
  "msgs (upd_msg i f s) = (msgs s)(i := f (msgs s i))" "body (upd_msg i f s) = body s" "mqh_head (upd_msg i f s) = mqh_head s"
  "mqh_free (upd_msg i f s) = mqh_free s" "mq_curmsgs (upd_msg i f s) = mq_curmsgs s" "mq_maxmsg (upd_msg i f s) = mq_maxmsg s"
  "mq_msgsize (upd_msg i f s) = mq_msgsize s" "signals (upd_msg i f s) = signals s" "mqh_nwait (upd_msg i f s) = mqh_nwait s"
  by (simp_all add: upd_msg_def)

subsection \<open>The abstract queue\<close>

text \<open>
  A queue is the list of its messages, priority and bytes, in the order in which they arrived. A receiver gets the message that
  arrived first among those of the highest priority.
\<close>

type_synonym message = "u32 \<times> u8 list"

datatype mq_op = Send "u8 list" u32 | Receive nat
datatype mq_out = Sent | Got "u8 list" u32 | Failed mq_errno

definition pq_best :: "message list \<Rightarrow> message" where
  "pq_best q = the (find (\<lambda>m. \<forall>x \<in> set q. fst x \<le> fst m) q)"

fun pq_step :: "int \<Rightarrow> int \<Rightarrow> mq_op \<Rightarrow> message list \<Rightarrow> mq_out \<times> message list" where
  "pq_step maxmsg msgsize (Send d p) q =
     (if int (length d) > msgsize then (Failed MQ_EMSGSIZE, q)
      else if int (length q) \<ge> maxmsg then (Failed MQ_EAGAIN, q) else (Sent, q @ [(p, d)]))"
| "pq_step maxmsg msgsize (Receive n) q =
     (if int n < msgsize then (Failed MQ_EMSGSIZE, q)
      else if q = [] then (Failed MQ_EAGAIN, q) else (Got (snd (pq_best q)) (fst (pq_best q)), remove1 (pq_best q) q))"

primrec pq_run :: "int \<Rightarrow> int \<Rightarrow> mq_op list \<Rightarrow> message list \<Rightarrow> mq_out list" where
  "pq_run maxmsg msgsize [] q = []"
| "pq_run maxmsg msgsize (op # ops) q = (case pq_step maxmsg msgsize op q of (r, q) \<Rightarrow> r # pq_run maxmsg msgsize ops q)"

text \<open>The calls of the library, through a descriptor \<open>info\<close>.\<close>

fun mq_call :: "(mymq_hdr \<Rightarrow> (unit, mymq_hdr) outcome) \<Rightarrow> mymq_info \<Rightarrow> mq_op \<Rightarrow> mymq_hdr \<Rightarrow> (mq_out, mymq_hdr) outcome" where
  "mq_call wait info (Send d p) s = bindK (mymq_send wait info d p s) (\<lambda>r s. Ok (case r of Inl e \<Rightarrow> Failed e | Inr _ \<Rightarrow> Sent) s)"
| "mq_call wait info (Receive n) s = bindK (mymq_receive wait info n s) (\<lambda>r s. Ok (case r of Inl e \<Rightarrow> Failed e | Inr (d, p) \<Rightarrow> Got d p) s)"

primrec mq_run :: "(mymq_hdr \<Rightarrow> (unit, mymq_hdr) outcome) \<Rightarrow> mymq_info \<Rightarrow> mq_op list \<Rightarrow> mymq_hdr \<Rightarrow> (mq_out list, mymq_hdr) outcome" where
  "mq_run wait info [] s = Ok [] s"
| "mq_run wait info (op # ops) s = bindK (mq_call wait info op s) (\<lambda>r s. bindK (mq_run wait info ops s) (\<lambda>rs s. Ok (r # rs) s))"

subsection \<open>Sorting by priority\<close>

abbreviation (input) rank :: "message \<Rightarrow> int" where "rank m \<equiv> - uint (fst m)"

definition insert_after :: "('a \<Rightarrow> int) \<Rightarrow> 'a \<Rightarrow> 'a list \<Rightarrow> 'a list" where
  "insert_after k m xs = takeWhile (\<lambda>x. k x \<le> k m) xs @ m # dropWhile (\<lambda>x. k x \<le> k m) xs"

lemma insert_after_Cons: "insert_after k m (x # xs) = (if k x \<le> k m then x # insert_after k m xs else m # x # xs)"
  by (simp add: insert_after_def)

lemma insert_after_insort:
  "sorted (map k xs) \<Longrightarrow> insert_after k m (insort_key k a xs) = insort_key k a (insert_after k m xs)"
  by (induction xs) (auto simp: insert_after_Cons, simp_all add: insert_after_def)

lemma sort_key_snoc: "sort_key k (q @ [m]) = insert_after k m (sort_key k q)"
  by (induction q) (simp_all add: insert_after_insort, simp add: insert_after_def)

lemma sort_key_first:
  assumes "\<And>a. a \<in> set pre \<Longrightarrow> k m < k a" and "\<And>a. a \<in> set post \<Longrightarrow> k m \<le> k a"
  shows "sort_key k (pre @ m # post) = m # sort_key k (pre @ post)"
  using assms(1)
proof (induction pre)
  case Nil
  then show ?case using assms(2) by (simp add: insort_is_Cons)
next
  case (Cons a pre)
  then have "sort_key k (pre @ m # post) = m # sort_key k (pre @ post)" "\<not> k a \<le> k m" by (simp_all add: not_le)
  then show ?case by simp
qed

lemma pq_best_split:
  assumes "q \<noteq> []"
  obtains pre post where "q = pre @ pq_best q # post" "\<And>x. x \<in> set pre \<Longrightarrow> fst x < fst (pq_best q)" "\<And>x. x \<in> set q \<Longrightarrow> fst x \<le> fst (pq_best q)"
proof -
  let ?P = "\<lambda>m. \<forall>x \<in> set q. fst x \<le> fst m"
  have "Max (fst ` set q) \<in> fst ` set q" using assms by simp
  then obtain b where "b \<in> set q" "fst b = Max (fst ` set q)" by auto
  then have "b \<in> set q" "?P b" by simp_all
  then obtain m where m: "find ?P q = Some m" using find_None_iff [of ?P q] by (cases "find ?P q") blast+
  then have b: "pq_best q = m" by (simp add: pq_best_def)
  from m obtain i where i: "i < length q" "?P (q ! i)" "m = q ! i" "\<forall>j < i. \<not> ?P (q ! j)" by (auto simp: find_Some_iff)
  have "fst x < fst m" if x: "x \<in> set (take i q)" for x
  proof -
    from x obtain j where j: "j < i" "x = q ! j" by (auto simp: in_set_conv_nth)
    then obtain y where "y \<in> set q" "fst x < fst y" using i(4) by (auto simp: not_le)
    moreover have "fst y \<le> fst m" using calculation(1) i(2,3) by blast
    ultimately show ?thesis by (blast intro: less_le_trans)
  qed
  then show thesis using that [of "take i q" "drop (Suc i) q"] i b id_take_nth_drop [OF i(1)] by auto
qed

lemma sort_key_best:
  assumes "q \<noteq> []"
  shows "sort_key rank q = pq_best q # sort_key rank (remove1 (pq_best q) q)"
proof -
  obtain pre post where s: "q = pre @ pq_best q # post" "\<And>x. x \<in> set pre \<Longrightarrow> fst x < fst (pq_best q)" "\<And>x. x \<in> set q \<Longrightarrow> fst x \<le> fst (pq_best q)"
    by (rule pq_best_split [OF assms]) blast
  have "remove1 (pq_best q) q = pre @ post" using s(2) [of "pq_best q"] by (subst s(1)) (auto simp: remove1_append)
  moreover have "sort_key rank (pre @ pq_best q # post) = pq_best q # sort_key rank (pre @ post)"
  proof (rule sort_key_first)
    fix x assume "x \<in> set post"
    then show "rank (pq_best q) \<le> rank x" using s(3) [of x] s(1) by (metis (no_types) in_set_conv_decomp list.set_intros(2) neg_le_iff_le Un_iff set_append word_le_def)
  qed (use s(2) in \<open>auto simp: word_less_def\<close>)
  ultimately show ?thesis using s(1) by metis
qed

subsection \<open>Linked lists of entries\<close>

fun linked :: "(nat \<Rightarrow> nat) \<Rightarrow> nat \<Rightarrow> nat list \<Rightarrow> bool" where
  "linked nx a [] \<longleftrightarrow> a = 0"
| "linked nx a (x # xs) \<longleftrightarrow> a = x \<and> x \<noteq> 0 \<and> linked nx (nx x) xs"

definition first :: "nat list \<Rightarrow> nat" where
  "first xs = (case xs of [] \<Rightarrow> 0 | x # _ \<Rightarrow> x)"

lemma first_simps [simp]: "first [] = 0" "first (x # xs) = x"
  by (simp_all add: first_def)

lemma linked_first: "linked nx a xs \<Longrightarrow> a = first xs"
  by (cases xs) simp_all

lemma linked_keep: "linked nx a xs \<Longrightarrow> (\<And>x. x \<in> set xs \<Longrightarrow> nx' x = nx x) \<Longrightarrow> linked nx' a xs"
  by (induction xs arbitrary: a) auto

lemma linked_mid: "linked nx a (pre @ y # ys) \<Longrightarrow> y \<noteq> 0 \<and> nx y = first ys"
  by (induction pre arbitrary: a) (auto dest: linked_first)

lemma linked_insert:
  assumes "linked nx h (pre @ ys)" and "distinct (pre @ ys)" and "f \<notin> set (pre @ ys)" and "f \<noteq> 0"
    and "nx' f = first ys" and "pre \<noteq> [] \<Longrightarrow> nx' (last pre) = f" and "\<And>x. x \<noteq> f \<Longrightarrow> pre = [] \<or> x \<noteq> last pre \<Longrightarrow> nx' x = nx x"
  shows "linked nx' (if pre = [] then f else h) (pre @ f # ys)"
  using assms
proof (induction pre arbitrary: h)
  case Nil
  then have "linked nx (first ys) ys" using linked_first [of nx h ys] by auto
  moreover have "nx' y = nx y" if "y \<in> set ys" for y using that Nil.prems(3) Nil.prems(7) [of y] by (cases "y = f") auto
  ultimately have "linked nx' (first ys) ys" by (rule linked_keep)
  then show ?case using Nil.prems by simp
next
  case (Cons a pre)
  show ?case
  proof (cases "pre = []")
    case True
    then have "linked nx (first ys) ys" using Cons.prems(1) linked_first [of nx "nx a" ys] by auto
    moreover have "nx' y = nx y" if "y \<in> set ys" for y using that Cons.prems(2,3) Cons.prems(7) [of y] True by (cases "y = f"; cases "y = a") auto
    ultimately have "linked nx' (first ys) ys" by (rule linked_keep)
    then show ?thesis using Cons.prems True by simp
  next
    case False
    have "linked nx' (nx a) (pre @ f # ys)" using Cons.IH [of "nx a"] Cons.prems False by auto
    moreover have "a \<noteq> f" "a \<noteq> last pre" using Cons.prems(2,3) last_in_set [OF False] by auto
    then have "nx' a = nx a" using Cons.prems(7) [of a] False by simp
    ultimately show ?thesis using Cons.prems False by simp
  qed
qed

abbreviation (input) nxt :: "mymq_hdr \<Rightarrow> nat \<Rightarrow> nat" where "nxt s \<equiv> (\<lambda>i. msg_next (msgs s i))"
abbreviation (input) msg_rank :: "mymq_hdr \<Rightarrow> nat \<Rightarrow> int" where "msg_rank s i \<equiv> - uint (msg_prio (msgs s i))"

text \<open>A change of links only.\<close>

definition relinked :: "nat set \<Rightarrow> mymq_hdr \<Rightarrow> mymq_hdr \<Rightarrow> bool" where
  "relinked X s t \<longleftrightarrow> (\<exists>M h. t = s\<lparr>msgs := M, mqh_head := h\<rparr> \<and>
     (\<forall>x. msg_prio (M x) = msg_prio (msgs s x) \<and> msg_len (M x) = msg_len (msgs s x) \<and> (x \<notin> X \<longrightarrow> msg_next (M x) = nxt s x)))"

lemma mq_link_loop:
  fixes prio :: u32
  assumes "linked (nxt s) (mqh_head s) (pre @ ys)" and "distinct (pre @ ys)" and "f \<notin> set (pre @ ys)" and "f \<noteq> 0"
    and "p = (if pre = [] then None else Some (last pre))"
  defines "zs \<equiv> takeWhile (\<lambda>y. msg_rank s y \<le> - uint prio) ys" and "us \<equiv> dropWhile (\<lambda>y. msg_rank s y \<le> - uint prio) ys"
  shows "\<exists>t. iterK (\<lambda>(p, index) s.
       if index = 0 then Ok (Inr ()) (upd_msg f (msg_next_update (\<lambda>_. 0)) (set_next p f s))
       else if prio > msg_prio (msgs s index)
       then Ok (Inr ()) (set_next p f (upd_msg f (msg_next_update (\<lambda>_. index)) s))
       else Ok (Inl (Some index, msg_next (msgs s index))) s) (p, first ys) s = Ok () t \<and>
    linked (nxt t) (mqh_head t) (pre @ zs @ f # us) \<and> relinked (insert f (set (pre @ ys))) s t"
  using assms(1-5) unfolding zs_def us_def
proof (induction ys arbitrary: pre p)
  case Nil
  let ?t = "upd_msg f (msg_next_update (\<lambda>_. 0)) (set_next p f s)"
  have "linked (nxt ?t) (if pre = [] then f else mqh_head s) (pre @ f # [])"
    by (rule linked_insert [of "nxt s"]) (use Nil.prems in \<open>auto simp: upd_msg_def set_next_def\<close>)
  moreover have "mqh_head ?t = (if pre = [] then f else mqh_head s)" using Nil.prems by (simp add: upd_msg_def set_next_def)
  moreover have "relinked (insert f (set (pre @ []))) s ?t"
    using Nil.prems unfolding relinked_def by (intro exI [of _ "msgs ?t"] exI [of _ "mqh_head ?t"]) (auto simp: upd_msg_def set_next_def)
  ultimately show ?case by (subst iterK_unfold) simp
next
  case (Cons y ys)
  have y: "y \<noteq> 0" "nxt s y = first ys" using linked_mid [OF Cons.prems(1)] by simp_all
  show ?case
  proof (cases "prio > msg_prio (msgs s y)")
    case True
    let ?t = "set_next p f (upd_msg f (msg_next_update (\<lambda>_. y)) s)"
    have "linked (nxt ?t) (if pre = [] then f else mqh_head s) (pre @ f # y # ys)"
      by (rule linked_insert [of "nxt s"]) (use Cons.prems in \<open>auto simp: upd_msg_def set_next_def\<close>)
    moreover have "mqh_head ?t = (if pre = [] then f else mqh_head s)" using Cons.prems by (simp add: upd_msg_def set_next_def)
    moreover have "relinked (insert f (set (pre @ y # ys))) s ?t"
      using Cons.prems unfolding relinked_def by (intro exI [of _ "msgs ?t"] exI [of _ "mqh_head ?t"]) (auto simp: upd_msg_def set_next_def)
    moreover have "\<not> msg_rank s y \<le> - uint prio" using True by (simp add: word_less_def)
    ultimately show ?thesis using True y by (subst iterK_unfold) simp
  next
    case False
    have "msg_rank s y \<le> - uint prio" using False by (simp add: word_less_def)
    moreover note Cons.IH [of "pre @ [y]" "Some y"]
    ultimately show ?thesis using False y Cons.prems by (subst iterK_unfold) simp
  qed
qed

lemma mq_link_ok:
  assumes "linked (nxt s) (mqh_head s) qs" and "distinct qs" and "f \<notin> set qs" and "f \<noteq> 0"
  shows "\<exists>t. mq_link prio f s = Ok () t \<and>
    linked (nxt t) (mqh_head t) (takeWhile (\<lambda>y. msg_rank s y \<le> - uint prio) qs @ f # dropWhile (\<lambda>y. msg_rank s y \<le> - uint prio) qs) \<and>
    relinked (insert f (set qs)) s t"
  using mq_link_loop [of s "[]" qs f None prio] assms linked_first [OF assms(1)] by (simp add: mq_link_def)

subsection \<open>The invariant\<close>

definition slots :: "nat \<Rightarrow> mymq_hdr \<Rightarrow> nat list" where
  "slots H s = map (\<lambda>i. H + i * (12 + MSGSIZE (nat (mq_msgsize s)))) [0..<nat (mq_maxmsg s)]"

text \<open>The entries of the file are the messages \<open>qs\<close> and the free entries \<open>fs\<close>.\<close>

definition mq_lists :: "nat \<Rightarrow> nat list \<Rightarrow> nat list \<Rightarrow> mymq_hdr \<Rightarrow> bool" where
  "mq_lists H qs fs s \<longleftrightarrow> linked (nxt s) (mqh_head s) qs \<and> linked (nxt s) (mqh_free s) fs \<and> distinct (qs @ fs) \<and>
     set (qs @ fs) = set (slots H s) \<and> mq_curmsgs s = int (length qs) \<and> (\<forall>x \<in> set qs. int (msg_len (msgs s x)) \<le> mq_msgsize s)"

definition mq_msg :: "mymq_hdr \<Rightarrow> nat \<Rightarrow> message" where
  "mq_msg s x = (msg_prio (msgs s x), copy_out (x + 12) (msg_len (msgs s x)) (body s))"

lemma MSGSIZE_le: "n \<le> MSGSIZE n"
  unfolding MSGSIZE_def by linarith

lemma slots_apart:
  assumes "x \<in> set (slots H s)" and "y \<in> set (slots H s)" and "x \<noteq> y" and "int k < mq_msgsize s" and "int l < mq_msgsize s"
  shows "x + 12 + k \<noteq> y + 12 + l"
proof -
  let ?sz = "12 + MSGSIZE (nat (mq_msgsize s))"
  have kl: "k < ?sz" "l < ?sz" using assms(4,5) MSGSIZE_le [of "nat (mq_msgsize s)"] by linarith+
  obtain i j where ij: "x = H + i * ?sz" "y = H + j * ?sz" using assms(1,2) by (auto simp: slots_def)
  show ?thesis
  proof
    assume "x + 12 + k = y + 12 + l"
    then have e: "i * ?sz + k = j * ?sz + l" using ij by linarith
    have "i = (i * ?sz + k) div ?sz" using kl by simp
    also have "\<dots> = j" unfolding e using kl by simp
    finally show False using ij assms(3) by simp
  qed
qed

lemma copy_out_in: "copy_out a (length bs) (copy_in a bs m) = bs"
  by (rule nth_equalityI) (simp_all add: copy_out_def copy_in_def)

lemma copy_out_other:
  assumes "mq_lists H qs fs s" and "x \<in> set (qs @ fs)" and "f \<in> set (qs @ fs)" and "x \<noteq> f" and "int (length bs) \<le> mq_msgsize s" and "int n \<le> mq_msgsize s"
  shows "copy_out (x + 12) n (copy_in (f + 12) bs m) = copy_out (x + 12) n m"
proof -
  have "x \<in> set (slots H s)" "f \<in> set (slots H s)" using assms(1-3) by (simp_all add: mq_lists_def)
  note apart = slots_apart [OF this assms(4)]
  have "\<not> (f + 12 \<le> x + 12 + k \<and> x + 12 + k < f + 12 + length bs)" if "k < n" for k
  proof
    assume a: "f + 12 \<le> x + 12 + k \<and> x + 12 + k < f + 12 + length bs"
    then have "x + 12 + k = f + 12 + (x + k - f)" "x + k - f < length bs" by linarith+
    moreover have "int k < mq_msgsize s" "int (x + k - f) < mq_msgsize s" using that assms(5,6) calculation(2) by linarith+
    ultimately show False using apart by blast
  qed
  then show ?thesis unfolding copy_out_def copy_in_def by (intro map_cong refl if_not_P) simp
qed

lemma takeWhile_map_eq: "(\<And>x. x \<in> set xs \<Longrightarrow> P (f x) = Q x) \<Longrightarrow>
    takeWhile P (map f xs) = map f (takeWhile Q xs) \<and> dropWhile P (map f xs) = map f (dropWhile Q xs)"
  by (induction xs) simp_all

lemma mq_put_ok:
  assumes "mq_lists H qs (f # fs) s" and "int (length ptr) \<le> mq_msgsize s"
  shows "\<exists>t us. mq_put ptr prio s = Ok () t \<and> mq_lists H us fs t \<and> map (mq_msg t) us = insert_after rank (prio, ptr) (map (mq_msg s) qs) \<and>
    mq_maxmsg t = mq_maxmsg s \<and> mq_msgsize t = mq_msgsize s \<and> signals t = signals s + (if mq_curmsgs s = 0 then 1 else 0)"
proof -
  let ?a = "(upd_msg f (\<lambda>m. m\<lparr>msg_prio := prio, msg_len := length ptr\<rparr>) s)\<lparr>body := copy_in (f + 12) ptr (body s)\<rparr>"
  let ?b = "?a\<lparr>mqh_free := msg_next (msgs ?a f)\<rparr>"
  define t1 t2 where t12: "t1 = takeWhile (\<lambda>y. msg_rank ?b y \<le> - uint prio) qs" "t2 = dropWhile (\<lambda>y. msg_rank ?b y \<le> - uint prio) qs"
  have qs: "qs = t1 @ t2" by (simp add: t12)
  have l: "linked (nxt s) (mqh_head s) qs" "linked (nxt s) f (f # fs)" "mqh_free s = f" "distinct (qs @ f # fs)" "set (qs @ f # fs) = set (slots H s)"
    "mq_curmsgs s = int (length qs)" "\<And>x. x \<in> set qs \<Longrightarrow> int (msg_len (msgs s x)) \<le> mq_msgsize s"
    using assms(1) by (auto simp: mq_lists_def)
  have nb: "nxt ?b = nxt s" by (auto simp: upd_msg_def)
  have "\<exists>t. mq_link prio f ?b = Ok () t \<and> linked (nxt t) (mqh_head t) (t1 @ f # t2) \<and> relinked (insert f (set qs)) ?b t"
    unfolding t12 by (rule mq_link_ok) (use l nb in \<open>auto simp: upd_msg_def\<close>)
  then obtain t where t: "mq_link prio f ?b = Ok () t" "linked (nxt t) (mqh_head t) (t1 @ f # t2)" "relinked (insert f (set qs)) ?b t" by blast
  obtain M h where M: "t = ?b\<lparr>msgs := M, mqh_head := h\<rparr>" "\<And>x. msg_prio (M x) = msg_prio (msgs ?b x)" "\<And>x. msg_len (M x) = msg_len (msgs ?b x)"
    "\<And>x. x \<notin> insert f (set qs) \<Longrightarrow> msg_next (M x) = nxt ?b x" using t(3) by (auto simp: relinked_def)
  let ?u = "t\<lparr>signals := (if mq_curmsgs t = 0 then signals t + 1 else signals t), mq_curmsgs := mq_curmsgs t + 1\<rparr>"
  have put: "mq_put ptr prio s = Ok () ?u" using l(2,3) t(1) by (simp add: mq_put_def Let_def)
  have m: "mq_msg ?u x = mq_msg s x" if x: "x \<in> set qs" for x
  proof -
    have "x \<noteq> f" using x l(4) by auto
    then show ?thesis using copy_out_other [OF assms(1), of x f ptr] x l(7) [OF x] assms(2) by (simp add: mq_msg_def M)
  qed
  moreover have "mq_msg ?u f = (prio, ptr)" by (simp add: mq_msg_def M copy_out_in)
  moreover have "takeWhile (\<lambda>x. rank x \<le> rank (prio, ptr)) (map (mq_msg s) qs) = map (mq_msg s) t1 \<and>
      dropWhile (\<lambda>x. rank x \<le> rank (prio, ptr)) (map (mq_msg s) qs) = map (mq_msg s) t2"
    unfolding t12 by (rule takeWhile_map_eq) (use l(4) in \<open>auto simp: mq_msg_def\<close>)
  ultimately have c: "map (mq_msg ?u) (t1 @ f # t2) = insert_after rank (prio, ptr) (map (mq_msg s) qs)"
    unfolding insert_after_def by (simp add: qs)
  have "msg_next (M x) = nxt s x" if "x \<in> set fs" for x
    using M(4) [of x] that l(4) nb by (auto dest: fun_cong [of _ _ x])
  then have "linked (nxt ?u) (mqh_free ?u) fs"
    using l(2) linked_keep [of "nxt s" "nxt s f" fs "\<lambda>x. msg_next (M x)"] by (simp add: M)
  then have "mq_lists H (t1 @ f # t2) fs ?u"
    using l t(2) assms(2) by (auto simp: mq_lists_def M slots_def qs)
  then show ?thesis using put c by (intro exI [of _ ?u] exI [of _ "t1 @ f # t2"]) (simp add: M)
qed

lemma mq_get_ok:
  assumes "mq_lists H (x # qs) fs s"
  shows "\<exists>t. mq_get s = Ok (snd (mq_msg s x), fst (mq_msg s x)) t \<and> mq_lists H qs (x # fs) t \<and> map (mq_msg t) qs = map (mq_msg s) qs \<and>
    mq_maxmsg t = mq_maxmsg s \<and> mq_msgsize t = mq_msgsize s \<and> signals t = signals s + (if mq_curmsgs s = mq_maxmsg s then 1 else 0)"
proof -
  have l: "mqh_head s = x" "x \<noteq> 0" "linked (nxt s) (nxt s x) qs" "linked (nxt s) (mqh_free s) fs" "distinct (x # qs @ fs)"
    using assms by (auto simp: mq_lists_def)
  let ?t = "(upd_msg x (msg_next_update (\<lambda>_. mqh_free s)) (s\<lparr>mqh_head := nxt s x\<rparr>))\<lparr>mqh_free := x, mq_curmsgs := mq_curmsgs s - 1,
      signals := (if mq_curmsgs s = mq_maxmsg s then signals s + 1 else signals s)\<rparr>"
  have "mq_get s = Ok (snd (mq_msg s x), fst (mq_msg s x)) ?t" using l(1,2) by (simp add: mq_get_def Let_def mq_msg_def upd_msg_def)
  moreover have "linked (nxt ?t) (nxt s x) qs" "linked (nxt ?t) (mqh_free s) fs"
    by (rule linked_keep [OF l(3)], use l(5) in auto) (rule linked_keep [OF l(4)], use l(5) in auto)
  then have "mq_lists H qs (x # fs) ?t" using assms l by (auto simp: mq_lists_def slots_def)
  moreover have "map (mq_msg ?t) qs = map (mq_msg s) qs" using l(5) by (auto simp: mq_msg_def)
  ultimately show ?thesis by (intro exI [of _ ?t]) simp
qed

lemma mq_init_ok:
  assumes "mq_init H maxmsg msgsize s0 = Inr s" and "0 < H"
  shows "mq_lists H [] (slots H s) s \<and> mq_maxmsg s = maxmsg \<and> mq_msgsize s = msgsize \<and> 0 < maxmsg"
proof -
  let ?sz = "12 + MSGSIZE (nat msgsize)" and ?n = "nat maxmsg - 1"
  let ?a = "s0\<lparr>mq_maxmsg := maxmsg, mq_msgsize := msgsize, mq_curmsgs := 0, mqh_nwait := 0, mqh_pid := 0, mqh_head := 0, mqh_free := H\<rparr>"
  let ?f = "\<lambda>n. fold (\<lambda>i. upd_msg (H + i * ?sz) (msg_next_update (\<lambda>_. H + i * ?sz + ?sz))) [0..<n] ?a"
  have s: "0 < maxmsg" "0 < msgsize" "s = upd_msg (H + ?n * ?sz) (msg_next_update (\<lambda>_. 0)) (?f ?n)"
    using assms(1) by (auto simp: mq_init_def Let_def split: if_splits)
  have frame: "mqh_head (?f n) = 0 \<and> mqh_free (?f n) = H \<and> mq_curmsgs (?f n) = 0 \<and> mq_maxmsg (?f n) = maxmsg \<and> mq_msgsize (?f n) = msgsize \<and>
      (\<forall>i < n. nxt (?f n) (H + i * ?sz) = H + (i + 1) * ?sz)" for n
    by (induction n) (auto simp: less_Suc_eq)
  have n: "nxt s (H + i * ?sz) = (if i < ?n then H + (i + 1) * ?sz else 0)" if "i < nat maxmsg" for i
    using frame [of ?n] that s(3) by (cases "i = ?n") auto
  have l: "linked (nxt s) (H + i * ?sz) (map (\<lambda>i. H + i * ?sz) [i..<nat maxmsg])" if "i < nat maxmsg" for i
    using that
  proof (induction "nat maxmsg - i" arbitrary: i)
    case (Suc k)
    show ?case
    proof (cases "i = ?n")
      case True
      then have "[i..<nat maxmsg] = [i]" using Suc.prems s(1) by (simp add: upt_rec)
      then show ?thesis using n [OF Suc.prems] True assms(2) by simp
    next
      case False
      then have "i + 1 < nat maxmsg" "k = nat maxmsg - (i + 1)" using Suc.prems Suc.hyps(2) by linarith+
      moreover have "[i..<nat maxmsg] = i # [i + 1..<nat maxmsg]" using Suc.prems by (simp add: upt_rec)
      ultimately show ?thesis using Suc.hyps(1) [of "i + 1"] n [OF Suc.prems] assms(2) by auto
    qed
  qed simp
  have "distinct (slots H s)" by (auto simp: slots_def distinct_map inj_on_def)
  then show ?thesis using l [of 0] frame [of ?n] s by (auto simp: mq_lists_def slots_def)
qed

text \<open>What the queue file means: the messages in arrival order are \<open>q\<close>, those in the file are sorted by priority.\<close>

definition mq_abs :: "nat \<Rightarrow> message list \<Rightarrow> mymq_hdr \<Rightarrow> bool" where
  "mq_abs H q s \<longleftrightarrow> (\<exists>qs fs. mq_lists H qs fs s \<and> map (mq_msg s) qs = sort_key rank q)"

lemma mq_lists_count:
  assumes "mq_lists H qs fs s"
  shows "length qs + length fs = nat (mq_maxmsg s)"
proof -
  have "distinct (slots H s)" by (auto simp: slots_def distinct_map inj_on_def)
  then have "card (set (slots H s)) = nat (mq_maxmsg s)" by (simp add: distinct_card) (simp add: slots_def)
  moreover have "card (set (qs @ fs)) = length (qs @ fs)" "set (qs @ fs) = set (slots H s)"
    using assms unfolding mq_lists_def by (blast intro: distinct_card)+
  ultimately show ?thesis by simp
qed

lemma mq_abs_length: "mq_abs H q s \<Longrightarrow> mq_curmsgs s = int (length q)"
  by (metis length_map length_sort mq_abs_def mq_lists_def)

lemma mq_notify_reader_same [simp]:
  "mq_lists H qs fs (mq_notify_reader s) = mq_lists H qs fs s" "mq_msg (mq_notify_reader s) = mq_msg s"
  "mq_maxmsg (mq_notify_reader s) = mq_maxmsg s" "mq_msgsize (mq_notify_reader s) = mq_msgsize s" "signals (mq_notify_reader s) = signals s"
  by (auto simp: mq_notify_reader_def mq_lists_def mq_msg_def slots_def Let_def fun_eq_iff)

lemma mq_put_abs:
  assumes "mq_abs H q s" and "int (length d) \<le> mq_msgsize s" and "int (length q) < mq_maxmsg s"
  shows "\<exists>t. mq_put d p s = Ok () t \<and> mq_abs H (q @ [(p, d)]) t \<and> mq_maxmsg t = mq_maxmsg s \<and> mq_msgsize t = mq_msgsize s \<and>
    signals t = signals s + (if q = [] then 1 else 0)"
proof -
  obtain qs fs where l: "mq_lists H qs fs s" "map (mq_msg s) qs = sort_key rank q" using assms(1) by (auto simp: mq_abs_def)
  have "length qs = length q" using l(2) by (metis length_map length_sort)
  then have "length fs > 0" using mq_lists_count [OF l(1)] assms(3) by linarith
  then obtain f fs' where "fs = f # fs'" by (cases fs) auto
  then show ?thesis using mq_put_ok [of H qs f fs' s d p] l assms(2) mq_abs_length [OF assms(1)] unfolding mq_abs_def
    by (fastforce simp: sort_key_snoc)
qed

lemma mq_get_abs:
  assumes "mq_abs H q s" and "q \<noteq> []"
  shows "\<exists>t. mq_get s = Ok (snd (pq_best q), fst (pq_best q)) t \<and> mq_abs H (remove1 (pq_best q) q) t \<and> mq_maxmsg t = mq_maxmsg s \<and> mq_msgsize t = mq_msgsize s \<and> signals t = signals s + (if mq_curmsgs s = mq_maxmsg s then 1 else 0)"
proof -
  obtain qs fs where l: "mq_lists H qs fs s" "map (mq_msg s) qs = sort_key rank q" using assms(1) by (auto simp: mq_abs_def)
  then obtain x xs where x: "qs = x # xs" "mq_msg s x = pq_best q" "map (mq_msg s) xs = sort_key rank (remove1 (pq_best q) q)"
    unfolding sort_key_best [OF assms(2)] by (cases qs) auto
  from mq_get_ok [of H x xs fs s] l(1) x(1) obtain t where t: "mq_get s = Ok (snd (mq_msg s x), fst (mq_msg s x)) t" "mq_lists H xs (x # fs) t"
    "map (mq_msg t) xs = map (mq_msg s) xs" "mq_maxmsg t = mq_maxmsg s \<and> mq_msgsize t = mq_msgsize s \<and> signals t = signals s + (if mq_curmsgs s = mq_maxmsg s then 1 else 0)"
    by blast
  then have "mq_abs H (remove1 (pq_best q) q) t" using x(3) unfolding mq_abs_def by (intro exI [of _ xs] exI [of _ "x # fs"]) simp
  then show ?thesis using t x(2) by (intro exI [of _ t]) simp
qed

lemma mq_call_refines:
  assumes "mq_abs H q s" and "mqi_magic info = MQI_MAGIC" and "mqi_flags info AND MQ_NONBLOCK \<noteq> 0" and "0 < mq_maxmsg s"
  shows "\<exists>t. mq_call wait info op s = Ok (fst (pq_step (mq_maxmsg s) (mq_msgsize s) op q)) t \<and>
    mq_abs H (snd (pq_step (mq_maxmsg s) (mq_msgsize s) op q)) t \<and> mq_maxmsg t = mq_maxmsg s \<and> mq_msgsize t = mq_msgsize s"
proof (cases op)
  case (Send d p)
  have c: "mq_curmsgs s = int (length q)" by (rule mq_abs_length [OF assms(1)])
  have a: "mq_abs H q (mq_notify_reader s)" using assms(1) by (simp add: mq_abs_def)
  show ?thesis using Send c assms mq_put_abs [OF assms(1), of d p] mq_put_abs [OF a, of d p]
    by (auto simp: mymq_send_def) (subst iterK_unfold, auto)
next
  case (Receive n)
  have c: "mq_curmsgs s = int (length q)" by (rule mq_abs_length [OF assms(1)])
  show ?thesis using Receive c assms mq_get_abs [OF assms(1)] by (auto simp: mymq_receive_def)
qed

text \<open>
  C5. A message queue file that \<^verbatim>\<open>mymq_open\<close> has laid out behaves like the abstract queue: for every sequence of \<^verbatim>\<open>mymq_send\<close> and
  \<^verbatim>\<open>mymq_receive\<close> calls through a descriptor that does not block, each call returns exactly what the queue returns. A receiver gets
  the oldest message of the highest priority with its bytes unchanged, full and empty queues give \<^verbatim>\<open>EAGAIN\<close>, wrong sizes \<^verbatim>\<open>EMSGSIZE\<close>,
  and none of the calls aborts or runs for ever.
\<close>

theorem mqueue_refines:
  assumes "mq_init H maxmsg msgsize s0 = Inr s" and "0 < H" and "mqi_magic info = MQI_MAGIC" and "mqi_flags info AND MQ_NONBLOCK \<noteq> 0"
  shows "\<exists>t. mq_run wait info ops s = Ok (pq_run maxmsg msgsize ops []) t"
proof -
  have "\<exists>t. mq_run wait info ops s = Ok (pq_run maxmsg msgsize ops q) t"
    if "mq_abs H q s" "mq_maxmsg s = maxmsg" "mq_msgsize s = msgsize" "0 < maxmsg" for q s
    using that
  proof (induction ops arbitrary: q s)
    case (Cons op ops)
    from mq_call_refines [OF Cons.prems(1) assms(3,4), of wait op] Cons.prems obtain t where
      "mq_call wait info op s = Ok (fst (pq_step maxmsg msgsize op q)) t" "mq_abs H (snd (pq_step maxmsg msgsize op q)) t"
      "mq_maxmsg t = maxmsg" "mq_msgsize t = msgsize" by auto
    then show ?case using Cons.IH [of "snd (pq_step maxmsg msgsize op q)" t] Cons.prems(4) by (auto simp: case_prod_beta)
  qed simp
  moreover have "mq_abs H [] s" using mq_init_ok [OF assms(1,2)] by (auto simp: mq_abs_def)
  ultimately show ?thesis using mq_init_ok [OF assms(1,2)] by blast
qed

definition blank_file :: mymq_hdr where
  "blank_file = \<lparr>mq_maxmsg = 0, mq_msgsize = 0, mq_curmsgs = 0, mqh_head = 0, mqh_free = 0, mqh_nwait = 0, mqh_pid = 0,
     mqh_event = \<lparr>sigev_signal = False, sigev_signo = 0, sigev_value = 0\<rparr>, msgs = (\<lambda>_. \<lparr>msg_next = 0, msg_len = 0, msg_prio = 0\<rparr>),
     body = (\<lambda>_. 0), signals = 0, sigqueued = []\<rparr>"

theorem mqueue_refines_witness:
  "\<exists>s t. mq_init 100 2 8 blank_file = Inr s \<and>
    mq_run (\<lambda>_. Hang) \<lparr>mqi_magic = MQI_MAGIC, mqi_flags = MQ_NONBLOCK\<rparr> [Receive 8, Send [1] 4, Send [2, 3] 7, Send [4] 9, Receive 8, Receive 8] s =
      Ok [Failed MQ_EAGAIN, Sent, Sent, Failed MQ_EAGAIN, Got [2, 3] 7, Got [1] 4] t"
proof -
  obtain s where s: "mq_init 100 2 8 blank_file = Inr s" by (simp add: mq_init_def Let_def)
  let ?ops = "[Receive 8, Send [1] 4, Send [2, 3] 7, Send [4] 9, Receive 8, Receive 8]"
  have "pq_run 2 8 ?ops [] = [Failed MQ_EAGAIN, Sent, Sent, Failed MQ_EAGAIN, Got [2, 3] 7, Got [1] 4]"
    by (simp add: pq_best_def)
  then show ?thesis
    using mqueue_refines [OF s, of "\<lparr>mqi_magic = MQI_MAGIC, mqi_flags = MQ_NONBLOCK\<rparr>" "\<lambda>_. Hang" ?ops] s by auto
qed

subsection \<open>Threads and wake-ups\<close>

text \<open>
  Threads that call the library at the same time. A call that has to wait gives up the mutex and sleeps; \<^verbatim>\<open>pthread_cond_signal\<close> wakes one
  sleeping thread, if there is one, and a woken thread tests its loop condition again once it has the mutex. A call that returns
  without waiting is one that also returns when \<^verbatim>\<open>pthread_cond_wait\<close> never does.
\<close>

datatype mq_thread = Ready | Sleeping mq_op | Woken mq_op

definition wake_one :: "nat \<Rightarrow> nat \<Rightarrow> (nat \<Rightarrow> mq_thread) \<Rightarrow> (nat \<Rightarrow> mq_thread) \<Rightarrow> bool" where
  "wake_one before after T T' \<longleftrightarrow>
     (if before = after \<or> (\<forall>t op. T t \<noteq> Sleeping op) then T' = T else \<exists>t op. T t = Sleeping op \<and> T' = T(t := Woken op))"

fun may_go :: "mq_op \<Rightarrow> mymq_hdr \<Rightarrow> bool" where
  "may_go (Send d p) s \<longleftrightarrow> mq_curmsgs s < mq_maxmsg s"
| "may_go (Receive n) s \<longleftrightarrow> mq_curmsgs s \<noteq> 0"

fun go_on :: "mq_op \<Rightarrow> mymq_hdr \<Rightarrow> (unit, mymq_hdr) outcome" where
  "go_on (Send d p) s = mq_put d p s"
| "go_on (Receive n) s = bindK (mq_get (s\<lparr>mqh_nwait := mqh_nwait s - 1\<rparr>)) (\<lambda>_ s. Ok () s)"

inductive mq_sys :: "mymq_info \<Rightarrow> mymq_hdr \<times> (nat \<Rightarrow> mq_thread) \<Rightarrow> mymq_hdr \<times> (nat \<Rightarrow> mq_thread) \<Rightarrow> bool" for info where
  call: "T t = Ready \<Longrightarrow> mq_call (\<lambda>_. Hang) info op s = Ok r s' \<Longrightarrow> wake_one (signals s) (signals s') T T' \<Longrightarrow> mq_sys info (s, T) (s', T')"
| sleep_send: "T t = Ready \<Longrightarrow> mq_call (\<lambda>_. Hang) info (Send d p) s = Hang \<Longrightarrow> mq_sys info (s, T) (s, T(t := Sleeping (Send d p)))"
| sleep_receive: "T t = Ready \<Longrightarrow> mq_call (\<lambda>_. Hang) info (Receive n) s = Hang \<Longrightarrow>
    mq_sys info (s, T) (s\<lparr>mqh_nwait := mqh_nwait s + 1\<rparr>, T(t := Sleeping (Receive n)))"
| sleep_again: "T t = Woken op \<Longrightarrow> \<not> may_go op s \<Longrightarrow> mq_sys info (s, T) (s, T(t := Sleeping op))"
| resume: "T t = Woken op \<Longrightarrow> may_go op s \<Longrightarrow> go_on op s = Ok () s' \<Longrightarrow> wake_one (signals s) (signals s') (T(t := Ready)) T' \<Longrightarrow> mq_sys info (s, T) (s', T')"

lemma mq_abs_nwait [simp]: "mq_abs H q (s\<lparr>mqh_nwait := n\<rparr>) = mq_abs H q s"
  by (simp add: mq_abs_def mq_lists_def mq_msg_def slots_def fun_eq_iff cong: map_cong)

abbreviation (input) blocking :: mymq_info where "blocking \<equiv> \<lparr>mqi_magic = MQI_MAGIC, mqi_flags = 0\<rparr>"

lemma receive_sleeps:
  assumes "mq_abs H [] s" and "mq_msgsize s \<le> int n" and "T t = Ready"
  shows "mq_sys blocking (s, T) (s\<lparr>mqh_nwait := mqh_nwait s + 1\<rparr>, T(t := Sleeping (Receive n)))"
proof (rule mq_sys.sleep_receive [of T t, OF assms(3)])
  show "mq_call (\<lambda>_. Hang) blocking (Receive n) s = Hang"
    using mq_abs_length [OF assms(1)] assms(2) by (simp add: mymq_receive_def) (subst iterK_unfold, simp)
qed

lemma send_returns:
  assumes "mq_abs H q s" and "int (length d) \<le> mq_msgsize s" and "int (length q) < mq_maxmsg s"
  shows "\<exists>s'. mq_call (\<lambda>_. Hang) blocking (Send d p) s = Ok Sent s' \<and> mq_abs H (q @ [(p, d)]) s' \<and> mq_maxmsg s' = mq_maxmsg s \<and>
    mq_msgsize s' = mq_msgsize s \<and> signals s' = signals s + (if q = [] then 1 else 0)"
proof -
  have c: "mq_curmsgs s = int (length q)" by (rule mq_abs_length [OF assms(1)])
  have a: "mq_abs H q (mq_notify_reader s)" using assms(1) by (simp add: mq_abs_def)
  show ?thesis using c assms(2,3) mq_put_abs [OF assms(1), of d p] mq_put_abs [OF a, of d p]
    by (auto simp: mymq_send_def) (subst iterK_unfold, auto)
qed

text \<open>
  C37. The wake-ups of the message queue are too few. Two threads wait for messages, two messages are sent, and one of the threads gets
  the first of them: then the other one still sleeps on a queue that holds a message, and nobody is on the way to wake it, because
  \<^verbatim>\<open>mymq_send\<close> signals only when the queue was empty.
\<close>

theorem mqueue_lost_wakeup:
  "\<exists>s0 s T. mq_init 100 3 8 blank_file = Inr s0 \<and> (mq_sys blocking)\<^sup>*\<^sup>* (s0, \<lambda>_. Ready) (s, T) \<and>
    mq_curmsgs s = 1 \<and> T = (\<lambda>_. Ready)(1 := Sleeping (Receive 8))"
proof -
  obtain s0 where s0: "mq_init 100 3 8 blank_file = Inr s0" by (simp add: mq_init_def Let_def)
  have a0: "mq_abs 100 [] s0" "mq_maxmsg s0 = 3" "mq_msgsize s0 = 8" using mq_init_ok [OF s0] by (auto simp: mq_abs_def)
  let ?R = "Sleeping (Receive 8)"
  let ?s1 = "s0\<lparr>mqh_nwait := mqh_nwait s0 + 1\<rparr>" and ?T1 = "(\<lambda>_. Ready)(1 := ?R)"
  let ?s2 = "?s1\<lparr>mqh_nwait := mqh_nwait ?s1 + 1\<rparr>" and ?T2 = "(\<lambda>_. Ready)(1 := ?R, 2 := ?R)"
  have 1: "mq_sys blocking (s0, \<lambda>_. Ready) (?s1, ?T1)" by (rule receive_sleeps) (use a0 in simp_all)
  have 2: "mq_sys blocking (?s1, ?T1) (?s2, ?T2)" by (rule receive_sleeps) (use a0 in simp_all)
  obtain s3 where s3: "mq_call (\<lambda>_. Hang) blocking (Send [7] 0) ?s2 = Ok Sent s3" "mq_abs 100 [(0, [7])] s3" "mq_maxmsg s3 = 3" "mq_msgsize s3 = 8"
    "signals s3 = signals ?s2 + 1" using send_returns [of 100 "[]" ?s2 "[7]" 0] a0 by auto
  let ?T3 = "?T2(2 := Woken (Receive 8))"
  have w: "wake_one (signals ?s2) (signals s3) ?T2 ?T3" unfolding wake_one_def s3(5) by (auto intro!: exI [of _ 2])
  have 3: "mq_sys blocking (?s2, ?T2) (s3, ?T3)" by (rule mq_sys.call [where t = 3, OF _ s3(1) w]) simp
  obtain s4 where s4: "mq_call (\<lambda>_. Hang) blocking (Send [8] 0) s3 = Ok Sent s4" "mq_abs 100 [(0, [7]), (0, [8])] s4" "mq_maxmsg s4 = 3"
    "signals s4 = signals s3" using send_returns [of 100 "[(0, [7])]" s3 "[8]" 0] s3 by auto
  have 4: "mq_sys blocking (s3, ?T3) (s4, ?T3)" by (rule mq_sys.call [where t = 3, OF _ s4(1)]) (simp_all add: wake_one_def s4(4))
  have b: "mq_abs 100 [(0, [7]), (0, [8])] (s4\<lparr>mqh_nwait := mqh_nwait s4 - 1\<rparr>)" using s4(2) by simp
  have best: "pq_best [(0, [7]), (0, [8])] = (0, [7])" by (simp add: pq_best_def)
  obtain s5 where s5: "go_on (Receive 8) s4 = Ok () s5" "mq_abs 100 [(0, [8])] s5" "signals s5 = signals s4"
    using mq_get_abs [OF b] s4(3) mq_abs_length [OF s4(2)] by (auto simp: best)
  have 5: "mq_sys blocking (s4, ?T3) (s5, ?T1)"
    by (rule mq_sys.resume [where t = 2 and op = "Receive 8"]) (use s5 mq_abs_length [OF s4(2)] in \<open>auto simp: wake_one_def\<close>)
  have "(mq_sys blocking)\<^sup>*\<^sup>* (s0, \<lambda>_. Ready) (s5, ?T1)"
    using 1 2 3 4 5 by (meson converse_rtranclp_into_rtranclp rtranclp.rtrancl_refl)
  then show ?thesis using s0 mq_abs_length [OF s5(2)] by (intro exI [of _ s0] exI [of _ s5] exI [of _ ?T1]) simp
qed

end
