(* ===== verification/Rwlock.thy ===== *)
theory Rwlock
  imports Kernel_Prelude
begin

section \<open>Read-write locks\<close>

text \<open>
  \<^verbatim>\<open>unpv22e/my_rwlock\<close>: read-write locks on top of a mutex and two condition variables, with preference for writers. The mutex makes what a call
  does up to its return or to \<^verbatim>\<open>pthread_cond_wait\<close> one step; \<open>rdlock_loop\<close> and \<open>wrlock_loop\<close> are the loops from their test on, so a woken thread goes
  on with them after it has taken itself off the number of waiters. Threads are the states of \<open>rw_thread\<close>, each of them holds the
  lock at most once. The calls on the mutex and the condition variables are those of the threads library, assumed not to fail.
\<close>

subsection \<open>Model\<close>

record rwlock =
  rw_magic :: u32
  rw_nwaitreaders :: int
  rw_nwaitwriters :: int
  rw_refcount :: int

abbreviation (input) RW_MAGIC :: u32 where "RW_MAGIC \<equiv> 0x19283746"

datatype rw_errno = RW_EINVAL | RW_EBUSY
datatype rw_result = Granted | Refused rw_errno | Waits | Dumps
datatype rw_wake = WakesNobody | SignalWriter | BroadcastReaders

definition pthread_rwlock_init :: "rwlock \<Rightarrow> rwlock" where
  "pthread_rwlock_init rw = rw\<lparr>rw_nwaitreaders := 0, rw_nwaitwriters := 0, rw_refcount := 0, rw_magic := RW_MAGIC\<rparr>"

definition pthread_rwlock_destroy :: "rwlock \<Rightarrow> rw_result \<times> rwlock" where
  "pthread_rwlock_destroy rw =
     (if rw_magic rw \<noteq> RW_MAGIC then (Refused RW_EINVAL, rw)
      else if rw_refcount rw \<noteq> 0 \<or> rw_nwaitreaders rw \<noteq> 0 \<or> rw_nwaitwriters rw \<noteq> 0 then (Refused RW_EBUSY, rw)
      else (Granted, rw\<lparr>rw_magic := 0\<rparr>))"

definition rdlock_loop :: "rwlock \<Rightarrow> rw_result \<times> rwlock" where
  "rdlock_loop rw =
     (if rw_refcount rw < 0 \<or> rw_nwaitwriters rw > 0 then (Waits, rw\<lparr>rw_nwaitreaders := rw_nwaitreaders rw + 1\<rparr>)
      else (Granted, rw\<lparr>rw_refcount := rw_refcount rw + 1\<rparr>))"

definition pthread_rwlock_rdlock :: "rwlock \<Rightarrow> rw_result \<times> rwlock" where
  "pthread_rwlock_rdlock rw = (if rw_magic rw \<noteq> RW_MAGIC then (Refused RW_EINVAL, rw) else rdlock_loop rw)"

definition rdlock_woken :: "rwlock \<Rightarrow> rw_result \<times> rwlock" where
  "rdlock_woken rw = rdlock_loop (rw\<lparr>rw_nwaitreaders := rw_nwaitreaders rw - 1\<rparr>)"

definition pthread_rwlock_tryrdlock :: "rwlock \<Rightarrow> rw_result \<times> rwlock" where
  "pthread_rwlock_tryrdlock rw =
     (if rw_magic rw \<noteq> RW_MAGIC then (Refused RW_EINVAL, rw)
      else if rw_refcount rw < 0 \<or> rw_nwaitwriters rw > 0 then (Refused RW_EBUSY, rw)
      else (Granted, rw\<lparr>rw_refcount := rw_refcount rw + 1\<rparr>))"

definition wrlock_loop :: "rwlock \<Rightarrow> rw_result \<times> rwlock" where
  "wrlock_loop rw =
     (if rw_refcount rw \<noteq> 0 then (Waits, rw\<lparr>rw_nwaitwriters := rw_nwaitwriters rw + 1\<rparr>) else (Granted, rw\<lparr>rw_refcount := - 1\<rparr>))"

definition pthread_rwlock_wrlock :: "rwlock \<Rightarrow> rw_result \<times> rwlock" where
  "pthread_rwlock_wrlock rw = (if rw_magic rw \<noteq> RW_MAGIC then (Refused RW_EINVAL, rw) else wrlock_loop rw)"

definition wrlock_woken :: "rwlock \<Rightarrow> rw_result \<times> rwlock" where
  "wrlock_woken rw = wrlock_loop (rw\<lparr>rw_nwaitwriters := rw_nwaitwriters rw - 1\<rparr>)"

definition pthread_rwlock_trywrlock :: "rwlock \<Rightarrow> rw_result \<times> rwlock" where
  "pthread_rwlock_trywrlock rw =
     (if rw_magic rw \<noteq> RW_MAGIC then (Refused RW_EINVAL, rw)
      else if rw_refcount rw \<noteq> 0 then (Refused RW_EBUSY, rw) else (Granted, rw\<lparr>rw_refcount := - 1\<rparr>))"

definition pthread_rwlock_unlock :: "rwlock \<Rightarrow> rw_result \<times> rw_wake \<times> rwlock" where
  "pthread_rwlock_unlock rw =
     (if rw_magic rw \<noteq> RW_MAGIC then (Refused RW_EINVAL, WakesNobody, rw)
      else if rw_refcount rw \<le> 0 \<and> rw_refcount rw \<noteq> - 1 then (Dumps, WakesNobody, rw)
      else let rw = rw\<lparr>rw_refcount := (if rw_refcount rw > 0 then rw_refcount rw - 1 else 0)\<rparr>
           in (Granted,
               if rw_nwaitwriters rw > 0 then (if rw_refcount rw = 0 then SignalWriter else WakesNobody)
               else if rw_nwaitreaders rw > 0 then BroadcastReaders else WakesNobody, rw))"

subsection \<open>Threads\<close>

datatype rw_thread = Idle | Reading | Writing | RdSleeps | RdWoken | WrSleeps | WrWoken

text \<open>The threads that a wake-up reaches: one sleeping writer if there is any, or all sleeping readers.\<close>

definition rw_wakes :: "rw_wake \<Rightarrow> (nat \<Rightarrow> rw_thread) \<Rightarrow> (nat \<Rightarrow> rw_thread) \<Rightarrow> bool" where
  "rw_wakes w T T' =
     (case w of
        WakesNobody \<Rightarrow> T' = T
      | BroadcastReaders \<Rightarrow> T' = (\<lambda>t. if T t = RdSleeps then RdWoken else T t)
      | SignalWriter \<Rightarrow> if \<exists>t. T t = WrSleeps then \<exists>t. T t = WrSleeps \<and> T' = T(t := WrWoken) else T' = T)"

inductive rw_step :: "rwlock \<times> (nat \<Rightarrow> rw_thread) \<Rightarrow> rwlock \<times> (nat \<Rightarrow> rw_thread) \<Rightarrow> bool" where
  rd_granted: "T t = Idle \<Longrightarrow> pthread_rwlock_rdlock rw = (Granted, rw') \<Longrightarrow> rw_step (rw, T) (rw', T(t := Reading))"
| rd_waits: "T t = Idle \<Longrightarrow> pthread_rwlock_rdlock rw = (Waits, rw') \<Longrightarrow> rw_step (rw, T) (rw', T(t := RdSleeps))"
| rd_resumes: "T t = RdWoken \<Longrightarrow> rdlock_woken rw = (Granted, rw') \<Longrightarrow> rw_step (rw, T) (rw', T(t := Reading))"
| rd_waits_again: "T t = RdWoken \<Longrightarrow> rdlock_woken rw = (Waits, rw') \<Longrightarrow> rw_step (rw, T) (rw', T(t := RdSleeps))"
| tryrd: "T t = Idle \<Longrightarrow> pthread_rwlock_tryrdlock rw = (Granted, rw') \<Longrightarrow> rw_step (rw, T) (rw', T(t := Reading))"
| wr_granted: "T t = Idle \<Longrightarrow> pthread_rwlock_wrlock rw = (Granted, rw') \<Longrightarrow> rw_step (rw, T) (rw', T(t := Writing))"
| wr_waits: "T t = Idle \<Longrightarrow> pthread_rwlock_wrlock rw = (Waits, rw') \<Longrightarrow> rw_step (rw, T) (rw', T(t := WrSleeps))"
| wr_resumes: "T t = WrWoken \<Longrightarrow> wrlock_woken rw = (Granted, rw') \<Longrightarrow> rw_step (rw, T) (rw', T(t := Writing))"
| wr_waits_again: "T t = WrWoken \<Longrightarrow> wrlock_woken rw = (Waits, rw') \<Longrightarrow> rw_step (rw, T) (rw', T(t := WrSleeps))"
| trywr: "T t = Idle \<Longrightarrow> pthread_rwlock_trywrlock rw = (Granted, rw') \<Longrightarrow> rw_step (rw, T) (rw', T(t := Writing))"
| unlock: "T t \<in> {Reading, Writing} \<Longrightarrow> pthread_rwlock_unlock rw = (Granted, w, rw') \<Longrightarrow> rw_wakes w (T(t := Idle)) T' \<Longrightarrow> rw_step (rw, T) (rw', T')"
| wakes_by_itself: "T t = RdSleeps \<and> v = RdWoken \<or> T t = WrSleeps \<and> v = WrWoken \<Longrightarrow> rw_step (rw, T) (rw, T(t := v))"

definition number :: "rw_thread set \<Rightarrow> (nat \<Rightarrow> rw_thread) \<Rightarrow> int" where
  "number A T = int (card {t. T t \<in> A})"

definition active :: "(nat \<Rightarrow> rw_thread) \<Rightarrow> bool" where
  "active T \<longleftrightarrow> finite {t. T t \<noteq> Idle}"

lemma active_upd [simp]: "active T \<Longrightarrow> active (T(t := v))"
  unfolding active_def by (rule finite_subset [of _ "insert t {t. T t \<noteq> Idle}"]) auto

lemma number_finite: "active T \<Longrightarrow> Idle \<notin> A \<Longrightarrow> finite {t. T t \<in> A}"
  unfolding active_def by (rule finite_subset [of _ "{t. T t \<noteq> Idle}"]) auto

lemma number_upd:
  assumes "active T" and "Idle \<notin> A"
  shows "number A (T(t := v)) = number A T - (if T t \<in> A then 1 else 0) + (if v \<in> A then 1 else 0)"
proof -
  let ?B = "{x. T x \<in> A} - {t}"
  have f: "finite ?B" "finite {x. T x \<in> A}" using number_finite [OF assms] by simp_all
  have "{x. (T(t := v)) x \<in> A} = (if v \<in> A then insert t ?B else ?B)" by auto
  moreover have "T t \<in> A \<Longrightarrow> 0 < card {x. T x \<in> A}" using f by (auto simp: card_gt_0_iff)
  then have "int (card ?B) = int (card {x. T x \<in> A}) - (if T t \<in> A then 1 else 0)"
    using f by (auto simp: card_Diff_singleton_if)
  ultimately show ?thesis using f by (simp add: number_def card_insert_if)
qed

lemma number_pos: "active T \<Longrightarrow> Idle \<notin> A \<Longrightarrow> number A T > 0 \<longleftrightarrow> (\<exists>t. T t \<in> A)"
  using number_finite [of T A] by (auto simp: number_def card_gt_0_iff)

lemma number_nonneg [simp]: "0 \<le> number A T"
  by (simp add: number_def)

text \<open>
  The counters are exact, a writer is alone, and nobody sleeps whom the state of the lock does not keep waiting: a sleeping
  reader has a writer before it, a sleeping writer has a holder before it or another writer that is already woken.
\<close>

definition rw_inv :: "rwlock \<times> (nat \<Rightarrow> rw_thread) \<Rightarrow> bool" where
  "rw_inv = (\<lambda>(rw, T). active T \<and> rw_magic rw = RW_MAGIC \<and>
     rw_refcount rw = (if number {Writing} T > 0 then - 1 else number {Reading} T) \<and>
     number {Writing} T \<le> 1 \<and> (number {Writing} T > 0 \<longrightarrow> number {Reading} T = 0) \<and>
     rw_nwaitreaders rw = number {RdSleeps, RdWoken} T \<and> rw_nwaitwriters rw = number {WrSleeps, WrWoken} T \<and>
     (number {RdSleeps} T > 0 \<longrightarrow> rw_refcount rw < 0 \<or> rw_nwaitwriters rw > 0) \<and>
     (number {WrSleeps} T > 0 \<longrightarrow> rw_refcount rw \<noteq> 0 \<or> number {WrWoken} T > 0))"

lemmas rwlock_defs = pthread_rwlock_rdlock_def rdlock_loop_def rdlock_woken_def pthread_rwlock_tryrdlock_def
  pthread_rwlock_wrlock_def wrlock_loop_def wrlock_woken_def pthread_rwlock_trywrlock_def

lemma number_split: "active T \<Longrightarrow> number {RdSleeps, RdWoken} T = number {RdSleeps} T + number {RdWoken} T"
  "active T \<Longrightarrow> number {WrSleeps, WrWoken} T = number {WrSleeps} T + number {WrWoken} T"
proof -
  assume a: "active T"
  have c: "card ({t. T t \<in> {a}} \<union> {t. T t \<in> {b}}) = card {t. T t \<in> {a}} + card {t. T t \<in> {b}}" if "a \<noteq> Idle" "b \<noteq> Idle" "a \<noteq> b" for a b
    by (rule card_Un_disjoint) (use number_finite [OF a, of "{a}"] number_finite [OF a, of "{b}"] that in auto)
  have e: "{t. T t \<in> {a, b}} = {t. T t \<in> {a}} \<union> {t. T t \<in> {b}}" for a b by auto
  have "number {a, b} T = number {a} T + number {b} T" if "a \<noteq> Idle" "b \<noteq> Idle" "a \<noteq> b" for a b
    unfolding number_def e c [OF that] by simp
  then show "number {RdSleeps, RdWoken} T = number {RdSleeps} T + number {RdWoken} T" "number {WrSleeps, WrWoken} T = number {WrSleeps} T + number {WrWoken} T"
    by simp_all
qed

lemma number_broadcast:
  assumes "active T"
  defines "T' \<equiv> \<lambda>t. if T t = RdSleeps then RdWoken else T t"
  shows "active T'" "number {RdSleeps} T' = 0" "number {RdWoken} T' = number {RdSleeps} T + number {RdWoken} T"
    "number {v} T' = (if v \<in> {RdSleeps, RdWoken} then number {v} T' else number {v} T)"
proof -
  show "active T'" using assms(1) unfolding active_def T'_def by (rule rev_finite_subset) auto
  show "number {RdSleeps} T' = 0" by (simp add: number_def T'_def)
  have "{t. T' t \<in> {RdWoken}} = {t. T t \<in> {RdSleeps, RdWoken}}" by (auto simp: T'_def)
  then show "number {RdWoken} T' = number {RdSleeps} T + number {RdWoken} T" using number_split(1) [OF assms(1)] by (simp only: number_def)
  have "{t. T' t \<in> {v}} = {t. T t \<in> {v}}" if "v \<notin> {RdSleeps, RdWoken}" using that by (auto simp: T'_def)
  then show "number {v} T' = (if v \<in> {RdSleeps, RdWoken} then number {v} T' else number {v} T)" by (simp only: number_def split: if_splits) simp
qed

text \<open>The invariant over the numbers of threads alone, and how a step of one thread changes them.\<close>

definition rw_counts :: "rwlock \<Rightarrow> (rw_thread \<Rightarrow> int) \<Rightarrow> bool" where
  "rw_counts rw n \<longleftrightarrow> rw_magic rw = RW_MAGIC \<and> rw_refcount rw = (if n Writing > 0 then - 1 else n Reading) \<and> n Writing \<le> 1 \<and>
     (n Writing > 0 \<longrightarrow> n Reading = 0) \<and> rw_nwaitreaders rw = n RdSleeps + n RdWoken \<and> rw_nwaitwriters rw = n WrSleeps + n WrWoken \<and>
     (n RdSleeps > 0 \<longrightarrow> rw_refcount rw < 0 \<or> rw_nwaitwriters rw > 0) \<and> (n WrSleeps > 0 \<longrightarrow> rw_refcount rw \<noteq> 0 \<or> n WrWoken > 0)"

lemma rw_inv_counts: "rw_inv (rw, T) \<longleftrightarrow> active T \<and> rw_counts rw (\<lambda>v. number {v} T)"
  by (auto simp: rw_inv_def rw_counts_def number_split)

lemma rw_counts_cong: "(\<And>w. w \<noteq> Idle \<Longrightarrow> n w = n' w) \<Longrightarrow> rw_counts rw n = rw_counts rw n'"
  by (simp add: rw_counts_def)

definition moved :: "rw_thread \<Rightarrow> rw_thread \<Rightarrow> (rw_thread \<Rightarrow> int) \<Rightarrow> rw_thread \<Rightarrow> int" where
  "moved u v n w = n w - (if w = u then 1 else 0) + (if w = v then 1 else 0)"

lemma rw_move:
  assumes "rw_inv (rw, T)" and "T t = u"
    and "\<And>n. rw_counts rw n \<Longrightarrow> (\<And>w. 0 \<le> n w) \<Longrightarrow> (u \<noteq> Idle \<Longrightarrow> 0 < n u) \<Longrightarrow> rw_counts rw' (moved u v n)"
  shows "rw_inv (rw', T(t := v))"
proof -
  let ?n = "\<lambda>w. number {w} T"
  have a: "active T" "rw_counts rw ?n" using assms(1) by (simp_all add: rw_inv_counts)
  have "0 < ?n u" if "u \<noteq> Idle" using number_pos [OF a(1), of "{u}"] assms(2) that by auto
  then have "rw_counts rw' (moved u v ?n)" by (intro assms(3) [OF a(2)]) simp_all
  moreover have "number {w} (T(t := v)) = moved u v ?n w" if "w \<noteq> Idle" for w
    using number_upd [OF a(1), of "{w}" t v] assms(2) that by (auto simp: moved_def)
  ultimately show ?thesis using a(1) rw_counts_cong [of "\<lambda>w. number {w} (T(t := v))" "moved u v ?n" rw'] by (simp only: rw_inv_counts active_upd) blast
qed

lemma rd_counts:
  assumes "rw_counts rw n" and "\<And>w. 0 \<le> n w"
  shows "rdlock_loop rw = (Granted, rw') \<Longrightarrow> rw_counts rw' (moved Idle Reading n)"
    and "rdlock_loop rw = (Waits, rw') \<Longrightarrow> rw_counts rw' (moved Idle RdSleeps n)"
  using assms(1) assms(2) [of Writing] assms(2) [of Reading] assms(2) [of WrSleeps] assms(2) [of WrWoken]
  by (auto simp: rdlock_loop_def rw_counts_def moved_def split: if_splits)

lemma wr_counts:
  assumes "rw_counts rw n" and "\<And>w. 0 \<le> n w"
  shows "wrlock_loop rw = (Granted, rw') \<Longrightarrow> rw_counts rw' (moved Idle Writing n)"
    and "wrlock_loop rw = (Waits, rw') \<Longrightarrow> rw_counts rw' (moved Idle WrSleeps n)"
  using assms(1) assms(2) [of Writing] assms(2) [of Reading] assms(2) [of WrSleeps] assms(2) [of WrWoken]
  by (auto simp: wrlock_loop_def rw_counts_def moved_def split: if_splits)

lemma rd_woken_counts:
  assumes "rw_counts rw n" and "\<And>w. 0 \<le> n w" and "0 < n RdWoken"
  shows "rdlock_woken rw = (Granted, rw') \<Longrightarrow> rw_counts rw' (moved RdWoken Reading n)"
    and "rdlock_woken rw = (Waits, rw') \<Longrightarrow> rw_counts rw' (moved RdWoken RdSleeps n)"
  using assms(1,3) assms(2) [of Writing] assms(2) [of Reading] assms(2) [of WrSleeps] assms(2) [of WrWoken]
  by (auto simp: rdlock_woken_def rdlock_loop_def rw_counts_def moved_def split: if_splits)

lemma wr_woken_counts:
  assumes "rw_counts rw n" and "\<And>w. 0 \<le> n w" and "0 < n WrWoken"
  shows "wrlock_woken rw = (Granted, rw') \<Longrightarrow> rw_counts rw' (moved WrWoken Writing n)"
    and "wrlock_woken rw = (Waits, rw') \<Longrightarrow> rw_counts rw' (moved WrWoken WrSleeps n)"
  using assms(1,3) assms(2) [of Writing] assms(2) [of Reading] assms(2) [of WrSleeps] assms(2) [of WrWoken]
  by (auto simp: wrlock_woken_def wrlock_loop_def rw_counts_def moved_def split: if_splits)

text \<open>What \<^verbatim>\<open>pthread_rwlock_unlock\<close> leaves: the invariant but for the sleepers that it is about to wake.\<close>

lemma unlock_counts:
  assumes "rw_counts rw n" and "\<And>w. 0 \<le> n w" and "u \<in> {Reading, Writing}" and "0 < n u" and "pthread_rwlock_unlock rw = (Granted, w, rw')"
  shows "w = WakesNobody \<Longrightarrow> rw_counts rw' (moved u Idle n)"
    and "w = SignalWriter \<Longrightarrow> n WrSleeps = 0 \<Longrightarrow> rw_counts rw' (moved u Idle n)"
    and "w = SignalWriter \<Longrightarrow> n WrSleeps > 0 \<Longrightarrow> rw_counts rw' (moved WrSleeps WrWoken (moved u Idle n))"
    and "w = BroadcastReaders \<Longrightarrow> rw_counts rw' ((moved u Idle n)(RdSleeps := 0, RdWoken := n RdSleeps + n RdWoken))"
  using assms(1,3,4,5) assms(2) [of Writing] assms(2) [of Reading] assms(2) [of WrSleeps] assms(2) [of WrWoken] assms(2) [of RdSleeps] assms(2) [of RdWoken]
  by (auto simp: pthread_rwlock_unlock_def Let_def rw_counts_def moved_def split: if_splits)

lemma unlock_inv:
  assumes "rw_inv (rw, T)" and "T t \<in> {Reading, Writing}" and u: "pthread_rwlock_unlock rw = (Granted, w, rw')" and k: "rw_wakes w (T(t := Idle)) T'"
  shows "rw_inv (rw', T')"
proof -
  let ?n = "\<lambda>w. number {w} T" and ?I = "T(t := Idle)"
  have a: "active T" "rw_counts rw ?n" using assms(1) by (simp_all add: rw_inv_counts)
  have "0 < ?n (T t)" using number_pos [OF a(1), of "{T t}"] assms(2) by auto
  note c = unlock_counts [OF a(2) number_nonneg assms(2) this u]
  have m: "number {v} ?I = moved (T t) Idle ?n v" if "v \<noteq> Idle" for v
    using number_upd [OF a(1), of "{v}" t Idle] that by (auto simp: moved_def)
  have "number {WrSleeps} ?I = ?n WrSleeps" using m [of WrSleeps] assms(2) by (auto simp: moved_def)
  then have e: "(\<exists>x. ?I x = WrSleeps) \<longleftrightarrow> ?n WrSleeps > 0"
    using number_pos [of ?I "{WrSleeps}"] a(1) by (simp del: fun_upd_apply)
  have quiet: ?thesis if "T' = ?I" "rw_counts rw' (moved (T t) Idle ?n)"
    using that a(1) rw_counts_cong [of "\<lambda>v. number {v} ?I" "moved (T t) Idle ?n" rw', OF m] by (simp add: rw_inv_counts del: fun_upd_apply)
  show ?thesis
  proof (cases w)
    case WakesNobody
    then show ?thesis using quiet c(1) k by (simp add: rw_wakes_def)
  next
    case SignalWriter
    show ?thesis
    proof (cases "\<exists>x. ?I x = WrSleeps")
      case False
      then have "T' = ?I" "?n WrSleeps = 0" using k e SignalWriter number_nonneg [of "{WrSleeps}" T] by (simp_all only: rw_wakes_def rw_wake.case if_False)
      then show ?thesis using quiet c(2) SignalWriter by simp
    next
      case True
      then obtain x where x: "?I x = WrSleeps" "T' = ?I(x := WrWoken)" using k SignalWriter by (auto simp only: rw_wakes_def rw_wake.case if_True)
      have "number {v} T' = moved WrSleeps WrWoken (moved (T t) Idle ?n) v" if "v \<noteq> Idle" for v
        using number_upd [of ?I "{v}" x WrWoken] m [OF that] a(1) x that by (simp add: moved_def del: fun_upd_apply)
      then have "rw_counts rw' (\<lambda>v. number {v} T') = rw_counts rw' (moved WrSleeps WrWoken (moved (T t) Idle ?n))" by (rule rw_counts_cong)
      then show ?thesis using x(2) a(1) c(3) True e SignalWriter by (simp add: rw_inv_counts del: fun_upd_apply)
    qed
  next
    case BroadcastReaders
    then have T': "T' = (\<lambda>x. if ?I x = RdSleeps then RdWoken else ?I x)" using k by (simp only: rw_wakes_def rw_wake.case)
    have b: "active ?I" using a(1) by simp
    have "number {v} T' = ((moved (T t) Idle ?n)(RdSleeps := 0, RdWoken := ?n RdSleeps + ?n RdWoken)) v" if "v \<noteq> Idle" for v
      using number_broadcast(2-3) [OF b, folded T'] number_broadcast(4) [OF b, folded T', of v] m [OF that] m [of RdSleeps] m [of RdWoken] assms(2) by (auto simp: moved_def split: if_splits)
    then have "rw_counts rw' (\<lambda>v. number {v} T') = rw_counts rw' ((moved (T t) Idle ?n)(RdSleeps := 0, RdWoken := ?n RdSleeps + ?n RdWoken))"
      by (rule rw_counts_cong)
    then show ?thesis using number_broadcast(1) [OF b, folded T'] c(4) [OF BroadcastReaders] by (simp only: rw_inv_counts simp_thms)
  qed
qed

lemma self_counts:
  assumes "rw_counts rw n" and "\<And>w. 0 \<le> n w"
  shows "0 < n RdSleeps \<Longrightarrow> rw_counts rw (moved RdSleeps RdWoken n)" and "0 < n WrSleeps \<Longrightarrow> rw_counts rw (moved WrSleeps WrWoken n)"
  using assms(1) assms(2) [of WrWoken] assms(2) [of WrSleeps] by (auto simp: rw_counts_def moved_def)

lemma try_counts:
  assumes "rw_counts rw n" and "\<And>w. 0 \<le> n w"
  shows "pthread_rwlock_tryrdlock rw = (Granted, rw') \<Longrightarrow> rw_counts rw' (moved Idle Reading n)"
    and "pthread_rwlock_trywrlock rw = (Granted, rw') \<Longrightarrow> rw_counts rw' (moved Idle Writing n)"
  using rd_counts(1) [OF assms, of rw'] wr_counts(1) [OF assms, of rw'] assms(1)
  by (auto simp: pthread_rwlock_tryrdlock_def pthread_rwlock_trywrlock_def rdlock_loop_def wrlock_loop_def rw_counts_def [of rw] split: if_splits)

lemma lock_loop:
  "rw_inv (rw, T) \<Longrightarrow> pthread_rwlock_rdlock rw = rdlock_loop rw" "rw_inv (rw, T) \<Longrightarrow> pthread_rwlock_wrlock rw = wrlock_loop rw"
  by (simp_all add: rw_inv_def pthread_rwlock_rdlock_def pthread_rwlock_wrlock_def)

lemma rw_inv_step:
  assumes "rw_step c d" and "rw_inv c"
  shows "rw_inv d"
  using assms
proof cases
  case (wakes_by_itself T t v rw)
  then show ?thesis using assms(2) by (auto intro: rw_move self_counts)
next
  case (rd_granted T t rw rw')
  then show ?thesis using assms(2) by (auto intro: rw_move rd_counts simp: lock_loop [of rw T])
next
  case (rd_waits T t rw rw')
  then show ?thesis using assms(2) by (auto intro: rw_move rd_counts simp: lock_loop [of rw T])
next
  case (wr_granted T t rw rw')
  then show ?thesis using assms(2) by (auto intro: rw_move wr_counts simp: lock_loop [of rw T])
next
  case (wr_waits T t rw rw')
  then show ?thesis using assms(2) by (auto intro: rw_move wr_counts simp: lock_loop [of rw T])
next
  case (rd_resumes T t rw rw')
  then show ?thesis using assms(2) by (auto intro: rw_move rd_woken_counts)
next
  case (rd_waits_again T t rw rw')
  then show ?thesis using assms(2) by (auto intro: rw_move rd_woken_counts)
next
  case (wr_resumes T t rw rw')
  then show ?thesis using assms(2) by (auto intro: rw_move wr_woken_counts)
next
  case (wr_waits_again T t rw rw')
  then show ?thesis using assms(2) by (auto intro: rw_move wr_woken_counts)
next
  case (tryrd T t rw rw')
  then show ?thesis using assms(2) by (auto intro: rw_move try_counts)
next
  case (trywr T t rw rw')
  then show ?thesis using assms(2) by (auto intro: rw_move try_counts)
next
  case (unlock T t rw w rw' T')
  then show ?thesis using assms(2) by (auto intro: unlock_inv)
qed

lemma sleepers_counts:
  assumes "rw_counts rw n" and "\<And>w. 0 \<le> n w" and "0 < n RdSleeps \<or> 0 < n WrSleeps"
  shows "0 < n Reading \<or> 0 < n Writing \<or> 0 < n RdWoken \<or> 0 < n WrWoken"
  using assms(1,3) assms(2) [of Reading] assms(2) [of WrWoken] by (auto simp: rw_counts_def split: if_splits)

lemma rw_reach_inv: "rw_step\<^sup>*\<^sup>* c d \<Longrightarrow> rw_inv c \<Longrightarrow> rw_inv d"
  by (induction rule: rtranclp_induct) (auto intro: rw_inv_step)

lemma rw_inv_init: "rw_inv (pthread_rwlock_init rw, \<lambda>_. Idle)"
  by (simp add: rw_inv_def pthread_rwlock_init_def active_def number_def)

text \<open>
  C4. However many threads call the functions of an initialised read-write lock in whatever order, a writer is never in the lock together
  with another writer or a reader, \<^verbatim>\<open>rw_refcount\<close> is -1 with a writer and else the number of readers, \<^verbatim>\<open>pthread_rwlock_unlock\<close> by
  a holder never aborts, and no wake-up is lost: while a thread sleeps, some thread holds the lock or is already woken.
\<close>

theorem rwlock_safe:
  assumes "rw_step\<^sup>*\<^sup>* (pthread_rwlock_init rw0, \<lambda>_. Idle) (rw, T)"
  shows "(T t = Writing \<and> T u \<in> {Reading, Writing} \<longrightarrow> t = u) \<and>
    rw_refcount rw = (if \<exists>t. T t = Writing then - 1 else int (card {t. T t = Reading})) \<and>
    (T t \<in> {Reading, Writing} \<longrightarrow> fst (pthread_rwlock_unlock rw) = Granted) \<and>
    (T t \<in> {RdSleeps, WrSleeps} \<longrightarrow> (\<exists>u. T u \<in> {Reading, Writing, RdWoken, WrWoken}))"
proof -
  let ?n = "\<lambda>v. number {v} T"
  have "rw_inv (rw, T)" by (rule rw_reach_inv [OF assms rw_inv_init])
  then have a: "active T" and c: "rw_counts rw ?n" by (simp_all add: rw_inv_counts)
  have ex: "0 < ?n v \<longleftrightarrow> (\<exists>t. T t = v)" if "v \<noteq> Idle" for v using number_pos [OF a, of "{v}"] that by auto
  have one: "t = u" if "T t = Writing" "T u = Writing"
  proof -
    have "card {t. T t \<in> {Writing}} \<le> 1" using c by (simp add: rw_counts_def number_def)
    moreover have "finite {t. T t \<in> {Writing}}" by (rule number_finite [OF a]) simp
    ultimately show ?thesis using that by (auto simp: card_le_Suc0_iff_eq)
  qed
  have "\<not> (T t = Writing \<and> T u = Reading)" using c ex [of Writing] ex [of Reading] by (auto simp: rw_counts_def)
  then have 1: "T t = Writing \<and> T u \<in> {Reading, Writing} \<longrightarrow> t = u" using one by auto
  have 2: "rw_refcount rw = (if \<exists>t. T t = Writing then - 1 else int (card {t. T t = Reading}))"
    using c ex [of Writing] by (simp add: rw_counts_def) (simp add: number_def)
  have 3: "T t \<in> {Reading, Writing} \<longrightarrow> fst (pthread_rwlock_unlock rw) = Granted"
    using c ex [of Writing] ex [of Reading] by (auto simp: rw_counts_def pthread_rwlock_unlock_def Let_def)
  have "0 < ?n Reading \<or> 0 < ?n Writing \<or> 0 < ?n RdWoken \<or> 0 < ?n WrWoken" if "0 < ?n RdSleeps \<or> 0 < ?n WrSleeps"
    by (rule sleepers_counts [OF c number_nonneg that])
  then have 4: "T t \<in> {RdSleeps, WrSleeps} \<longrightarrow> (\<exists>u. T u \<in> {Reading, Writing, RdWoken, WrWoken})"
    using ex [of Reading] ex [of Writing] ex [of RdWoken] ex [of WrWoken] ex [of RdSleeps] ex [of WrSleeps] by auto
  from 1 2 3 4 show ?thesis by blast
qed

theorem rwlock_safe_witness:
  "\<exists>rw T. rw_step\<^sup>*\<^sup>* (pthread_rwlock_init \<lparr>rw_magic = 0, rw_nwaitreaders = 3, rw_nwaitwriters = 0, rw_refcount = 9\<rparr>, \<lambda>_. Idle) (rw, T) \<and>
    T 1 = Writing \<and> T 2 = RdSleeps \<and> rw_refcount rw = - 1"
proof -
  let ?rw0 = "pthread_rwlock_init \<lparr>rw_magic = 0, rw_nwaitreaders = 3, rw_nwaitwriters = 0, rw_refcount = 9\<rparr>"
  let ?rw1 = "?rw0\<lparr>rw_refcount := - 1\<rparr>" and ?T1 = "(\<lambda>_ :: nat. Idle)(1 := Writing)"
  let ?rw2 = "?rw1\<lparr>rw_nwaitreaders := 1\<rparr>" and ?T2 = "?T1(2 := RdSleeps)"
  have "rw_step (?rw0, \<lambda>_. Idle) (?rw1, ?T1)"
    by (rule rw_step.wr_granted) (simp_all add: pthread_rwlock_init_def pthread_rwlock_wrlock_def wrlock_loop_def)
  moreover have "rw_step (?rw1, ?T1) (?rw2, ?T2)"
    by (rule rw_step.rd_waits) (simp_all add: pthread_rwlock_init_def pthread_rwlock_rdlock_def rdlock_loop_def)
  ultimately have r: "rw_step\<^sup>*\<^sup>* (?rw0, \<lambda>_. Idle) (?rw2, ?T2)" by (meson converse_rtranclp_into_rtranclp rtranclp.rtrancl_refl)
  then have "\<exists>u. ?T2 u \<in> {Reading, Writing, RdWoken, WrWoken}" "rw_refcount ?rw2 = (if \<exists>t. ?T2 t = Writing then - 1 else int (card {t. ?T2 t = Reading}))"
    using rwlock_safe [OF r, of 2 2] by auto
  then show ?thesis using r by (intro exI [of _ ?rw2] exI [of _ ?T2] conjI) simp_all
qed

end
