(* ===== verification/Hoc_Machine.thy ===== *)
theory Hoc_Machine
  imports Kernel_Prelude
begin

section \<open>The stack machine of the hoc calculator\<close>

text \<open>
  The machine of \<^verbatim>\<open>hoc-soledad/src/code.c\<close>, with the symbol table of \<^verbatim>\<open>symbol.c\<close> and the checked
  library calls of \<^verbatim>\<open>math.c\<close>.
  \<^item> A cell of \<^verbatim>\<open>prog\<close> holds an instruction or one of the operands that the casts to \<^verbatim>\<open>Inst\<close> put there:
    a symbol, an address, a number of arguments, a built-in, a string. \<open>Stop\<close> is the null pointer.
  \<^item> A \<open>datum\<close> says which member of the union \<^verbatim>\<open>Datum\<close> was stored; reading the other one, like using an
    operand as an instruction, is \<open>hoc_UB\<close>. \<open>hstack\<close> holds \<^verbatim>\<open>stack[0] .. stackp[-1]\<close>, top first, and
    \<open>frames\<close> the frames above \<^verbatim>\<open>frame[0]\<close>, innermost first.
  \<^item> A call of \<^verbatim>\<open>execerror\<close> does not return to its caller: it is \<open>Panic\<close> with the message.
  \<^item> Doubles and the C mathematical library are a parameter: a type \<open>'v\<close> and a record \<open>'v arith\<close> of the
    operations that the code applies to doubles.
  \<^item> \<open>execute n\<close> is \<^verbatim>\<open>execute\<close> where at most \<open>n\<close> activations of it are nested; its own loop is
    unbounded.
\<close>

datatype merr = EDOM | ERANGE

record 'v arith =
  f_add :: "'v \<Rightarrow> 'v \<Rightarrow> 'v"
  f_sub :: "'v \<Rightarrow> 'v \<Rightarrow> 'v"
  f_mul :: "'v \<Rightarrow> 'v \<Rightarrow> 'v"
  f_div :: "'v \<Rightarrow> 'v \<Rightarrow> 'v"
  f_neg :: "'v \<Rightarrow> 'v"
  f_lt :: "'v \<Rightarrow> 'v \<Rightarrow> bool"
  f_le :: "'v \<Rightarrow> 'v \<Rightarrow> bool"
  f_eq :: "'v \<Rightarrow> 'v \<Rightarrow> bool"
  f_of_long :: "int \<Rightarrow> 'v"
  f_long :: "'v \<Rightarrow> int"
  f_long_min :: int
  f_int :: "'v \<Rightarrow> int"
  f_pow :: "'v \<Rightarrow> 'v \<Rightarrow> 'v \<times> merr option"
  f_lib :: "string \<Rightarrow> 'v \<Rightarrow> 'v \<times> merr option"
  f_signgam :: "'v \<Rightarrow> 'v"

datatype stype = VAR | UNDEF | NUMBER | BLTIN | FUNCTION | PROCEDURE | KEYWORD

record 'v symbol =
  s_name :: string
  s_type :: stype
  s_val :: 'v
  s_defn :: nat

datatype 'v datum = DVal 'v | DSym nat

datatype binop = Add | Sub | Mul | Divop | Mod | Power | Gt | Ge | Lt | Le | Eq | Ne | And | Or
datatype asgop = Assign | Addeq | Subeq | Muleq | Diveq | Modeq
datatype incop = Preinc | Predec | Postinc | Postdec

datatype inst = Xpop | Constpush | Varpush | Whilecode | Forcode | Ifcode | Call | Funcret | Procret
  | Arg | Argasg asgop | Bltin | Bin binop | Negate | Lnot | Eval | Inc incop | Asg asgop
  | Printtop | Prexpr | Prstr | Varread

datatype cell = Stop | Inst inst | Sym nat | Addr nat | Num nat | Fn string | Str string

record call_frame =
  fr_sp :: nat
  fr_retpc :: nat
  fr_argn :: int
  fr_nargs :: nat

datatype 'v out = OutVal int 'v string | OutStr string

record 'v hoc =
  prog :: "nat \<Rightarrow> cell"
  progp :: nat
  progbase :: nat
  pc :: nat
  hstack :: "'v datum list"
  frames :: "call_frame list"
  returning :: bool
  indef :: bool
  symtab :: "'v symbol list"
  last_sym :: "nat option"
  hin :: "'v option list list"
  hout :: "'v out list"
  herrno :: "merr option"

abbreviation hoc_UB :: "('a, 's) outcome" where
  "hoc_UB \<equiv> Panic ''undefined behaviour''"

definition NSTACK :: nat where "NSTACK = 256"
definition NPROG :: nat where "NPROG = 2000"
definition NFRAME :: nat where "NFRAME = 100"

subsection \<open>Symbols\<close>

text \<open>
  A symbol is its position in \<open>symtab\<close>, which keeps the order of installation: \<^verbatim>\<open>install\<close> puts a symbol
  at the front of the list that \<^verbatim>\<open>lookup\<close> searches, so the last one of a name is found.
\<close>

definition sym :: "nat \<Rightarrow> 'v hoc \<Rightarrow> ('v symbol \<Rightarrow> ('a, 'v hoc) outcome) \<Rightarrow> ('a, 'v hoc) outcome" where
  "sym k s f = (if k < length (symtab s) then f (symtab s ! k) else hoc_UB)"

definition set_var :: "nat \<Rightarrow> 'v \<Rightarrow> 'v hoc \<Rightarrow> 'v hoc" where
  "set_var k v s = s\<lparr>symtab := (symtab s)[k := (symtab s ! k)\<lparr>s_val := v\<rparr>]\<rparr>"

definition make_var :: "nat \<Rightarrow> 'v hoc \<Rightarrow> 'v hoc" where
  "make_var k s = s\<lparr>symtab := (symtab s)[k := (symtab s ! k)\<lparr>s_type := VAR\<rparr>]\<rparr>"

fun lookup_from :: "nat \<Rightarrow> string \<Rightarrow> 'v symbol list \<Rightarrow> nat option" where
  "lookup_from 0 n t = None"
| "lookup_from (Suc k) n t = (if s_name (t ! k) = n then Some k else lookup_from k n t)"

definition lookup :: "string \<Rightarrow> 'v hoc \<Rightarrow> nat option" where
  "lookup n s = lookup_from (length (symtab s)) n (symtab s)"

definition install :: "string \<Rightarrow> stype \<Rightarrow> 'v \<Rightarrow> 'v hoc \<Rightarrow> nat \<times> 'v hoc" where
  "install n t d s =
     (length (symtab s),
      s\<lparr>symtab := symtab s @ [\<lparr>s_name = n, s_type = t, s_val = d, s_defn = 0\<rparr>]\<rparr>)"

definition verify :: "nat \<Rightarrow> 'v hoc \<Rightarrow> ('v, 'v hoc) outcome" where
  "verify k s = sym k s (\<lambda>y.
     if s_type y \<noteq> VAR \<and> s_type y \<noteq> UNDEF then Panic ''attempt to evaluate non-variable''
     else if s_type y = UNDEF then Panic ''undefined variable''
     else Ok (s_val y) s)"

subsection \<open>Arithmetic\<close>

definition fzero :: "'v arith \<Rightarrow> 'v" where "fzero A = f_of_long A 0"
definition fone :: "'v arith \<Rightarrow> 'v" where "fone A = f_of_long A 1"
definition of_truth :: "'v arith \<Rightarrow> bool \<Rightarrow> 'v" where "of_truth A b = (if b then fone A else fzero A)"
definition truth :: "'v arith \<Rightarrow> 'v \<Rightarrow> bool" where "truth A v = (\<not> f_eq A v (fzero A))"

text \<open>
  The remainder of two longs; the processor raises \<^verbatim>\<open>SIGFPE\<close>, caught by \<^verbatim>\<open>fpecatch\<close>, when the divisor is
  zero or the quotient does not fit.
\<close>

definition long_mod :: "'v arith \<Rightarrow> 'v \<Rightarrow> 'v \<Rightarrow> 'v hoc \<Rightarrow> ('v, 'v hoc) outcome" where
  "long_mod A x y s =
     (if f_long A y = 0 \<or> f_long A x = f_long_min A \<and> f_long A y = -1
      then Panic ''floating point exception''
      else Ok (f_of_long A (cmod (f_long A x) (f_long A y))) s)"

text \<open>The value of a library call; a failing call leaves its error number in \<^verbatim>\<open>errno\<close>.\<close>

definition lib_call :: "'v \<times> merr option \<Rightarrow> 'v hoc \<Rightarrow> ('v, 'v hoc) outcome" where
  "lib_call r s = Ok (fst r) (case snd r of None \<Rightarrow> s | Some e \<Rightarrow> s\<lparr>herrno := Some e\<rparr>)"

definition errcheck :: "'v \<Rightarrow> 'v hoc \<Rightarrow> ('v, 'v hoc) outcome" where
  "errcheck d s = (case herrno s of
     Some EDOM \<Rightarrow> Panic ''argument out of domain''
   | Some ERANGE \<Rightarrow> Panic ''result out of range''
   | None \<Rightarrow> Ok d s)"

definition Pow :: "'v arith \<Rightarrow> 'v \<Rightarrow> 'v \<Rightarrow> 'v hoc \<Rightarrow> ('v, 'v hoc) outcome" where
  "Pow A x y s = bindK (lib_call (f_pow A x y) s) errcheck"

definition Gamma :: "'v arith \<Rightarrow> 'v \<Rightarrow> 'v hoc \<Rightarrow> ('v, 'v hoc) outcome" where
  "Gamma A x s =
     bindK (bindK (lib_call (f_lib A ''gamma'' x) s) errcheck) (\<lambda>y s.
       if f_lt A (f_of_long A 88) y then Panic ''gamma result out of range''
       else bindK (lib_call (f_lib A ''exp'' y) s) (\<lambda>z s. Ok (f_mul A (f_signgam A x) z) s))"

definition checked_builtins :: "string list" where
  "checked_builtins =
     [''asin'', ''acos'', ''sinh'', ''cosh'', ''log'', ''log10'', ''exp'', ''sqrt'']"

definition builtin :: "'v arith \<Rightarrow> string \<Rightarrow> 'v \<Rightarrow> 'v hoc \<Rightarrow> ('v, 'v hoc) outcome" where
  "builtin A f x s =
     (if f = ''gamma'' then Gamma A x s
      else if f = ''int'' then Ok (f_of_long A (f_long A x)) s
      else if f \<in> set checked_builtins then bindK (lib_call (f_lib A f x) s) errcheck
      else lib_call (f_lib A f x) s)"

text \<open>
  What an instruction with two operands computes: \<open>x\<close> is \<^verbatim>\<open>d1.val\<close> and \<open>y\<close> is \<^verbatim>\<open>d2.val\<close>. The divisor of
  \<^verbatim>\<open>divop\<close> and \<^verbatim>\<open>mod\<close> is tested first.
\<close>

definition divisor_check :: "'v arith \<Rightarrow> binop \<Rightarrow> 'v \<Rightarrow> 'v hoc \<Rightarrow> (unit, 'v hoc) outcome" where
  "divisor_check A b y s =
     (if (b = Divop \<or> b = Mod) \<and> f_eq A y (fzero A) then Panic ''division by zero'' else Ok () s)"

definition arith_op :: "'v arith \<Rightarrow> binop \<Rightarrow> 'v \<Rightarrow> 'v \<Rightarrow> 'v hoc \<Rightarrow> ('v, 'v hoc) outcome" where
  "arith_op A b x y s = (case b of
     Add \<Rightarrow> Ok (f_add A x y) s
   | Sub \<Rightarrow> Ok (f_sub A x y) s
   | Mul \<Rightarrow> Ok (f_mul A x y) s
   | Divop \<Rightarrow> Ok (f_div A x y) s
   | Mod \<Rightarrow> long_mod A x y s
   | Power \<Rightarrow> Pow A x y s
   | _ \<Rightarrow> hoc_UB)"

definition compare_op :: "'v arith \<Rightarrow> binop \<Rightarrow> 'v \<Rightarrow> 'v \<Rightarrow> bool" where
  "compare_op A b x y = (case b of
     Gt \<Rightarrow> f_lt A y x
   | Lt \<Rightarrow> f_lt A x y
   | Ge \<Rightarrow> f_le A y x
   | Le \<Rightarrow> f_le A x y
   | Eq \<Rightarrow> f_eq A x y
   | Ne \<Rightarrow> \<not> f_eq A x y
   | And \<Rightarrow> truth A x \<and> truth A y
   | Or \<Rightarrow> truth A x \<or> truth A y
   | _ \<Rightarrow> False)"

definition binop_val :: "'v arith \<Rightarrow> binop \<Rightarrow> 'v \<Rightarrow> 'v \<Rightarrow> 'v hoc \<Rightarrow> ('v, 'v hoc) outcome" where
  "binop_val A b x y s =
     (if b \<in> {Add, Sub, Mul, Divop, Mod, Power} then arith_op A b x y s
      else Ok (of_truth A (compare_op A b x y)) s)"

text \<open>The value that an assignment operator stores; the divisor is not tested.\<close>

definition asgop_val :: "'v arith \<Rightarrow> asgop \<Rightarrow> 'v \<Rightarrow> 'v \<Rightarrow> 'v hoc \<Rightarrow> ('v, 'v hoc) outcome" where
  "asgop_val A b x y s = (case b of
     Assign \<Rightarrow> Ok y s
   | Addeq \<Rightarrow> Ok (f_add A x y) s
   | Subeq \<Rightarrow> Ok (f_sub A x y) s
   | Muleq \<Rightarrow> Ok (f_mul A x y) s
   | Diveq \<Rightarrow> Ok (f_div A x y) s
   | Modeq \<Rightarrow> long_mod A x y s)"

subsection \<open>Variables and output\<close>

definition assign_var :: "'v arith \<Rightarrow> asgop \<Rightarrow> nat \<Rightarrow> 'v \<Rightarrow> 'v hoc \<Rightarrow> ('v, 'v hoc) outcome" where
  "assign_var A b k y s = sym k s (\<lambda>z.
     if s_type z \<noteq> VAR \<and> s_type z \<noteq> UNDEF then Panic ''assignment to non-variable''
     else bindK (asgop_val A b (s_val z) y s) (\<lambda>v s. Ok v (make_var k (set_var k v s))))"

definition inc_var :: "'v arith \<Rightarrow> incop \<Rightarrow> nat \<Rightarrow> 'v hoc \<Rightarrow> ('v, 'v hoc) outcome" where
  "inc_var A b k s = bindK (verify k s) (\<lambda>v s. case b of
     Preinc \<Rightarrow> Ok (f_add A v (fone A)) (set_var k (f_add A v (fone A)) s)
   | Predec \<Rightarrow> Ok (f_sub A v (fone A)) (set_var k (f_sub A v (fone A)) s)
   | Postinc \<Rightarrow> Ok v (set_var k (f_add A v (fone A)) s)
   | Postdec \<Rightarrow> Ok v (set_var k (f_sub A v (fone A)) s))"

text \<open>
  \<open>hin\<close> holds the numbers still to be read from the current input and from the inputs that \<^verbatim>\<open>moreinput\<close>
  opens after it; \<open>None\<close> is something that is not a number.
\<close>

fun next_number :: "'v option list list \<Rightarrow> ('v option option \<times> 'v option list list)" where
  "next_number [] = (None, [])"
| "next_number ((x # xs) # r) = (Some x, xs # r)"
| "next_number ([] # []) = (None, [[]])"
| "next_number ([] # y # r) = next_number (y # r)"

definition read_var :: "'v arith \<Rightarrow> nat \<Rightarrow> 'v hoc \<Rightarrow> ('v, 'v hoc) outcome" where
  "read_var A k s = sym k s (\<lambda>_. case next_number (hin s) of
     (None, r) \<Rightarrow> Ok (fzero A) (make_var k (set_var k (fzero A) (s\<lparr>hin := r\<rparr>)))
   | (Some None, r) \<Rightarrow> Panic ''non-number read into''
   | (Some (Some v), r) \<Rightarrow> Ok (fone A) (make_var k (set_var k v (s\<lparr>hin := r\<rparr>))))"

definition print_val :: "'v arith \<Rightarrow> string \<Rightarrow> 'v \<Rightarrow> 'v hoc \<Rightarrow> (unit, 'v hoc) outcome" where
  "print_val A after v s = (case lookup ''PREC'' s of
     None \<Rightarrow> hoc_UB
   | Some p \<Rightarrow> Ok () (s\<lparr>hout := hout s @ [OutVal (f_int A (s_val (symtab s ! p))) v after]\<rparr>))"

definition print_str :: "string \<Rightarrow> 'v hoc \<Rightarrow> (unit, 'v hoc) outcome" where
  "print_str x s = Ok () (s\<lparr>hout := hout s @ [OutStr x]\<rparr>)"

definition static_sym :: "'v arith \<Rightarrow> 'v hoc \<Rightarrow> nat \<times> 'v hoc" where
  "static_sym A s = (case last_sym s of
     Some k \<Rightarrow> (k, s)
   | None \<Rightarrow> let (k, s) = install ''_'' VAR (fzero A) s in (k, s\<lparr>last_sym := Some k\<rparr>))"

definition print_last :: "'v arith \<Rightarrow> nat \<Rightarrow> 'v \<Rightarrow> 'v hoc \<Rightarrow> (unit, 'v hoc) outcome" where
  "print_last A k v s = bindK (print_val A [CHR 0x0A] v s) (\<lambda>_ s. Ok () (set_var k v s))"

subsection \<open>Stack and operands\<close>

definition initcode :: "'v hoc \<Rightarrow> 'v hoc" where
  "initcode s = s\<lparr>progp := progbase s, hstack := [], frames := [], returning := False, indef := False\<rparr>"

definition push :: "'v datum \<Rightarrow> 'v hoc \<Rightarrow> (unit, 'v hoc) outcome" where
  "push d s = (if NSTACK \<le> length (hstack s) then Panic ''stack too deep''
               else Ok () (s\<lparr>hstack := d # hstack s\<rparr>))"

definition pop :: "'v hoc \<Rightarrow> ('v datum, 'v hoc) outcome" where
  "pop s = (case hstack s of [] \<Rightarrow> Panic ''stack underflow'' | d # r \<Rightarrow> Ok d (s\<lparr>hstack := r\<rparr>))"

definition val :: "'v datum \<Rightarrow> 'v hoc \<Rightarrow> ('v, 'v hoc) outcome" where
  "val d s = (case d of DVal v \<Rightarrow> Ok v s | DSym _ \<Rightarrow> hoc_UB)"

definition pop_val :: "'v hoc \<Rightarrow> ('v, 'v hoc) outcome" where
  "pop_val s = bindK (pop s) val"

definition pop_sym :: "'v hoc \<Rightarrow> (nat, 'v hoc) outcome" where
  "pop_sym s = bindK (pop s) (\<lambda>d s. case d of DSym k \<Rightarrow> Ok k s | DVal _ \<Rightarrow> hoc_UB)"

definition operand :: "'v hoc \<Rightarrow> (cell, 'v hoc) outcome" where
  "operand s = Ok (prog s (pc s)) (s\<lparr>pc := pc s + 1\<rparr>)"

definition operand_sym :: "'v hoc \<Rightarrow> (nat, 'v hoc) outcome" where
  "operand_sym s = bindK (operand s) (\<lambda>c s. case c of Sym k \<Rightarrow> Ok k s | _ \<Rightarrow> hoc_UB)"

definition constpush :: "'v hoc \<Rightarrow> (unit, 'v hoc) outcome" where
  "constpush s = bindK (operand_sym s) (\<lambda>k s. sym k s (\<lambda>y. push (DVal (s_val y)) s))"

definition varpush :: "'v hoc \<Rightarrow> (unit, 'v hoc) outcome" where
  "varpush s = bindK (operand_sym s) (\<lambda>k. push (DSym k))"

subsection \<open>Control flow\<close>

text \<open>\<open>X p\<close> is the recursive call \<^verbatim>\<open>execute(p)\<close>, and \<open>execute_at X a\<close> the call on the address in cell \<open>a\<close>.\<close>

type_synonym 'v exec = "nat \<Rightarrow> 'v hoc \<Rightarrow> (unit, 'v hoc) outcome"

definition execute_at :: "'v exec \<Rightarrow> nat \<Rightarrow> 'v hoc \<Rightarrow> (unit, 'v hoc) outcome" where
  "execute_at X a s = (case prog s a of Addr p \<Rightarrow> X p s | _ \<Rightarrow> hoc_UB)"

definition next_stmt :: "nat \<Rightarrow> 'v hoc \<Rightarrow> (unit, 'v hoc) outcome" where
  "next_stmt a s = (if returning s then Ok () s
     else case prog s a of Addr p \<Rightarrow> Ok () (s\<lparr>pc := p\<rparr>) | _ \<Rightarrow> hoc_UB)"

definition whilecode :: "'v arith \<Rightarrow> 'v exec \<Rightarrow> 'v hoc \<Rightarrow> (unit, 'v hoc) outcome" where
  "whilecode A X s = (let savepc = pc s in
     bindK (X (savepc + 2) s) (\<lambda>_ s.
     bindK (pop_val s) (\<lambda>d s.
     bindK (iterK (\<lambda>d s.
         if \<not> truth A d then Ok (Inr ()) s
         else bindK (execute_at X savepc s) (\<lambda>_ s.
           if returning s then Ok (Inr ()) s
           else bindK (X (savepc + 2) s) (\<lambda>_ s.
             bindK (pop_val s) (\<lambda>d s. Ok (Inl d) s)))) d s) (\<lambda>_ s.
     next_stmt (savepc + 1) s))))"

definition forcode :: "'v arith \<Rightarrow> 'v exec \<Rightarrow> 'v hoc \<Rightarrow> (unit, 'v hoc) outcome" where
  "forcode A X s = (let savepc = pc s in
     bindK (X (savepc + 4) s) (\<lambda>_ s.
     bindK (pop s) (\<lambda>_ s.
     bindK (execute_at X savepc s) (\<lambda>_ s.
     bindK (pop_val s) (\<lambda>d s.
     bindK (iterK (\<lambda>d s.
         if \<not> truth A d then Ok (Inr ()) s
         else bindK (execute_at X (savepc + 2) s) (\<lambda>_ s.
           if returning s then Ok (Inr ()) s
           else bindK (execute_at X (savepc + 1) s) (\<lambda>_ s.
             bindK (pop s) (\<lambda>_ s.
             bindK (execute_at X savepc s) (\<lambda>_ s.
             bindK (pop_val s) (\<lambda>d s. Ok (Inl d) s)))))) d s) (\<lambda>_ s.
     next_stmt (savepc + 3) s))))))"

definition ifcode :: "'v arith \<Rightarrow> 'v exec \<Rightarrow> 'v hoc \<Rightarrow> (unit, 'v hoc) outcome" where
  "ifcode A X s = (let savepc = pc s in
     bindK (X (savepc + 3) s) (\<lambda>_ s.
     bindK (pop_val s) (\<lambda>d s.
     bindK (if truth A d then execute_at X savepc s
            else if prog s (savepc + 1) \<noteq> Stop then execute_at X (savepc + 1) s
            else Ok () s) (\<lambda>_ s.
     next_stmt (savepc + 2) s))))"

subsection \<open>Functions and procedures\<close>

definition define_sym :: "nat \<Rightarrow> 'v hoc \<Rightarrow> 'v hoc" where
  "define_sym k s =
     s\<lparr>symtab := (symtab s)[k := (symtab s ! k)\<lparr>s_defn := progbase s\<rparr>], progbase := progp s\<rparr>"

definition call :: "'v exec \<Rightarrow> 'v hoc \<Rightarrow> (unit, 'v hoc) outcome" where
  "call X s = (case (prog s (pc s), prog s (pc s + 1)) of
     (Sym k, Num n) \<Rightarrow> sym k s (\<lambda>y.
       if NFRAME - 1 \<le> length (frames s) then Panic ''call nested too deeply''
       else bindK (X (s_defn y) (s\<lparr>frames :=
           \<lparr>fr_sp = k, fr_retpc = pc s + 2, fr_argn = int (length (hstack s)) - 1, fr_nargs = n\<rparr>
             # frames s\<rparr>)) (\<lambda>_ s. Ok () (s\<lparr>returning := False\<rparr>)))
   | _ \<Rightarrow> hoc_UB)"

definition ret :: "'v hoc \<Rightarrow> (unit, 'v hoc) outcome" where
  "ret s = (case frames s of
     [] \<Rightarrow> hoc_UB
   | f # fs \<Rightarrow> bindK (forK [0..<fr_nargs f] (\<lambda>_ s. bindK (pop s) (\<lambda>_ s. Ok () s)) s) (\<lambda>_ s.
       Ok () (s\<lparr>pc := fr_retpc f, frames := fs, returning := True\<rparr>)))"

definition frame_type :: "'v hoc \<Rightarrow> (stype, 'v hoc) outcome" where
  "frame_type s = (case frames s of
     [] \<Rightarrow> hoc_UB
   | f # _ \<Rightarrow> sym (fr_sp f) s (\<lambda>y. Ok (s_type y) s))"

definition funcret :: "'v hoc \<Rightarrow> (unit, 'v hoc) outcome" where
  "funcret s = bindK (frame_type s) (\<lambda>t s.
     if t = PROCEDURE then Panic ''(proc) returns value''
     else bindK (pop s) (\<lambda>d s. bindK (ret s) (\<lambda>_ s. push d s)))"

definition procret :: "'v hoc \<Rightarrow> (unit, 'v hoc) outcome" where
  "procret s = bindK (frame_type s) (\<lambda>t s.
     if t = FUNCTION then Panic ''(func) returns no value'' else ret s)"

text \<open>\<^verbatim>\<open>getarg\<close> returns the place of an argument: its index in \<open>hstack\<close>.\<close>

definition getarg :: "'v hoc \<Rightarrow> (nat, 'v hoc) outcome" where
  "getarg s = bindK (operand s) (\<lambda>c s. case (c, frames s) of
     (Num n, f # _) \<Rightarrow>
       if fr_nargs f < n then Panic ''not enough arguments''
       else let i = fr_argn f + (int n - int (fr_nargs f)) in
         if 0 \<le> i \<and> i < int (length (hstack s)) then Ok (length (hstack s) - 1 - nat i) s
         else hoc_UB
   | _ \<Rightarrow> hoc_UB)"

definition arg :: "'v hoc \<Rightarrow> (unit, 'v hoc) outcome" where
  "arg s = bindK (getarg s) (\<lambda>i s.
     bindK (val (hstack s ! i) s) (\<lambda>v. push (DVal v)))"

definition argassign :: "'v hoc \<Rightarrow> (unit, 'v hoc) outcome" where
  "argassign s =
     bindK (pop s) (\<lambda>d s.
     bindK (push d s) (\<lambda>_ s.
     bindK (getarg s) (\<lambda>i s.
     bindK (val d s) (\<lambda>v s. Ok () (s\<lparr>hstack := (hstack s)[i := DVal v]\<rparr>)))))"

definition argopeq :: "'v arith \<Rightarrow> asgop \<Rightarrow> 'v hoc \<Rightarrow> (unit, 'v hoc) outcome" where
  "argopeq A b s =
     bindK (pop_val s) (\<lambda>y s.
     bindK (getarg s) (\<lambda>i s.
     bindK (val (hstack s ! i) s) (\<lambda>x s.
     bindK (asgop_val A b x y s) (\<lambda>v s.
     push (DVal v) (s\<lparr>hstack := (hstack s)[i := DVal v]\<rparr>)))))"

subsection \<open>Instructions\<close>

definition bltin :: "'v arith \<Rightarrow> 'v hoc \<Rightarrow> (unit, 'v hoc) outcome" where
  "bltin A s = bindK (pop_val s) (\<lambda>x s. bindK (operand s) (\<lambda>c s. case c of
     Fn f \<Rightarrow> bindK (builtin A f x s) (\<lambda>v. push (DVal v)) | _ \<Rightarrow> hoc_UB))"

definition binary :: "'v arith \<Rightarrow> binop \<Rightarrow> 'v hoc \<Rightarrow> (unit, 'v hoc) outcome" where
  "binary A b s = bindK (pop_val s) (\<lambda>y s. bindK (divisor_check A b y s) (\<lambda>_ s.
     bindK (pop_val s) (\<lambda>x s. bindK (binop_val A b x y s) (\<lambda>v. push (DVal v)))))"

definition unary :: "('v \<Rightarrow> 'v) \<Rightarrow> 'v hoc \<Rightarrow> (unit, 'v hoc) outcome" where
  "unary f s = bindK (pop_val s) (\<lambda>x. push (DVal (f x)))"

definition eval :: "'v hoc \<Rightarrow> (unit, 'v hoc) outcome" where
  "eval s = bindK (pop_sym s) (\<lambda>k s. bindK (verify k s) (\<lambda>v. push (DVal v)))"

definition incdec :: "'v arith \<Rightarrow> incop \<Rightarrow> 'v hoc \<Rightarrow> (unit, 'v hoc) outcome" where
  "incdec A b s = bindK (operand_sym s) (\<lambda>k s. bindK (inc_var A b k s) (\<lambda>v. push (DVal v)))"

definition assign :: "'v arith \<Rightarrow> asgop \<Rightarrow> 'v hoc \<Rightarrow> (unit, 'v hoc) outcome" where
  "assign A b s = bindK (pop_sym s) (\<lambda>k s. bindK (pop_val s) (\<lambda>y s.
     bindK (assign_var A b k y s) (\<lambda>v. push (DVal v))))"

definition printtop :: "'v arith \<Rightarrow> 'v hoc \<Rightarrow> (unit, 'v hoc) outcome" where
  "printtop A s = (case static_sym A s of (k, s) \<Rightarrow> bindK (pop_val s) (print_last A k))"

definition prstr :: "'v hoc \<Rightarrow> (unit, 'v hoc) outcome" where
  "prstr s = bindK (operand s) (\<lambda>c s. case c of Str x \<Rightarrow> print_str x s | _ \<Rightarrow> hoc_UB)"

definition varread :: "'v arith \<Rightarrow> 'v hoc \<Rightarrow> (unit, 'v hoc) outcome" where
  "varread A s = bindK (operand_sym s) (\<lambda>k s. bindK (read_var A k s) (\<lambda>v. push (DVal v)))"

definition exec_inst :: "'v arith \<Rightarrow> 'v exec \<Rightarrow> inst \<Rightarrow> 'v hoc \<Rightarrow> (unit, 'v hoc) outcome" where
  "exec_inst A X i s = (case i of
     Xpop \<Rightarrow> bindK (pop s) (\<lambda>_. Ok ())
   | Constpush \<Rightarrow> constpush s
   | Varpush \<Rightarrow> varpush s
   | Whilecode \<Rightarrow> whilecode A X s
   | Forcode \<Rightarrow> forcode A X s
   | Ifcode \<Rightarrow> ifcode A X s
   | Call \<Rightarrow> call X s
   | Funcret \<Rightarrow> funcret s
   | Procret \<Rightarrow> procret s
   | Arg \<Rightarrow> arg s
   | Argasg b \<Rightarrow> if b = Assign then argassign s else argopeq A b s
   | Bltin \<Rightarrow> bltin A s
   | Bin b \<Rightarrow> binary A b s
   | Negate \<Rightarrow> unary (f_neg A) s
   | Lnot \<Rightarrow> unary (\<lambda>v. of_truth A (\<not> truth A v)) s
   | Eval \<Rightarrow> eval s
   | Inc b \<Rightarrow> incdec A b s
   | Asg b \<Rightarrow> assign A b s
   | Printtop \<Rightarrow> printtop A s
   | Prexpr \<Rightarrow> bindK (pop_val s) (print_val A '' '')
   | Prstr \<Rightarrow> prstr s
   | Varread \<Rightarrow> varread A s)"

definition code :: "cell \<Rightarrow> 'v hoc \<Rightarrow> (unit, 'v hoc) outcome" where
  "code c s = (if NPROG \<le> progp s then Panic ''program too big''
               else Ok () (s\<lparr>prog := (prog s)(progp s := c), progp := progp s + 1\<rparr>))"

definition fetch :: "'v arith \<Rightarrow> 'v exec \<Rightarrow> 'v hoc \<Rightarrow> (unit + unit, 'v hoc) outcome" where
  "fetch A X s =
     (if prog s (pc s) = Stop \<or> returning s then Ok (Inr ()) s
      else case prog s (pc s) of
        Inst i \<Rightarrow> bindK (exec_inst A X i (s\<lparr>pc := pc s + 1\<rparr>)) (\<lambda>_. Ok (Inl ()))
      | _ \<Rightarrow> hoc_UB)"

definition machine :: "'v arith \<Rightarrow> 'v exec \<Rightarrow> 'v hoc \<Rightarrow> (unit, 'v hoc) outcome" where
  "machine A X s = iterK (\<lambda>_. fetch A X) () s"

primrec execute :: "'v arith \<Rightarrow> nat \<Rightarrow> 'v exec" where
  "execute A 0 p s = Hang"
| "execute A (Suc n) p s = machine A (execute A n) (s\<lparr>pc := p\<rparr>)"

end
