(* ===== verification/Hoc_Compiler.thy ===== *)
theory Hoc_Compiler
  imports Hoc_Machine
begin

section \<open>The code that the hoc parser generates\<close>

text \<open>
  The grammar of \<^verbatim>\<open>hoc-soledad/src/hoc.y\<close> without functions and procedures: a datatype per nonterminal,
  the code that its actions install (\<open>expr_code\<close>, \<open>stmt_code\<close>, \<open>cmd_code\<close>) and, as the specification,
  what a phrase means (\<open>expr_sem\<close>, \<open>stmt_sem\<close>, \<open>cmd_sem\<close>): evaluation by recursion on the phrase, without
  program memory, program counter and stack. The main result is that a session of the machine does what
  the phrases mean, run-time errors and endless loops included.
\<close>

datatype expr = ENum nat | EVar nat | EAsg asgop nat expr | ERead nat | EBltin string expr
  | EBin binop expr expr | ENeg expr | ENot expr | EInc incop nat

datatype pitem = PExpr expr | PStr string

datatype stmt = SExpr expr | SPrint "pitem list" | SWhile expr stmt | SFor expr expr expr stmt
  | SIf expr stmt | SIfElse expr stmt stmt | SEmpty | SSeq stmt stmt

datatype cmd = CStmt stmt | CExpr expr

subsection \<open>Code generation\<close>

primrec expr_code :: "expr \<Rightarrow> cell list" where
  "expr_code (ENum k) = [Inst Constpush, Sym k]"
| "expr_code (EVar k) = [Inst Varpush, Sym k, Inst Eval]"
| "expr_code (EAsg b k e) = expr_code e @ [Inst Varpush, Sym k, Inst (Asg b)]"
| "expr_code (ERead k) = [Inst Varread, Sym k]"
| "expr_code (EBltin f e) = expr_code e @ [Inst Bltin, Fn f]"
| "expr_code (EBin b e1 e2) = expr_code e1 @ expr_code e2 @ [Inst (Bin b)]"
| "expr_code (ENeg e) = expr_code e @ [Inst Negate]"
| "expr_code (ENot e) = expr_code e @ [Inst Lnot]"
| "expr_code (EInc b k) = [Inst (Inc b), Sym k]"

primrec item_code :: "pitem \<Rightarrow> cell list" where
  "item_code (PExpr e) = expr_code e @ [Inst Prexpr]"
| "item_code (PStr x) = [Inst Prstr, Str x]"

text \<open>The code of a statement that starts at address \<open>a\<close>, with the addresses that the actions fill in.\<close>

primrec stmt_code :: "nat \<Rightarrow> stmt \<Rightarrow> cell list" where
  "stmt_code a (SExpr e) = expr_code e @ [Inst Xpop]"
| "stmt_code a (SPrint ps) = concat (map item_code ps)"
| "stmt_code a (SWhile c b) =
     (let body = a + 3 + length (expr_code c) + 1; bc = stmt_code body b in
      [Inst Whilecode, Addr body, Addr (body + length bc + 1)]
        @ (expr_code c @ [Stop]) @ (bc @ [Stop]))"
| "stmt_code a (SFor i c p b) =
     (let cond = a + 5 + length (expr_code i) + 1; post = cond + length (expr_code c) + 1;
          body = post + length (expr_code p) + 1; bc = stmt_code body b in
      [Inst Forcode, Addr cond, Addr post, Addr body, Addr (body + length bc + 1)]
        @ (expr_code i @ [Stop]) @ (expr_code c @ [Stop]) @ (expr_code p @ [Stop]) @ (bc @ [Stop]))"
| "stmt_code a (SIf c b) =
     (let body = a + 4 + length (expr_code c) + 1; bc = stmt_code body b in
      [Inst Ifcode, Addr body, Stop, Addr (body + length bc + 1)]
        @ (expr_code c @ [Stop]) @ (bc @ [Stop]))"
| "stmt_code a (SIfElse c b1 b2) =
     (let body = a + 4 + length (expr_code c) + 1; bc1 = stmt_code body b1;
          els = body + length bc1 + 1; bc2 = stmt_code els b2 in
      [Inst Ifcode, Addr body, Addr els, Addr (els + length bc2 + 1)]
        @ (expr_code c @ [Stop]) @ (bc1 @ [Stop]) @ (bc2 @ [Stop]))"
| "stmt_code a SEmpty = []"
| "stmt_code a (SSeq b1 b2) =
     (let bc1 = stmt_code a b1 in bc1 @ stmt_code (a + length bc1) b2)"

primrec cmd_code :: "nat \<Rightarrow> cmd \<Rightarrow> cell list" where
  "cmd_code a (CStmt b) = stmt_code a b @ [Stop]"
| "cmd_code a (CExpr e) = expr_code e @ [Inst Printtop, Stop]"

text \<open>
  A session (\<^verbatim>\<open>run\<close>): parse a command, which installs its code, and execute it, until the input ends or a
  run-time error flushes it.
\<close>

definition command :: "'v arith \<Rightarrow> nat \<Rightarrow> cmd \<Rightarrow> 'v hoc \<Rightarrow> (unit, 'v hoc) outcome" where
  "command A n c s =
     bindK (forK (cmd_code (progbase s) c) code (initcode s)) (\<lambda>_ s. execute A n (progbase s) s)"

definition run :: "'v arith \<Rightarrow> nat \<Rightarrow> cmd list \<Rightarrow> 'v hoc \<Rightarrow> (unit, 'v hoc) outcome" where
  "run A n cs s = bindK (forK cs (command A n) s) (\<lambda>_ s. Ok () (initcode s))"

subsection \<open>Meaning\<close>

primrec expr_sem :: "'v arith \<Rightarrow> expr \<Rightarrow> 'v hoc \<Rightarrow> ('v, 'v hoc) outcome" where
  "expr_sem A (ENum k) s = sym k s (\<lambda>y. Ok (s_val y) s)"
| "expr_sem A (EVar k) s = verify k s"
| "expr_sem A (EAsg b k e) s = bindK (expr_sem A e s) (assign_var A b k)"
| "expr_sem A (ERead k) s = read_var A k s"
| "expr_sem A (EBltin f e) s = bindK (expr_sem A e s) (builtin A f)"
| "expr_sem A (EBin b e1 e2) s =
     bindK (expr_sem A e1 s) (\<lambda>x s. bindK (expr_sem A e2 s) (\<lambda>y s.
       bindK (divisor_check A b y s) (\<lambda>_ s. binop_val A b x y s)))"
| "expr_sem A (ENeg e) s = bindK (expr_sem A e s) (\<lambda>v s. Ok (f_neg A v) s)"
| "expr_sem A (ENot e) s = bindK (expr_sem A e s) (\<lambda>v s. Ok (of_truth A (\<not> truth A v)) s)"
| "expr_sem A (EInc b k) s = inc_var A b k s"

primrec item_sem :: "'v arith \<Rightarrow> pitem \<Rightarrow> 'v hoc \<Rightarrow> (unit, 'v hoc) outcome" where
  "item_sem A (PExpr e) s = bindK (expr_sem A e s) (print_val A '' '')"
| "item_sem A (PStr x) s = print_str x s"

text \<open>A loop: test, and as long as the test succeeds, run the body and test again.\<close>

definition loop_sem :: "'v arith \<Rightarrow> ('v hoc \<Rightarrow> ('v, 'v hoc) outcome)
    \<Rightarrow> ('v hoc \<Rightarrow> (unit, 'v hoc) outcome) \<Rightarrow> 'v hoc \<Rightarrow> (unit, 'v hoc) outcome" where
  "loop_sem A test body s = bindK (test s) (iterK (\<lambda>d s.
     if \<not> truth A d then Ok (Inr ()) s
     else bindK (body s) (\<lambda>_ s. bindK (test s) (\<lambda>d s. Ok (Inl d) s))))"

primrec stmt_sem :: "'v arith \<Rightarrow> stmt \<Rightarrow> 'v hoc \<Rightarrow> (unit, 'v hoc) outcome" where
  "stmt_sem A (SExpr e) s = bindK (expr_sem A e s) (\<lambda>_ s. Ok () s)"
| "stmt_sem A (SPrint ps) s = forK ps (item_sem A) s"
| "stmt_sem A (SWhile c b) s = loop_sem A (expr_sem A c) (stmt_sem A b) s"
| "stmt_sem A (SFor i c p b) s =
     bindK (expr_sem A i s) (\<lambda>_ s. loop_sem A (expr_sem A c)
       (\<lambda>s. bindK (stmt_sem A b s) (\<lambda>_ s. bindK (expr_sem A p s) (\<lambda>_ s. Ok () s))) s)"
| "stmt_sem A (SIf c b) s = bindK (expr_sem A c s) (\<lambda>d s. if truth A d then stmt_sem A b s else Ok () s)"
| "stmt_sem A (SIfElse c b1 b2) s =
     bindK (expr_sem A c s) (\<lambda>d s. if truth A d then stmt_sem A b1 s else stmt_sem A b2 s)"
| "stmt_sem A SEmpty s = Ok () s"
| "stmt_sem A (SSeq b1 b2) s = bindK (stmt_sem A b1 s) (\<lambda>_ s. stmt_sem A b2 s)"

primrec cmd_sem :: "'v arith \<Rightarrow> cmd \<Rightarrow> 'v hoc \<Rightarrow> (unit, 'v hoc) outcome" where
  "cmd_sem A (CStmt b) s = stmt_sem A b s"
| "cmd_sem A (CExpr e) s = bindK (expr_sem A e s) (\<lambda>v s.
     case static_sym A s of (k, s) \<Rightarrow> print_last A k v s)"

text \<open>How deep the stack grows, and how deep \<^verbatim>\<open>execute\<close> nests.\<close>

primrec expr_room :: "expr \<Rightarrow> nat" where
  "expr_room (ENum k) = 1"
| "expr_room (EVar k) = 1"
| "expr_room (EAsg b k e) = max 2 (expr_room e)"
| "expr_room (ERead k) = 1"
| "expr_room (EBltin f e) = expr_room e"
| "expr_room (EBin b e1 e2) = max (expr_room e1) (Suc (expr_room e2))"
| "expr_room (ENeg e) = expr_room e"
| "expr_room (ENot e) = expr_room e"
| "expr_room (EInc b k) = 1"

primrec item_room :: "pitem \<Rightarrow> nat" where
  "item_room (PExpr e) = expr_room e"
| "item_room (PStr x) = 0"

primrec stmt_room :: "stmt \<Rightarrow> nat" where
  "stmt_room (SExpr e) = expr_room e"
| "stmt_room (SPrint ps) = fold max (map item_room ps) 0"
| "stmt_room (SWhile c b) = max (expr_room c) (stmt_room b)"
| "stmt_room (SFor i c p b) = max (max (expr_room i) (expr_room c)) (max (expr_room p) (stmt_room b))"
| "stmt_room (SIf c b) = max (expr_room c) (stmt_room b)"
| "stmt_room (SIfElse c b1 b2) = max (expr_room c) (max (stmt_room b1) (stmt_room b2))"
| "stmt_room SEmpty = 0"
| "stmt_room (SSeq b1 b2) = max (stmt_room b1) (stmt_room b2)"

primrec stmt_nest :: "stmt \<Rightarrow> nat" where
  "stmt_nest (SExpr e) = 0"
| "stmt_nest (SPrint ps) = 0"
| "stmt_nest (SWhile c b) = Suc (stmt_nest b)"
| "stmt_nest (SFor i c p b) = Suc (stmt_nest b)"
| "stmt_nest (SIf c b) = Suc (stmt_nest b)"
| "stmt_nest (SIfElse c b1 b2) = Suc (max (stmt_nest b1) (stmt_nest b2))"
| "stmt_nest SEmpty = 0"
| "stmt_nest (SSeq b1 b2) = max (stmt_nest b1) (stmt_nest b2)"

primrec cmd_fits :: "nat \<Rightarrow> nat \<Rightarrow> cmd \<Rightarrow> bool" where
  "cmd_fits n a (CStmt b) =
     (a + length (cmd_code a (CStmt b)) \<le> NPROG \<and> stmt_room b \<le> NSTACK \<and> stmt_nest b < n)"
| "cmd_fits n a (CExpr e) =
     (a + length (cmd_code a (CExpr e)) \<le> NPROG \<and> expr_room e \<le> NSTACK \<and> 0 < n)"

text \<open>What a session shows: variables, input, output and the error number.\<close>

record 'v visible =
  sh_symtab :: "'v symbol list"
  sh_last :: "nat option"
  sh_in :: "'v option list list"
  sh_out :: "'v out list"
  sh_errno :: "merr option"

definition shown :: "'v hoc \<Rightarrow> 'v visible" where
  "shown s = \<lparr>sh_symtab = symtab s, sh_last = last_sym s, sh_in = hin s, sh_out = hout s,
              sh_errno = herrno s\<rparr>"

subsection \<open>The meaning does not depend on the machine\<close>

text \<open>\<open>mach m s\<close>: the variables and the input and output of \<open>s\<close>, the machine of \<open>m\<close>.\<close>

definition mach :: "'v hoc \<Rightarrow> 'v hoc \<Rightarrow> 'v hoc" where
  "mach m s = s\<lparr>prog := prog m, progp := progp m, progbase := progbase m, pc := pc m,
     hstack := hstack m, frames := frames m, returning := returning m, indef := indef m\<rparr>"

definition indep :: "('v hoc \<Rightarrow> ('a, 'v hoc) outcome) \<Rightarrow> bool" where
  "indep f \<longleftrightarrow> (\<forall>m s. f (mach m s) = bindK (f s) (\<lambda>x t. Ok x (mach m t)))"

lemma mach_select [simp]:
  "prog (mach m s) = prog m" "progp (mach m s) = progp m" "progbase (mach m s) = progbase m"
  "pc (mach m s) = pc m" "hstack (mach m s) = hstack m" "frames (mach m s) = frames m"
  "returning (mach m s) = returning m" "indef (mach m s) = indef m"
  "symtab (mach m s) = symtab s" "last_sym (mach m s) = last_sym s" "hin (mach m s) = hin s"
  "hout (mach m s) = hout s" "herrno (mach m s) = herrno s"
  by (simp_all add: mach_def)

lemma mach_update [simp]:
  "(mach m s)\<lparr>symtab := x\<rparr> = mach m (s\<lparr>symtab := x\<rparr>)"
  "(mach m s)\<lparr>last_sym := l\<rparr> = mach m (s\<lparr>last_sym := l\<rparr>)"
  "(mach m s)\<lparr>hin := i\<rparr> = mach m (s\<lparr>hin := i\<rparr>)"
  "(mach m s)\<lparr>hout := y\<rparr> = mach m (s\<lparr>hout := y\<rparr>)"
  "(mach m s)\<lparr>herrno := e\<rparr> = mach m (s\<lparr>herrno := e\<rparr>)"
  by (simp_all add: mach_def)

lemma mach_pc: "(mach m s)\<lparr>pc := p\<rparr> = mach (m\<lparr>pc := p\<rparr>) s"
  by (simp add: mach_def)

lemma mach_self [simp]: "mach s s = s"
  by (simp add: mach_def)

lemma mach_vars [simp]:
  "set_var k v (mach m s) = mach m (set_var k v s)" "make_var k (mach m s) = mach m (make_var k s)"
  by (simp_all add: set_var_def make_var_def)

named_theorems indeps \<open>operations that do not depend on the machine\<close>

lemma indep_Ok [indeps]: "indep (Ok x)"
  by (simp add: indep_def)

lemma indep_Panic [indeps]: "indep (\<lambda>_. Panic m)"
  by (simp add: indep_def)

lemma indep_bind [indeps]: "indep f \<Longrightarrow> (\<And>x. indep (g x)) \<Longrightarrow> indep (\<lambda>s. bindK (f s) g)"
  by (simp add: indep_def bindK_assoc)

lemma indep_if [indeps]: "indep f \<Longrightarrow> indep g \<Longrightarrow> indep (\<lambda>s. if b then f s else g s)"
  by (simp add: indep_def)

lemma indep_forK [indeps]: "(\<And>i. indep (f i)) \<Longrightarrow> indep (forK xs f)"
  by (induction xs) (simp_all add: indep_def bindK_assoc)

lemma indep_iterK [indeps]:
  assumes "\<And>a. indep (f a)"
  shows "indep (iterK f a)"
  unfolding indep_def
  using assms by (intro allI iterK_commute [where I = "\<lambda>_. True"]) (auto simp: indep_def wpK_iff)

lemma indep_sym [indeps]: "(\<And>y. indep (f y)) \<Longrightarrow> indep (\<lambda>s. sym k s (\<lambda>y. f y s))"
  by (auto simp: indep_def sym_def)

lemma indep_values [indeps]:
  "indep (verify k)" "indep (errcheck d)" "indep (lib_call r)" "indep (long_mod A x y)"
  "indep (divisor_check A b y)" "indep (read_var A k)" "indep (print_val A w v)" "indep (print_str z)"
  by (auto simp: indep_def verify_def sym_def errcheck_def lib_call_def long_mod_def divisor_check_def
      read_var_def print_val_def print_str_def lookup_def split: option.splits merr.splits prod.splits)

lemma indep_builtin [indeps]: "indep (builtin A f x)"
  unfolding builtin_def Gamma_def by (intro indeps)

lemma indep_update [indeps]:
  "indep (\<lambda>s. Ok v (make_var k (set_var k w s)))" "indep (\<lambda>s. Ok v (set_var k w s))"
  by (simp_all add: indep_def)

lemma indep_arith_op [indeps]: "indep (arith_op A b x y)"
  unfolding arith_op_def Pow_def by (cases b; hypsubst; unfold binop.case; intro indeps)

lemma indep_binop_val [indeps]: "indep (binop_val A b x y)"
  unfolding binop_val_def by (intro indeps)

lemma indep_asgop_val [indeps]: "indep (asgop_val A b x y)"
  unfolding asgop_val_def by (cases b; hypsubst; unfold asgop.case; intro indeps)

lemma indep_assign_var [indeps]: "indep (assign_var A b k y)"
  unfolding assign_var_def by (intro indeps)

lemma indep_inc_var [indeps]: "indep (inc_var A b k)"
  unfolding inc_var_def by (cases b; hypsubst; unfold incop.case; intro indeps)

lemma indep_print_val_last [indeps]: "indep (print_last A k v)"
  unfolding print_last_def by (intro indeps)

lemma indep_print_last [indeps]: "indep (\<lambda>s. case static_sym A s of (k, s) \<Rightarrow> print_last A k v s)"
  by (auto simp: indep_print_val_last [unfolded indep_def, rule_format] indep_def static_sym_def
      install_def split: option.splits)

lemma indep_expr_sem [indeps]: "indep (expr_sem A e)"
  by (induction e; unfold expr_sem.simps; intro indeps; assumption)

lemma indep_item_sem [indeps]: "indep (item_sem A p)"
  by (cases p; hypsubst; unfold item_sem.simps; intro indeps)

lemma indep_loop_sem [indeps]: "indep f \<Longrightarrow> indep g \<Longrightarrow> indep (loop_sem A f g)"
  unfolding loop_sem_def by (intro indeps; assumption)

lemma indep_stmt_sem [indeps]: "indep (stmt_sem A b)"
  by (induction b; unfold stmt_sem.simps; intro indeps; assumption)

lemma indep_cmd_sem [indeps]: "indep (cmd_sem A c)"
  by (cases c; hypsubst; unfold cmd_sem.simps; intro indeps)

lemma indep_keeps: "indep f \<Longrightarrow> f s = Ok v t \<Longrightarrow> mach s t = t"
  by (metis bindK.simps(1) indep_def mach_self outcome.inject(1))

lemma indep_frame:
  assumes "indep f" and "f s = Ok v t"
  shows "prog t = prog s" "progp t = progp s" "progbase t = progbase s" "pc t = pc s"
    "hstack t = hstack s" "frames t = frames s" "returning t = returning s" "indef t = indef s"
  using arg_cong [OF indep_keeps [OF assms], of prog] arg_cong [OF indep_keeps [OF assms], of progp]
    arg_cong [OF indep_keeps [OF assms], of progbase] arg_cong [OF indep_keeps [OF assms], of pc]
    arg_cong [OF indep_keeps [OF assms], of hstack] arg_cong [OF indep_keeps [OF assms], of frames]
    arg_cong [OF indep_keeps [OF assms], of returning] arg_cong [OF indep_keeps [OF assms], of indef]
  by simp_all

lemma indep_pc_stack:
  assumes "indep f"
  shows "f (s\<lparr>pc := p, hstack := h\<rparr>) = bindK (f s) (\<lambda>v t. Ok v (t\<lparr>pc := p, hstack := h\<rparr>))"
proof -
  have "s\<lparr>pc := p, hstack := h\<rparr> = mach (s\<lparr>pc := p, hstack := h\<rparr>) s"
    by (simp add: mach_def)
  then have "f (s\<lparr>pc := p, hstack := h\<rparr>) = bindK (f s) (\<lambda>v t. Ok v (mach (s\<lparr>pc := p, hstack := h\<rparr>) t))"
    using assms unfolding indep_def by metis
  moreover have "mach (s\<lparr>pc := p, hstack := h\<rparr>) t = t\<lparr>pc := p, hstack := h\<rparr>" if "f s = Ok v t" for v t
    using indep_frame [OF assms that] by (simp add: mach_def)
  ultimately show ?thesis
    by (auto intro: bindK_cong)
qed

lemma indep_pc: "indep f \<Longrightarrow> f (s\<lparr>pc := p\<rparr>) = bindK (f s) (\<lambda>v t. Ok v (t\<lparr>pc := p\<rparr>))"
  using indep_pc_stack [where f = f and s = s and p = p and h = "hstack s"] by (auto simp: indep_frame(5) intro: bindK_cong)

subsection \<open>Code in program memory\<close>

primrec code_at :: "(nat \<Rightarrow> cell) \<Rightarrow> nat \<Rightarrow> cell list \<Rightarrow> bool" where
  "code_at P a [] = True"
| "code_at P a (c # cs) = (P a = c \<and> code_at P (Suc a) cs)"

lemma code_at_append [simp]:
  "code_at P a (xs @ ys) = (code_at P a xs \<and> code_at P (a + length xs) ys)"
  by (induction xs arbitrary: a) auto

lemma code_at_upd [simp]: "b < a \<Longrightarrow> code_at (P(b := c)) a cs = code_at P a cs"
  by (induction cs arbitrary: a) auto

lemma install_code:
  "progp s + length cs \<le> NPROG \<Longrightarrow>
   \<exists>P. forK cs code s = Ok () (s\<lparr>prog := P, progp := progp s + length cs\<rparr>)
     \<and> code_at P (progp s) cs \<and> (\<forall>a < progp s. P a = prog s a)"
proof (induction cs arbitrary: s)
  case Nil
  then show ?case by (intro exI [of _ "prog s"]) simp
next
  case (Cons c cs)
  let ?t = "s\<lparr>prog := (prog s)(progp s := c), progp := progp s + 1\<rparr>"
  from Cons.prems Cons.IH [of ?t] obtain P
    where "forK cs code ?t = Ok () (?t\<lparr>prog := P, progp := progp ?t + length cs\<rparr>)"
      "code_at P (progp ?t) cs" "\<forall>a < progp ?t. P a = prog ?t a"
    by auto
  moreover from Cons.prems have "code c s = Ok () ?t" by (simp add: code_def)
  ultimately show ?case by (intro exI [of _ P]) auto
qed

lemma machine_step:
  "prog s (pc s) = Inst i \<Longrightarrow> \<not> returning s \<Longrightarrow>
   machine A X s = bindK (exec_inst A X i (s\<lparr>pc := pc s + 1\<rparr>)) (\<lambda>_ t. machine A X t)"
  unfolding machine_def by (subst iterK_unfold) (simp add: fetch_def bindK_assoc)

lemma machine_stop: "prog s (pc s) = Stop \<Longrightarrow> machine A X s = Ok () s"
  unfolding machine_def by (subst iterK_unfold) (simp add: fetch_def)

subsection \<open>Expressions\<close>

lemma swap_pc_stack: "s\<lparr>hstack := h, pc := p\<rparr> = s\<lparr>pc := p, hstack := h\<rparr>"
  by simp

lemmas stack_ops = swap_pc_stack pop_def pop_val_def pop_sym_def val_def operand_def operand_sym_def
  bindK_assoc

lemma then_push:
  assumes "indep f" and "length h < NSTACK"
  shows "bindK (f (s\<lparr>pc := p, hstack := h\<rparr>)) (\<lambda>v. push (DVal v))
    = bindK (f s) (\<lambda>v t. Ok () (t\<lparr>pc := p, hstack := DVal v # h\<rparr>))"
  using assms(2) by (simp add: indep_pc_stack [OF assms(1)] bindK_assoc push_def)

lemma push_ops:
  assumes "length h < NSTACK"
  shows
    "prog s p = Sym k \<Longrightarrow> constpush (s\<lparr>pc := p, hstack := h\<rparr>)
       = sym k s (\<lambda>y. Ok () (s\<lparr>pc := p + 1, hstack := DVal (s_val y) # h\<rparr>))"
    "prog s p = Sym k \<Longrightarrow> varpush (s\<lparr>pc := p, hstack := h\<rparr>)
       = Ok () (s\<lparr>pc := p + 1, hstack := DSym k # h\<rparr>)"
    "eval (s\<lparr>pc := p, hstack := DSym k # h\<rparr>)
       = bindK (verify k s) (\<lambda>v t. Ok () (t\<lparr>pc := p, hstack := DVal v # h\<rparr>))"
    "assign A b (s\<lparr>pc := p, hstack := DSym k # DVal y # h\<rparr>)
       = bindK (assign_var A b k y s) (\<lambda>v t. Ok () (t\<lparr>pc := p, hstack := DVal v # h\<rparr>))"
    "prog s p = Sym k \<Longrightarrow> incdec A c (s\<lparr>pc := p, hstack := h\<rparr>)
       = bindK (inc_var A c k s) (\<lambda>v t. Ok () (t\<lparr>pc := p + 1, hstack := DVal v # h\<rparr>))"
    "prog s p = Sym k \<Longrightarrow> varread A (s\<lparr>pc := p, hstack := h\<rparr>)
       = bindK (read_var A k s) (\<lambda>v t. Ok () (t\<lparr>pc := p + 1, hstack := DVal v # h\<rparr>))"
    "prog s p = Fn f \<Longrightarrow> bltin A (s\<lparr>pc := p, hstack := DVal y # h\<rparr>)
       = bindK (builtin A f y s) (\<lambda>v t. Ok () (t\<lparr>pc := p + 1, hstack := DVal v # h\<rparr>))"
    "unary g (s\<lparr>pc := p, hstack := DVal y # h\<rparr>) = Ok () (s\<lparr>pc := p, hstack := DVal (g y) # h\<rparr>)"
  using assms
  by (simp_all add: stack_ops constpush_def varpush_def eval_def assign_def incdec_def varread_def
      bltin_def unary_def push_def sym_def then_push indeps)

lemma binary_op:
  assumes "length h < NSTACK"
  shows "binary A b (s\<lparr>pc := p, hstack := DVal y # DVal x # h\<rparr>)
    = bindK (divisor_check A b y s) (\<lambda>_ t. bindK (binop_val A b x y t)
        (\<lambda>v t. Ok () (t\<lparr>pc := p, hstack := DVal v # h\<rparr>)))"
  using assms by (simp add: stack_ops binary_def indep_pc_stack [OF indep_values(5)] then_push indeps)

lemma expr_room_pos [simp]: "Suc 0 \<le> expr_room e"
  by (induction e) auto

lemma has_room: "length h + expr_room e \<le> NSTACK \<Longrightarrow> length h < NSTACK"
  using expr_room_pos [of e] by linarith

lemmas machine_ops = machine_step exec_inst_def swap_pc_stack push_ops binary_op bindK_assoc

lemma expr_runs:
  "code_at (prog s) p (expr_code e) \<Longrightarrow> \<not> returning s \<Longrightarrow> length h + expr_room e \<le> NSTACK \<Longrightarrow>
   machine A X (s\<lparr>pc := p, hstack := h\<rparr>)
   = bindK (expr_sem A e s)
       (\<lambda>v t. machine A X (t\<lparr>pc := p + length (expr_code e), hstack := DVal v # h\<rparr>))"
proof (induction e arbitrary: s p h)
  case (ENum k)
  then show ?case by (simp add: machine_ops sym_def)
next
  case (EVar k)
  then show ?case by (simp add: machine_ops)
next
  case (ERead k)
  then show ?case by (simp add: machine_ops)
next
  case (EInc b k)
  then show ?case by (simp add: machine_ops)
next
  case (ENeg e)
  have "machine A X (t\<lparr>pc := p + length (expr_code e), hstack := DVal v # h\<rparr>) = machine A X (t\<lparr>pc := p + length (expr_code e) + 1, hstack := DVal (f_neg A v) # h\<rparr>)"
    if "expr_sem A e s = Ok v t" for v t
    using ENeg.prems has_room [of h e] indep_frame [OF indep_expr_sem that]
    by (simp add: machine_ops)
  with ENeg show ?case by (simp add: bindK_assoc) (rule bindK_cong, auto)
next
  case (ENot e)
  have "machine A X (t\<lparr>pc := p + length (expr_code e), hstack := DVal v # h\<rparr>) = machine A X (t\<lparr>pc := p + length (expr_code e) + 1, hstack := DVal (of_truth A (\<not> truth A v)) # h\<rparr>)"
    if "expr_sem A e s = Ok v t" for v t
    using ENot.prems has_room [of h e] indep_frame [OF indep_expr_sem that]
    by (simp add: machine_ops)
  with ENot show ?case by (simp add: bindK_assoc) (rule bindK_cong, auto)
next
  case (EAsg b k e)
  have "machine A X (t\<lparr>pc := p + length (expr_code e), hstack := DVal v # h\<rparr>) = bindK (assign_var A b k v t) (\<lambda>w u. machine A X (u\<lparr>pc := Suc (Suc (Suc (p + length (expr_code e)))), hstack := DVal w # h\<rparr>))"
    if "expr_sem A e s = Ok v t" for v t
    using EAsg.prems has_room [of h e] indep_frame [OF indep_expr_sem that]
    by (simp add: machine_ops)
  with EAsg show ?case by (simp add: bindK_assoc) (rule bindK_cong, auto)
next
  case (EBltin f e)
  have "machine A X (t\<lparr>pc := p + length (expr_code e), hstack := DVal v # h\<rparr>) = bindK (builtin A f v t) (\<lambda>w u. machine A X (u\<lparr>pc := Suc (Suc (p + length (expr_code e))), hstack := DVal w # h\<rparr>))"
    if "expr_sem A e s = Ok v t" for v t
    using EBltin.prems has_room [of h e] indep_frame [OF indep_expr_sem that]
    by (simp add: machine_ops)
  with EBltin show ?case by (simp add: bindK_assoc) (rule bindK_cong, auto)
next
  case (EBin b e1 e2)
  let ?p = "p + length (expr_code e1)"
  have op: "machine A X (u\<lparr>pc := ?p + length (expr_code e2), hstack := DVal y # DVal x # h\<rparr>)
      = bindK (divisor_check A b y u) (\<lambda>_ u. bindK (binop_val A b x y u)
          (\<lambda>w u. machine A X (u\<lparr>pc := ?p + length (expr_code e2) + 1, hstack := DVal w # h\<rparr>)))"
    if "expr_sem A e1 s = Ok x t" and "expr_sem A e2 t = Ok y u" for x t y u
    using EBin.prems has_room [of h e1] indep_frame [OF indep_expr_sem that(1)]
      indep_frame [OF indep_expr_sem that(2)]
    by (simp add: machine_ops)
  have "machine A X (t\<lparr>pc := ?p, hstack := DVal x # h\<rparr>)
      = bindK (expr_sem A e2 t) (\<lambda>y u.
          bindK (divisor_check A b y u) (\<lambda>_ u. bindK (binop_val A b x y u)
            (\<lambda>w u. machine A X (u\<lparr>pc := ?p + length (expr_code e2) + 1, hstack := DVal w # h\<rparr>))))"
    if "expr_sem A e1 s = Ok x t" for x t
    by (subst EBin.IH(2), use EBin.prems indep_frame [OF indep_expr_sem that] in simp_all)
       (rule bindK_cong, simp_all add: op [OF that])
  with EBin show ?case by (simp add: bindK_assoc add.assoc) (rule bindK_cong, auto)
qed

subsection \<open>Statements\<close>

text \<open>\<open>like s t\<close>: the same program and the same stack, in normal execution.\<close>

definition like :: "'v hoc \<Rightarrow> 'v hoc \<Rightarrow> bool" where
  "like s t \<longleftrightarrow> prog t = prog s \<and> hstack t = hstack s \<and> \<not> returning t"

lemma indep_like: "indep f \<Longrightarrow> like s t \<Longrightarrow> f t = Ok v u \<Longrightarrow> like s u"
  by (simp add: like_def indep_frame)

lemma like_running: "like s t \<Longrightarrow> prog t = prog s \<and> \<not> returning t"
  by (simp add: like_def)

lemma cond_runs:
  assumes "code_at (prog s) p (expr_code c @ [Stop])" "length (hstack s) + expr_room c \<le> NSTACK"
    and "like s t"
  shows "execute A (Suc n) p (t\<lparr>pc := q\<rparr>) = bindK (expr_sem A c t)
    (\<lambda>v u. Ok () (u\<lparr>pc := p + length (expr_code c), hstack := DVal v # hstack u\<rparr>))"
proof -
  have "execute A (Suc n) p (t\<lparr>pc := q\<rparr>)
      = machine A (execute A n) (t\<lparr>pc := p, hstack := hstack t\<rparr>)"
    by simp
  also have "\<dots> = bindK (expr_sem A c t) (\<lambda>v u. machine A (execute A n)
      (u\<lparr>pc := p + length (expr_code c), hstack := DVal v # hstack t\<rparr>))"
    using assms by (intro expr_runs) (simp_all add: like_def)
  also have "\<dots> = bindK (expr_sem A c t)
      (\<lambda>v u. Ok () (u\<lparr>pc := p + length (expr_code c), hstack := DVal v # hstack u\<rparr>))"
    using assms by (intro bindK_cong) (auto simp: machine_stop like_def indep_frame [OF indep_expr_sem])
  finally show ?thesis .
qed

lemma loop_runs:
  assumes step: "\<And>t. like s t \<Longrightarrow>
      M (t\<lparr>pc := q\<rparr>) = bindK (body t) (\<lambda>_ u. bindK (test u) (\<lambda>d u. Ok (Inl d) (u\<lparr>pc := q\<rparr>)))"
    and "indep body" and "indep test" and "like s t"
  shows "bindK (test t) (\<lambda>d u. iterK (\<lambda>d s. if \<not> truth A d then Ok (Inr ()) s else M s) d (u\<lparr>pc := q\<rparr>))
    = bindK (loop_sem A test body t) (\<lambda>_ u. Ok () (u\<lparr>pc := q\<rparr>))"
proof -
  let ?g = "\<lambda>d s. if \<not> truth A d then Ok (Inr ()) s
      else bindK (body s) (\<lambda>_ s. bindK (test s) (\<lambda>d s. Ok (Inl d) s))"
  have "iterK (\<lambda>d s. if \<not> truth A d then Ok (Inr ()) s else M s) d (u\<lparr>pc := q\<rparr>)
      = bindK (iterK ?g d u) (\<lambda>r u. Ok r (u\<lparr>pc := q\<rparr>))" if "like s u" for d u
    using that
  proof (rule iterK_commute [where I = "like s", rotated 2])
    fix d t assume t: "like s t"
    then show "(if \<not> truth A d then Ok (Inr ()) (t\<lparr>pc := q\<rparr>) else M (t\<lparr>pc := q\<rparr>))
        = bindK (?g d t) (\<lambda>r t. Ok r (t\<lparr>pc := q\<rparr>))"
      by (simp add: step bindK_assoc)
    show "wpK (?g d t) (\<lambda>_. like s)"
      using t by (auto simp: wpK_iff bindK_eq_Ok_iff dest: indep_like [OF assms(2)] indep_like [OF assms(3)])
  qed
  moreover have "like s u" if "test t = Ok d u" for d u
    using indep_like [OF assms(3) assms(4) that] .
  ultimately show ?thesis
    by (auto simp: loop_sem_def bindK_assoc intro: bindK_cong)
qed

lemma whilecode_runs:
  assumes cond: "\<And>t q. like s t \<Longrightarrow> X (Suc (Suc p)) (t\<lparr>pc := q\<rparr>)
      = bindK (test t) (\<lambda>v u. Ok () (u\<lparr>pc := qc, hstack := DVal v # hstack u\<rparr>))"
    and body: "\<And>t q. like s t \<Longrightarrow> X pb (t\<lparr>pc := q\<rparr>) = bindK (body t) (\<lambda>_ u. Ok () (u\<lparr>pc := qb\<rparr>))"
    and i: "indep test" "indep body"
    and s: "prog s p = Addr pb" "prog s (Suc p) = Addr pn" "like s s"
  shows "whilecode A X (s\<lparr>pc := p\<rparr>) = bindK (loop_sem A test body s) (\<lambda>_ t. Ok () (t\<lparr>pc := pn\<rparr>))"
proof -
  let ?M = "\<lambda>s. bindK (execute_at X p s) (\<lambda>_ s.
           if returning s then Ok (Inr ()) s
           else bindK (X (p + 2) s) (\<lambda>_ s. bindK (pop_val s) (\<lambda>d s. Ok (Inl d) s)))"
  have step: "?M (t\<lparr>pc := qc\<rparr>) = bindK (body t) (\<lambda>_ u. bindK (test u) (\<lambda>d u. Ok (Inl d) (u\<lparr>pc := qc\<rparr>)))"
    if t: "like s t" for t
  proof -
    have "prog t p = Addr pb" using t s by (simp add: like_def)
    moreover have "like s u \<and> \<not> returning u" if "body t = Ok v u" for v u
      using indep_like [OF i(2) t that] by (simp add: like_def)
    ultimately show ?thesis
      by (simp add: execute_at_def body [OF t] bindK_assoc)
         (rule bindK_cong, simp, simp add: cond stack_ops)
  qed
  have "whilecode A X (s\<lparr>pc := p\<rparr>) = bindK (bindK (test s) (\<lambda>d u.
      iterK (\<lambda>d s. if \<not> truth A d then Ok (Inr ()) s else ?M s) d (u\<lparr>pc := qc\<rparr>))) (\<lambda>_. next_stmt (p + 1))"
    by (simp add: whilecode_def cond [OF s(3)] bindK_assoc stack_ops)
  also have "\<dots> = bindK (loop_sem A test body s) (\<lambda>_ u. next_stmt (p + 1) (u\<lparr>pc := qc\<rparr>))"
    by (subst loop_runs [OF step i(2) i(1) s(3)]) (simp_all add: bindK_assoc)
  also have "\<dots> = bindK (loop_sem A test body s) (\<lambda>_ t. Ok () (t\<lparr>pc := pn\<rparr>))"
  proof (rule bindK_cong [OF refl])
    fix v u assume "loop_sem A test body s = Ok v u"
    from indep_like [OF indep_loop_sem [OF i] s(3) this] s
    show "next_stmt (p + 1) (u\<lparr>pc := qc\<rparr>) = Ok () (u\<lparr>pc := pn\<rparr>)"
      by (simp add: next_stmt_def like_def)
  qed
  finally show ?thesis .
qed

lemma forcode_runs:
  assumes pre: "\<And>t q. like s t \<Longrightarrow> X (p + 4) (t\<lparr>pc := q\<rparr>)
      = bindK (init t) (\<lambda>v u. Ok () (u\<lparr>pc := qi, hstack := DVal v # hstack u\<rparr>))"
    and cond: "\<And>t q. like s t \<Longrightarrow> X pt (t\<lparr>pc := q\<rparr>)
      = bindK (test t) (\<lambda>v u. Ok () (u\<lparr>pc := qt, hstack := DVal v # hstack u\<rparr>))"
    and post: "\<And>t q. like s t \<Longrightarrow> X pp (t\<lparr>pc := q\<rparr>)
      = bindK (inc t) (\<lambda>v u. Ok () (u\<lparr>pc := qp, hstack := DVal v # hstack u\<rparr>))"
    and body: "\<And>t q. like s t \<Longrightarrow> X pb (t\<lparr>pc := q\<rparr>) = bindK (body t) (\<lambda>_ u. Ok () (u\<lparr>pc := qb\<rparr>))"
    and i: "indep init" "indep test" "indep inc" "indep body"
    and s: "prog s p = Addr pt" "prog s (Suc p) = Addr pp" "prog s (Suc (Suc p)) = Addr pb"
      "prog s (p + 3) = Addr pn" "like s s"
  shows "forcode A X (s\<lparr>pc := p\<rparr>) = bindK (init s) (\<lambda>_ t.
    bindK (loop_sem A test (\<lambda>t. bindK (body t) (\<lambda>_ t. bindK (inc t) (\<lambda>_ t. Ok () t))) t)
      (\<lambda>_ t. Ok () (t\<lparr>pc := pn\<rparr>)))"
proof -
  let ?body = "\<lambda>t. bindK (body t) (\<lambda>_ t. bindK (inc t) (\<lambda>_ t. Ok () t))"
  let ?M = "\<lambda>s. bindK (execute_at X (p + 2) s) (\<lambda>_ s.
           if returning s then Ok (Inr ()) s
           else bindK (execute_at X (p + 1) s) (\<lambda>_ s.
             bindK (pop s) (\<lambda>_ s.
             bindK (execute_at X p s) (\<lambda>_ s.
             bindK (pop_val s) (\<lambda>d s. Ok (Inl d) s)))))"
  have ib: "indep ?body" by (intro indeps i)
  have at: "execute_at X p (t\<lparr>pc := q\<rparr>) = X pt (t\<lparr>pc := q\<rparr>)"
    "execute_at X (Suc p) (t\<lparr>pc := q\<rparr>) = X pp (t\<lparr>pc := q\<rparr>)"
    "execute_at X (Suc (Suc p)) (t\<lparr>pc := q\<rparr>) = X pb (t\<lparr>pc := q\<rparr>)" if "like s t" for t q
    using that s by (simp_all add: execute_at_def like_def)
  have test: "bindK (execute_at X p (t\<lparr>pc := q\<rparr>)) (\<lambda>_ s. bindK (pop_val s) f)
      = bindK (test t) (\<lambda>d u. f d (u\<lparr>pc := qt\<rparr>))"
    if "like s t" for t q and f :: "'a \<Rightarrow> 'a hoc \<Rightarrow> ('c, 'a hoc) outcome"
    using that by (simp add: at cond stack_ops)
  have inc: "bindK (execute_at X (Suc p) (t\<lparr>pc := q\<rparr>)) (\<lambda>_ s. bindK (pop s) (\<lambda>_. f))
      = bindK (inc t) (\<lambda>_ u. f (u\<lparr>pc := qp\<rparr>))"
    if "like s t" for t q and f :: "'a hoc \<Rightarrow> ('c, 'a hoc) outcome"
    using that by (simp add: at post stack_ops)
  have init: "bindK (X (p + 4) (s\<lparr>pc := q\<rparr>)) (\<lambda>_ s. bindK (pop s) (\<lambda>_. f))
      = bindK (init s) (\<lambda>_ u. f (u\<lparr>pc := qi\<rparr>))" for q and f :: "'a hoc \<Rightarrow> ('c, 'a hoc) outcome"
    using s(5) by (simp add: pre stack_ops)
  have step: "?M (t\<lparr>pc := qt\<rparr>) = bindK (?body t) (\<lambda>_ u. bindK (test u) (\<lambda>d u. Ok (Inl d) (u\<lparr>pc := qt\<rparr>)))"
    if t: "like s t" for t
  proof -
    have "bindK (execute_at X (Suc p) (u\<lparr>pc := qb\<rparr>)) (\<lambda>_ s. bindK (pop s) (\<lambda>_ s.
          bindK (execute_at X p s) (\<lambda>_ s. bindK (pop_val s) (\<lambda>d s. Ok (Inl d :: 'a + unit) s))))
        = bindK (inc u) (\<lambda>_ u. bindK (test u) (\<lambda>d u. Ok (Inl d) (u\<lparr>pc := qt\<rparr>)))"
      if "like s u" for u
      by (subst inc [OF that], rule bindK_cong [OF refl], rule test, rule indep_like [OF i(3) that])
    moreover have "like s u \<and> \<not> returning u" if "body t = Ok v u" for v u
      using indep_like [OF i(4) t that] by (simp add: like_def)
    ultimately show ?thesis
      by (simp add: at [OF t] body [OF t] bindK_assoc) (rule bindK_cong, simp_all)
  qed
  have "forcode A X (s\<lparr>pc := p\<rparr>) = bindK (init s) (\<lambda>_ t. bindK (bindK (test t) (\<lambda>d u.
      iterK (\<lambda>d s. if \<not> truth A d then Ok (Inr ()) s else ?M s) d (u\<lparr>pc := qt\<rparr>))) (\<lambda>_. next_stmt (p + 3)))"
    by (simp add: forcode_def init bindK_assoc) (rule bindK_cong [OF refl], rule test, rule indep_like [OF i(1) s(5)])
  also have "\<dots> = bindK (init s) (\<lambda>_ t. bindK (loop_sem A test ?body t) (\<lambda>_ t. Ok () (t\<lparr>pc := pn\<rparr>)))"
  proof (rule bindK_cong [OF refl])
    fix v t assume "init s = Ok v t"
    then have t: "like s t" by (rule indep_like [OF i(1) s(5)])
    have "next_stmt (p + 3) (u\<lparr>pc := qt\<rparr>) = Ok () (u\<lparr>pc := pn\<rparr>)"
      if "loop_sem A test ?body t = Ok () u" for u
      using indep_like [OF indep_loop_sem [OF i(2) ib] t that] s by (simp add: next_stmt_def like_def)
    then show "bindK (bindK (test t) (\<lambda>d u. iterK (\<lambda>d s. if \<not> truth A d then Ok (Inr ()) s else ?M s)
        d (u\<lparr>pc := qt\<rparr>))) (\<lambda>_. next_stmt (p + 3))
      = bindK (loop_sem A test ?body t) (\<lambda>_ t. Ok () (t\<lparr>pc := pn\<rparr>))"
      by (subst loop_runs [OF step ib i(2) t]) (simp_all add: bindK_assoc, rule bindK_cong, simp_all)
  qed
  finally show ?thesis .
qed

lemma ifcode_runs:
  assumes cond: "\<And>t q. like s t \<Longrightarrow> X (p + 3) (t\<lparr>pc := q\<rparr>)
      = bindK (test t) (\<lambda>v u. Ok () (u\<lparr>pc := qc, hstack := DVal v # hstack u\<rparr>))"
    and body: "\<And>t q. like s t \<Longrightarrow> X pb (t\<lparr>pc := q\<rparr>) = bindK (body t) (\<lambda>_ u. Ok () (u\<lparr>pc := qb\<rparr>))"
    and els: "prog s (Suc p) = Stop \<and> els = Ok ()
      \<or> prog s (Suc p) = Addr pe
        \<and> (\<forall>t q. like s t \<longrightarrow> X pe (t\<lparr>pc := q\<rparr>) = bindK (els t) (\<lambda>_ u. Ok () (u\<lparr>pc := qe\<rparr>)))"
    and i: "indep test" "indep body" "indep els"
    and s: "prog s p = Addr pb" "prog s (Suc (Suc p)) = Addr pn" "like s s"
  shows "ifcode A X (s\<lparr>pc := p\<rparr>)
    = bindK (test s) (\<lambda>d t. bindK (if truth A d then body t else els t) (\<lambda>_ t. Ok () (t\<lparr>pc := pn\<rparr>)))"
proof -
  have "next_stmt (Suc (Suc p)) (u\<lparr>pc := q\<rparr>) = Ok () (u\<lparr>pc := pn\<rparr>)" if "like s u" for u q
    using s that by (simp add: next_stmt_def like_def)
  then have nxt: "bindK (f t) (\<lambda>_ u. next_stmt (Suc (Suc p)) (u\<lparr>pc := q\<rparr>))
      = bindK (f t) (\<lambda>_ u. Ok () (u\<lparr>pc := pn\<rparr>))"
    if "indep f" "like s t" for f :: "'a hoc \<Rightarrow> (unit, 'a hoc) outcome" and t q
    by (intro bindK_cong refl) (auto dest: indep_like [OF that])
  have branch: "bindK (if truth A d then execute_at X p (t\<lparr>pc := qc\<rparr>)
        else if prog t (Suc p) \<noteq> Stop then execute_at X (Suc p) (t\<lparr>pc := qc\<rparr>) else Ok () (t\<lparr>pc := qc\<rparr>))
        (\<lambda>_. next_stmt (Suc (Suc p)))
      = bindK (if truth A d then body t else els t) (\<lambda>_ t. Ok () (t\<lparr>pc := pn\<rparr>))"
    if t: "like s t" for d t
  proof -
    have "prog t = prog s" using t by (simp add: like_def)
    then show ?thesis
      using els s nxt [OF i(2) t] nxt [OF i(3) t]
      by (auto simp: execute_at_def body [OF t] t bindK_assoc)
  qed
  show ?thesis
    by (simp add: ifcode_def cond [OF s(3)] stack_ops del: if_not_P cong del: if_weak_cong)
       (rule bindK_cong [OF refl], use branch [OF indep_like [OF i(1) s(3)]] in simp)
qed

lemma expr_then:
  assumes "code_at (prog s) p (expr_code e)" "like s s" "length (hstack s) + expr_room e \<le> NSTACK"
    and "\<And>v t. like s t \<Longrightarrow>
      machine A X (t\<lparr>pc := p + length (expr_code e), hstack := DVal v # hstack t\<rparr>) = f v t"
  shows "machine A X (s\<lparr>pc := p\<rparr>) = bindK (expr_sem A e s) f"
proof -
  have "machine A X (s\<lparr>pc := p\<rparr>) = machine A X (s\<lparr>pc := p, hstack := hstack s\<rparr>)"
    by simp
  also have "\<dots> = bindK (expr_sem A e s)
      (\<lambda>v t. machine A X (t\<lparr>pc := p + length (expr_code e), hstack := DVal v # hstack s\<rparr>))"
    using assms by (intro expr_runs) (simp_all add: like_def)
  also have "\<dots> = bindK (expr_sem A e s) f"
  proof (rule bindK_cong [OF refl])
    fix v t assume "expr_sem A e s = Ok v t"
    from assms(4) [OF indep_like [OF indep_expr_sem assms(2) this]] indep_frame [OF indep_expr_sem this]
    show "machine A X (t\<lparr>pc := p + length (expr_code e), hstack := DVal v # hstack s\<rparr>) = f v t"
      by simp
  qed
  finally show ?thesis .
qed

lemma item_runs:
  assumes "code_at (prog s) p (item_code i)" "like s s" "length (hstack s) + item_room i \<le> NSTACK"
  shows "machine A X (s\<lparr>pc := p\<rparr>)
    = bindK (item_sem A i s) (\<lambda>_ t. machine A X (t\<lparr>pc := p + length (item_code i)\<rparr>))"
proof (cases i)
  case (PExpr e)
  have "machine A X (t\<lparr>pc := p + length (expr_code e), hstack := DVal v # hstack t\<rparr>)
      = bindK (print_val A '' '' v t) (\<lambda>_ t. machine A X (t\<lparr>pc := p + length (item_code i)\<rparr>))"
    if "like s t" for v t
    using assms PExpr like_running [OF that]
    by (simp add: machine_step exec_inst_def stack_ops indep_pc [OF indep_values(7)])
  then show ?thesis
    using assms PExpr expr_then [of s p e A X] by (simp add: bindK_assoc)
next
  case (PStr x)
  then show ?thesis
    using assms by (simp add: machine_step exec_inst_def prstr_def stack_ops like_def
        indep_pc [OF indep_values(8)])
qed

lemma fold_max_le: "fold max xs (m :: nat) \<le> k \<longleftrightarrow> m \<le> k \<and> (\<forall>x \<in> set xs. x \<le> k)"
  by (induction xs arbitrary: m) auto

lemma items_run:
  "code_at (prog s) p (concat (map item_code ps)) \<Longrightarrow> like s s \<Longrightarrow>
   \<forall>i \<in> set ps. length (hstack s) + item_room i \<le> NSTACK \<Longrightarrow>
   machine A X (s\<lparr>pc := p\<rparr>) = bindK (forK ps (item_sem A) s)
     (\<lambda>_ t. machine A X (t\<lparr>pc := p + length (concat (map item_code ps))\<rparr>))"
proof (induction ps arbitrary: s p)
  case (Cons i ps)
  have "machine A X (t\<lparr>pc := p + length (item_code i)\<rparr>) = bindK (forK ps (item_sem A) t)
     (\<lambda>_ t. machine A X (t\<lparr>pc := p + length (concat (map item_code (i # ps)))\<rparr>))"
    if "item_sem A i s = Ok v t" for v t
    using Cons.prems Cons.IH [of t "p + length (item_code i)"] indep_like [OF indep_item_sem Cons.prems(2) that]
    by (simp add: like_def add.assoc)
  then show ?case
    using Cons.prems by (subst item_runs [of s p i]) (simp_all add: bindK_assoc, rule bindK_cong, auto)
qed simp

lemma block_runs:
  assumes runs: "\<And>t. like s t \<Longrightarrow> machine A (execute A n) (t\<lparr>pc := p\<rparr>)
      = bindK (f t) (\<lambda>_ u. machine A (execute A n) (u\<lparr>pc := e\<rparr>))"
    and "prog s e = Stop" "indep f" "like s t"
  shows "execute A (Suc n) p (t\<lparr>pc := q\<rparr>) = bindK (f t) (\<lambda>_ u. Ok () (u\<lparr>pc := e\<rparr>))"
proof -
  have "machine A (execute A n) (u\<lparr>pc := e\<rparr>) = Ok () (u\<lparr>pc := e\<rparr>)" if "f t = Ok v u" for u v
    using indep_like [OF assms(3,4) that] assms(2) by (simp add: machine_stop like_def)
  then show ?thesis
    using runs [OF assms(4)] by (simp, intro bindK_cong refl) auto
qed

definition stmt_ok :: "'v arith \<Rightarrow> stmt \<Rightarrow> bool" where
  "stmt_ok A b \<longleftrightarrow> (\<forall>s p n. code_at (prog s) p (stmt_code p b) \<longrightarrow> like s s \<longrightarrow>
     length (hstack s) + stmt_room b \<le> NSTACK \<longrightarrow> stmt_nest b \<le> n \<longrightarrow>
     machine A (execute A n) (s\<lparr>pc := p\<rparr>) = bindK (stmt_sem A b s)
       (\<lambda>_ t. machine A (execute A n) (t\<lparr>pc := p + length (stmt_code p b)\<rparr>)))"

lemma stmt_okI:
  assumes "\<And>s p n. code_at (prog s) p (stmt_code p b) \<Longrightarrow> like s s \<Longrightarrow>
    length (hstack s) + stmt_room b \<le> NSTACK \<Longrightarrow> stmt_nest b \<le> n \<Longrightarrow>
    machine A (execute A n) (s\<lparr>pc := p\<rparr>) = bindK (stmt_sem A b s)
      (\<lambda>_ t. machine A (execute A n) (t\<lparr>pc := p + length (stmt_code p b)\<rparr>))"
  shows "stmt_ok A b"
  using assms by (simp add: stmt_ok_def)

lemma stmt_okD:
  "stmt_ok A b \<Longrightarrow> code_at (prog s) p (stmt_code p b) \<Longrightarrow> like s s \<Longrightarrow>
   length (hstack s) + stmt_room b \<le> NSTACK \<Longrightarrow> stmt_nest b \<le> n \<Longrightarrow>
   machine A (execute A n) (s\<lparr>pc := p\<rparr>) = bindK (stmt_sem A b s)
     (\<lambda>_ t. machine A (execute A n) (t\<lparr>pc := p + length (stmt_code p b)\<rparr>))"
  by (simp add: stmt_ok_def)

lemma sub_block:
  assumes "stmt_ok A b" "code_at (prog s) p (stmt_code p b @ [Stop])"
    and "length (hstack s) + stmt_room b \<le> NSTACK" "stmt_nest b \<le> m" "like s t"
  shows "execute A (Suc m) p (t\<lparr>pc := q\<rparr>)
    = bindK (stmt_sem A b t) (\<lambda>_ u. Ok () (u\<lparr>pc := p + length (stmt_code p b)\<rparr>))"
  using assms(2-5)
  by (intro block_runs [where s = s] stmt_okD [OF assms(1)] indep_stmt_sem) (auto simp: like_def)

lemma expr_stmt_ok:
  fixes A :: "'v arith"
  shows "stmt_ok A (SExpr e)"
proof (rule stmt_okI)
  fix s :: "'v hoc" and p n
  assume prems: "code_at (prog s) p (stmt_code p (SExpr e))" "like s s"
    "length (hstack s) + stmt_room (SExpr e) \<le> NSTACK" "stmt_nest (SExpr e) \<le> n"
  have "machine A (execute A n) (t\<lparr>pc := p + length (expr_code e), hstack := DVal v # hstack t\<rparr>)
      = machine A (execute A n) (t\<lparr>pc := p + length (stmt_code p (SExpr e))\<rparr>)" if "like s t" for v t
    using prems like_running [OF that] by (simp add: machine_step exec_inst_def stack_ops)
  then show "machine A (execute A n) (s\<lparr>pc := p\<rparr>) = bindK (stmt_sem A (SExpr e) s)
     (\<lambda>_ t. machine A (execute A n) (t\<lparr>pc := p + length (stmt_code p (SExpr e))\<rparr>))"
    using prems by (simp add: bindK_assoc expr_then)
qed

lemma print_ok:
  fixes A :: "'v arith"
  shows "stmt_ok A (SPrint ps)"
proof (rule stmt_okI)
  fix s :: "'v hoc" and p n
  assume prems: "code_at (prog s) p (stmt_code p (SPrint ps))" "like s s"
    "length (hstack s) + stmt_room (SPrint ps) \<le> NSTACK" "stmt_nest (SPrint ps) \<le> n"
  have "\<forall>i \<in> set ps. length (hstack s) + item_room i \<le> NSTACK"
    using prems(3) fold_max_le [of "map item_room ps" 0 "NSTACK - length (hstack s)"] by auto
  with prems show "machine A (execute A n) (s\<lparr>pc := p\<rparr>) = bindK (stmt_sem A (SPrint ps) s)
     (\<lambda>_ t. machine A (execute A n) (t\<lparr>pc := p + length (stmt_code p (SPrint ps))\<rparr>))" by (simp add: items_run)
qed

lemma seq_ok:
  fixes A :: "'v arith"
  assumes "stmt_ok A b1" "stmt_ok A b2"
  shows "stmt_ok A (SSeq b1 b2)"
proof (rule stmt_okI)
  fix s :: "'v hoc" and p n
  assume prems: "code_at (prog s) p (stmt_code p (SSeq b1 b2))" "like s s"
    "length (hstack s) + stmt_room (SSeq b1 b2) \<le> NSTACK" "stmt_nest (SSeq b1 b2) \<le> n"
  have "machine A (execute A n) (t\<lparr>pc := p + length (stmt_code p b1)\<rparr>) = bindK (stmt_sem A b2 t)
     (\<lambda>_ t. machine A (execute A n) (t\<lparr>pc := p + length (stmt_code p (SSeq b1 b2))\<rparr>))"
    if "stmt_sem A b1 s = Ok v t" for v t
    using prems stmt_okD [OF assms(2), of t "p + length (stmt_code p b1)" n] indep_frame [OF indep_stmt_sem that]
    by (simp add: like_def Let_def add.assoc)
  with prems stmt_okD [OF assms(1)] show "machine A (execute A n) (s\<lparr>pc := p\<rparr>) = bindK (stmt_sem A (SSeq b1 b2) s)
     (\<lambda>_ t. machine A (execute A n) (t\<lparr>pc := p + length (stmt_code p (SSeq b1 b2))\<rparr>))" by (simp add: Let_def bindK_assoc) (rule bindK_cong, auto)
qed

lemma while_ok:
  fixes A :: "'v arith"
  assumes "stmt_ok A b"
  shows "stmt_ok A (SWhile c b)"
proof (rule stmt_okI)
  fix s :: "'v hoc" and p n
  assume prems: "code_at (prog s) p (stmt_code p (SWhile c b))" "like s s"
    "length (hstack s) + stmt_room (SWhile c b) \<le> NSTACK" "stmt_nest (SWhile c b) \<le> n"
  obtain m where n: "n = Suc m" "stmt_nest b \<le> m"
    using prems(4) by (cases n) auto
  let ?pb = "p + 3 + length (expr_code c) + 1"
  let ?e = "?pb + length (stmt_code ?pb b)"
  have code: "code_at (prog s) (Suc (Suc (Suc p))) (expr_code c @ [Stop])"
    "code_at (prog s) ?pb (stmt_code ?pb b @ [Stop])" "prog s p = Inst Whilecode"
    "prog s (Suc p) = Addr ?pb" "prog s (Suc (Suc p)) = Addr (Suc ?e)"
    using prems(1) by (simp_all add: Let_def eval_nat_numeral)
  have "whilecode A (execute A n) (s\<lparr>pc := Suc p\<rparr>)
      = bindK (stmt_sem A (SWhile c b) s) (\<lambda>_ t. Ok () (t\<lparr>pc := Suc ?e\<rparr>))"
    unfolding n stmt_sem.simps
    by (rule whilecode_runs [where s = s and X = "execute A (Suc m)" and p = "Suc p" and test = "expr_sem A c" and body = "stmt_sem A b",
        OF cond_runs [OF code(1)] sub_block [OF assms code(2)] _ _ code(4,5)])
       (use prems n in \<open>auto intro: indeps\<close>)
  then show "machine A (execute A n) (s\<lparr>pc := p\<rparr>) = bindK (stmt_sem A (SWhile c b) s)
     (\<lambda>_ t. machine A (execute A n) (t\<lparr>pc := p + length (stmt_code p (SWhile c b))\<rparr>))"
    using code prems(2) by (simp add: machine_step exec_inst_def like_def Let_def bindK_assoc eval_nat_numeral add.assoc)
qed

lemma for_ok:
  fixes A :: "'v arith"
  assumes "stmt_ok A b"
  shows "stmt_ok A (SFor i c k b)"
proof (rule stmt_okI)
  fix s :: "'v hoc" and p n
  assume prems: "code_at (prog s) p (stmt_code p (SFor i c k b))" "like s s"
    "length (hstack s) + stmt_room (SFor i c k b) \<le> NSTACK" "stmt_nest (SFor i c k b) \<le> n"
  obtain m where n: "n = Suc m" "stmt_nest b \<le> m"
    using prems(4) by (cases n) auto
  let ?pc = "p + 5 + length (expr_code i) + 1"
  let ?pk = "?pc + length (expr_code c) + 1"
  let ?pb = "?pk + length (expr_code k) + 1"
  let ?e = "?pb + length (stmt_code ?pb b)"
  have code: "code_at (prog s) (Suc p + 4) (expr_code i @ [Stop])"
    "code_at (prog s) ?pc (expr_code c @ [Stop])" "code_at (prog s) ?pk (expr_code k @ [Stop])"
    "code_at (prog s) ?pb (stmt_code ?pb b @ [Stop])" "prog s p = Inst Forcode"
    "prog s (Suc p) = Addr ?pc" "prog s (Suc (Suc p)) = Addr ?pk" "prog s (Suc (Suc (Suc p))) = Addr ?pb"
    "prog s (Suc p + 3) = Addr (Suc ?e)"
    using prems(1) by (simp_all add: Let_def eval_nat_numeral)
  have "forcode A (execute A n) (s\<lparr>pc := Suc p\<rparr>) = bindK (stmt_sem A (SFor i c k b) s)
      (\<lambda>_ t. Ok () (t\<lparr>pc := Suc ?e\<rparr>))"
    unfolding n stmt_sem.simps bindK_assoc
    by (rule forcode_runs [where s = s and X = "execute A (Suc m)" and p = "Suc p" and test = "expr_sem A c" and body = "stmt_sem A b"
          and init = "expr_sem A i" and inc = "expr_sem A k", OF cond_runs [OF code(1)] cond_runs [OF code(2)] cond_runs [OF code(3)]
          sub_block [OF assms code(4)] _ _ _ _ code(6-9)])
       (use prems n in \<open>auto intro: indeps\<close>)
  then show "machine A (execute A n) (s\<lparr>pc := p\<rparr>) = bindK (stmt_sem A (SFor i c k b) s)
     (\<lambda>_ t. machine A (execute A n) (t\<lparr>pc := p + length (stmt_code p (SFor i c k b))\<rparr>))"
    using code prems(2) by (simp add: machine_step exec_inst_def like_def Let_def bindK_assoc eval_nat_numeral add.assoc)
qed

lemma if_ok:
  fixes A :: "'v arith"
  assumes "stmt_ok A b"
  shows "stmt_ok A (SIf c b)"
proof (rule stmt_okI)
  fix s :: "'v hoc" and p n
  assume prems: "code_at (prog s) p (stmt_code p (SIf c b))" "like s s"
    "length (hstack s) + stmt_room (SIf c b) \<le> NSTACK" "stmt_nest (SIf c b) \<le> n"
  obtain m where n: "n = Suc m" "stmt_nest b \<le> m"
    using prems(4) by (cases n) auto
  let ?pb = "p + 4 + length (expr_code c) + 1"
  let ?e = "?pb + length (stmt_code ?pb b)"
  have code: "code_at (prog s) (Suc p + 3) (expr_code c @ [Stop])"
    "code_at (prog s) ?pb (stmt_code ?pb b @ [Stop])" "prog s p = Inst Ifcode"
    "prog s (Suc p) = Addr ?pb" "prog s (Suc (Suc p)) = Stop" "prog s (Suc (Suc (Suc p))) = Addr (Suc ?e)"
    using prems(1) by (simp_all add: Let_def eval_nat_numeral)
  have "ifcode A (execute A n) (s\<lparr>pc := Suc p\<rparr>) = bindK (stmt_sem A (SIf c b) s)
      (\<lambda>_ t. Ok () (t\<lparr>pc := Suc ?e\<rparr>))"
    unfolding n stmt_sem.simps bindK_assoc
    by (rule ifcode_runs [where s = s and X = "execute A (Suc m)" and p = "Suc p" and test = "expr_sem A c" and body = "stmt_sem A b",
        OF cond_runs [OF code(1)] sub_block [OF assms code(2)]
          disjI1 [OF conjI [OF code(5) refl]] _ _ _ code(4,6)])
       (use prems n in \<open>auto intro: indeps\<close>)
  then show "machine A (execute A n) (s\<lparr>pc := p\<rparr>) = bindK (stmt_sem A (SIf c b) s)
     (\<lambda>_ t. machine A (execute A n) (t\<lparr>pc := p + length (stmt_code p (SIf c b))\<rparr>))"
    using code prems(2) by (simp add: machine_step exec_inst_def like_def Let_def bindK_assoc eval_nat_numeral add.assoc)
qed

lemma if_else_ok:
  fixes A :: "'v arith"
  assumes "stmt_ok A b1" "stmt_ok A b2"
  shows "stmt_ok A (SIfElse c b1 b2)"
proof (rule stmt_okI)
  fix s :: "'v hoc" and p n
  assume prems: "code_at (prog s) p (stmt_code p (SIfElse c b1 b2))" "like s s"
    "length (hstack s) + stmt_room (SIfElse c b1 b2) \<le> NSTACK" "stmt_nest (SIfElse c b1 b2) \<le> n"
  obtain m where n: "n = Suc m" "stmt_nest b1 \<le> m" "stmt_nest b2 \<le> m"
    using prems(4) by (cases n) auto
  let ?pb = "p + 4 + length (expr_code c) + 1"
  let ?pe = "?pb + length (stmt_code ?pb b1) + 1"
  let ?e = "?pe + length (stmt_code ?pe b2)"
  have code: "code_at (prog s) (Suc p + 3) (expr_code c @ [Stop])"
    "code_at (prog s) ?pb (stmt_code ?pb b1 @ [Stop])" "code_at (prog s) ?pe (stmt_code ?pe b2 @ [Stop])"
    "prog s p = Inst Ifcode"
    "prog s (Suc p) = Addr ?pb" "prog s (Suc (Suc p)) = Addr ?pe" "prog s (Suc (Suc (Suc p))) = Addr (Suc ?e)"
    using prems(1) by (simp_all add: Let_def eval_nat_numeral)
  have els: "\<forall>t q. like s t \<longrightarrow> execute A (Suc m) ?pe (t\<lparr>pc := q\<rparr>)
      = bindK (stmt_sem A b2 t) (\<lambda>_ u. Ok () (u\<lparr>pc := ?e\<rparr>))"
    using prems n by (intro allI impI sub_block [OF assms(2) code(3)]) auto
  have "ifcode A (execute A n) (s\<lparr>pc := Suc p\<rparr>) = bindK (stmt_sem A (SIfElse c b1 b2) s)
      (\<lambda>_ t. Ok () (t\<lparr>pc := Suc ?e\<rparr>))"
    unfolding n stmt_sem.simps bindK_assoc
    by (rule ifcode_runs [where s = s and X = "execute A (Suc m)" and p = "Suc p" and test = "expr_sem A c" and body = "stmt_sem A b1",
        OF cond_runs [OF code(1)] sub_block [OF assms(1) code(2)]
          disjI2 [OF conjI [OF code(6) els]] _ _ _ code(5,7)])
       (use prems n in \<open>auto intro: indeps\<close>)
  then show "machine A (execute A n) (s\<lparr>pc := p\<rparr>) = bindK (stmt_sem A (SIfElse c b1 b2) s)
     (\<lambda>_ t. machine A (execute A n) (t\<lparr>pc := p + length (stmt_code p (SIfElse c b1 b2))\<rparr>))"
    using code prems(2) by (simp add: machine_step exec_inst_def like_def Let_def bindK_assoc eval_nat_numeral add.assoc)

qed

lemma stmt_runs: "stmt_ok A b"
proof (induction b)
  case SEmpty
  show ?case by (simp add: stmt_ok_def)
qed (simp_all add: expr_stmt_ok print_ok seq_ok while_ok for_ok if_ok if_else_ok)

subsection \<open>Sessions\<close>

lemma printtop_top: "printtop A (t\<lparr>pc := q, hstack := DVal v # hstack t\<rparr>)
  = bindK (case static_sym A t of (k, t) \<Rightarrow> print_last A k v t) (\<lambda>_ t. Ok () (t\<lparr>pc := q\<rparr>))"
proof -
  obtain k u where u: "static_sym A t = (k, u)" by fastforce
  then have "static_sym A (t\<lparr>pc := q, hstack := DVal v # hstack t\<rparr>) = (k, u\<lparr>pc := q, hstack := DVal v # hstack u\<rparr>)"
    by (auto simp: static_sym_def install_def split: option.splits)
  with u show ?thesis
    by (simp add: printtop_def stack_ops indep_pc [OF indep_print_val_last])
qed

lemma initcode_base [simp]: "progbase (initcode s) = progbase s"
  by (simp add: initcode_def)

lemma cmd_runs:
  assumes "code_at (prog s) p (cmd_code p c)" "like s s" "hstack s = []" "cmd_fits n p c"
  shows "\<exists>q. execute A n p s = bindK (cmd_sem A c s) (\<lambda>_ t. Ok () (t\<lparr>pc := q\<rparr>))"
proof (cases c)
  case (CStmt b)
  with assms obtain m where "n = Suc m" by (cases n) auto
  with CStmt assms show ?thesis
    using sub_block [OF stmt_runs, of s p b m s A "pc s"]
    by (intro exI [of _ "p + length (stmt_code p b)"]) simp
next
  case (CExpr e)
  with assms obtain m where n: "n = Suc m" by (cases n) auto
  let ?q = "p + length (expr_code e) + 1"
  let ?f = "\<lambda>v t. case static_sym A t of (k, t) \<Rightarrow> print_last A k v t"
  have "machine A (execute A m) (t\<lparr>pc := p + length (expr_code e), hstack := DVal v # hstack t\<rparr>)
      = bindK (?f v t) (\<lambda>_ t. Ok () (t\<lparr>pc := ?q\<rparr>))" if t: "like s t" for v t
  proof -
    have "exec_inst A (execute A m) Printtop (t\<lparr>pc := ?q, hstack := DVal v # hstack t\<rparr>)
        = bindK (?f v t) (\<lambda>_ t. Ok () (t\<lparr>pc := ?q\<rparr>))"
      by (simp add: exec_inst_def printtop_top)
    moreover have "machine A (execute A m) (u\<lparr>pc := ?q\<rparr>) = Ok () (u\<lparr>pc := ?q\<rparr>)" if "?f v t = Ok x u" for u x
      using indep_like [OF indep_print_last t that] assms CExpr by (simp add: machine_stop like_def)
    ultimately show ?thesis
      using assms CExpr like_running [OF t]
      by (simp add: machine_step swap_pc_stack bindK_assoc) (rule bindK_cong, auto)
  qed
  then show ?thesis
    using assms CExpr n expr_then [of s p e A "execute A m"]
    by (intro exI [of _ ?q]) (simp add: bindK_assoc)
qed

lemma command_runs:
  assumes "cmd_fits n (progbase s) c"
  shows "\<exists>m. progbase m = progbase s
    \<and> command A n c s = bindK (cmd_sem A c s) (\<lambda>_ t. Ok () (mach m t))"
proof -
  have "progp (initcode s) + length (cmd_code (progbase s) c) \<le> NPROG"
    using assms by (cases c) (simp_all add: initcode_def)
  then obtain P where P: "code_at P (progbase s) (cmd_code (progbase s) c)"
    "forK (cmd_code (progbase s) c) code (initcode s)
     = Ok () ((initcode s)\<lparr>prog := P, progp := progbase s + length (cmd_code (progbase s) c)\<rparr>)"
    using install_code [of "initcode s" "cmd_code (progbase s) c"] by (auto simp: initcode_def)
  let ?s = "(initcode s)\<lparr>prog := P, progp := progbase s + length (cmd_code (progbase s) c)\<rparr>"
  obtain q where q: "execute A n (progbase s) ?s = bindK (cmd_sem A c ?s) (\<lambda>_ t. Ok () (t\<lparr>pc := q\<rparr>))"
    using cmd_runs [of ?s "progbase s" c n A] P assms by (auto simp: like_def initcode_def)
  have "?s = mach ?s s"
    by (simp add: mach_def initcode_def)
  then have "cmd_sem A c ?s = bindK (cmd_sem A c s) (\<lambda>x t. Ok x (mach ?s t))"
    using indep_cmd_sem [of A c] unfolding indep_def by metis
  then have "command A n c s = bindK (cmd_sem A c s) (\<lambda>_ t. Ok () ((mach ?s t)\<lparr>pc := q\<rparr>))"
    using q by (simp add: command_def P(2) bindK_assoc)
  then show ?thesis
    by (intro exI [of _ "?s\<lparr>pc := q\<rparr>"]) (simp add: mach_pc)
qed

lemma shown_mach [simp]: "shown (mach m s) = shown s"
  by (simp add: shown_def)

lemma commands_run:
  "\<forall>c \<in> set cs. cmd_fits n (progbase s) c \<Longrightarrow>
   mapK shown (forK cs (command A n) s) = mapK shown (forK cs (cmd_sem A) s)"
proof (induction cs arbitrary: s)
  case (Cons c cs)
  then obtain m where m: "progbase m = progbase s"
    "command A n c s = bindK (cmd_sem A c s) (\<lambda>_ t. Ok () (mach m t))"
    using command_runs by fastforce
  have "mapK shown (forK cs (command A n) (mach m t)) = mapK shown (forK cs (cmd_sem A) t)" for t
  proof -
    have "mapK shown (forK cs (command A n) (mach m t)) = mapK shown (forK cs (cmd_sem A) (mach m t))"
      using Cons m by simp
    also have "\<dots> = mapK shown (bindK (forK cs (cmd_sem A) t) (\<lambda>x u. Ok x (mach m u)))"
      using indep_forK [where f = "cmd_sem A" and xs = cs, OF indep_cmd_sem] by (simp add: indep_def)
    also have "\<dots> = mapK shown (forK cs (cmd_sem A) t)"
      by (rule mapK_bindK_Ok) simp
    finally show ?thesis .
  qed
  then show ?case
    by (cases "cmd_sem A c s") (simp_all add: m(2))
qed simp

text \<open>
  C2. A hoc session executes the code that the parser installs exactly as the phrases mean. For every list
  of statements and expressions without functions and procedures, whose code fits into program memory,
  whose expressions fit onto the stack and whose statements nest less deeply than the given bound, the
  machine ends in the same way as the evaluation of the phrases: with the same variables, the same output
  and the same remaining input, in the same run-time error, or not at all.
\<close>

theorem hoc_session:
  assumes "\<forall>c \<in> set cs. cmd_fits n (progbase s) c"
  shows "mapK shown (run A n cs s) = mapK shown (forK cs (cmd_sem A) s)"
proof -
  have "mapK shown (run A n cs s) = mapK shown (forK cs (command A n) s)"
    unfolding run_def by (cases "forK cs (command A n) s") (simp_all add: shown_def initcode_def)
  with commands_run [OF assms] show ?thesis by simp
qed

text \<open>A table with a variable and three numbers, and integers in place of doubles.\<close>

definition int_arith :: "int arith" where
  "int_arith = \<lparr>f_add = (+), f_sub = (-), f_mul = (*), f_div = cdiv, f_neg = uminus,
     f_lt = (<), f_le = (\<le>), f_eq = (=), f_of_long = id, f_long = id, f_long_min = - (2 ^ 63), f_int = id,
     f_pow = (\<lambda>x y. (x ^ nat y, None)), f_lib = (\<lambda>_ x. (x, None)), f_signgam = (\<lambda>_. 1)\<rparr>"

definition demo_state :: "int hoc" where
  "demo_state = \<lparr>prog = (\<lambda>_. Stop), progp = 0, progbase = 0, pc = 0, hstack = [], frames = [],
     returning = False, indef = False,
     symtab = [\<lparr>s_name = ''PREC'', s_type = VAR, s_val = 15, s_defn = 0\<rparr>,
       \<lparr>s_name = ''x'', s_type = UNDEF, s_val = 0, s_defn = 0\<rparr>,
       \<lparr>s_name = [], s_type = NUMBER, s_val = 0, s_defn = 0\<rparr>,
       \<lparr>s_name = [], s_type = NUMBER, s_val = 1, s_defn = 0\<rparr>,
       \<lparr>s_name = [], s_type = NUMBER, s_val = 3, s_defn = 0\<rparr>],
     last_sym = None, hin = [[]], hout = [], herrno = None\<rparr>"

definition demo_session :: "cmd list" where
  "demo_session =
     [CStmt (SExpr (EAsg Assign 1 (ENum 2))),
      CStmt (SWhile (EBin Lt (EVar 1) (ENum 4)) (SExpr (EAsg Addeq 1 (ENum 3)))),
      CExpr (EBin Mul (EVar 1) (EVar 1))]"

theorem hoc_session_witness:
  "list_all (cmd_fits 2 (progbase demo_state)) demo_session
   \<and> mapK sh_out (mapK shown (run int_arith 2 demo_session demo_state)) = Ok () [OutVal 15 9 [CHR 0x0A]]"
proof -
  have "list_all (cmd_fits 2 (progbase demo_state)) demo_session"
    by code_simp
  moreover from this have "mapK shown (run int_arith 2 demo_session demo_state)
      = mapK shown (forK demo_session (cmd_sem int_arith) demo_state)"
    by (intro hoc_session) (simp add: list_all_iff)
  moreover have "mapK sh_out (mapK shown (forK demo_session (cmd_sem int_arith) demo_state))
      = Ok () [OutVal 15 9 [CHR 0x0A]]"
    by code_simp
  ultimately show ?thesis by simp
qed

subsection \<open>Run-time errors\<close>

text \<open>The messages of \<^verbatim>\<open>execerror\<close> that a correct program may still meet.\<close>

definition run_errors :: "string set" where
  "run_errors = {''attempt to evaluate non-variable'', ''undefined variable'',
     ''assignment to non-variable'', ''division by zero'', ''floating point exception'',
     ''argument out of domain'', ''result out of range'', ''gamma result out of range'',
     ''non-number read into''}"

text \<open>The symbols of a phrase are among the first \<open>N\<close> of the table, as the lexer looks them up there.\<close>

primrec expr_wf :: "nat \<Rightarrow> expr \<Rightarrow> bool" where
  "expr_wf N (ENum k) = (k < N)"
| "expr_wf N (EVar k) = (k < N)"
| "expr_wf N (EAsg b k e) = (k < N \<and> expr_wf N e)"
| "expr_wf N (ERead k) = (k < N)"
| "expr_wf N (EBltin f e) = expr_wf N e"
| "expr_wf N (EBin b e1 e2) = (expr_wf N e1 \<and> expr_wf N e2)"
| "expr_wf N (ENeg e) = expr_wf N e"
| "expr_wf N (ENot e) = expr_wf N e"
| "expr_wf N (EInc b k) = (k < N)"

primrec item_wf :: "nat \<Rightarrow> pitem \<Rightarrow> bool" where
  "item_wf N (PExpr e) = expr_wf N e"
| "item_wf N (PStr x) = True"

primrec stmt_wf :: "nat \<Rightarrow> stmt \<Rightarrow> bool" where
  "stmt_wf N (SExpr e) = expr_wf N e"
| "stmt_wf N (SPrint ps) = list_all (item_wf N) ps"
| "stmt_wf N (SWhile c b) = (expr_wf N c \<and> stmt_wf N b)"
| "stmt_wf N (SFor i c p b) = (expr_wf N i \<and> expr_wf N c \<and> expr_wf N p \<and> stmt_wf N b)"
| "stmt_wf N (SIf c b) = (expr_wf N c \<and> stmt_wf N b)"
| "stmt_wf N (SIfElse c b1 b2) = (expr_wf N c \<and> stmt_wf N b1 \<and> stmt_wf N b2)"
| "stmt_wf N SEmpty = True"
| "stmt_wf N (SSeq b1 b2) = (stmt_wf N b1 \<and> stmt_wf N b2)"

primrec cmd_wf :: "nat \<Rightarrow> cmd \<Rightarrow> bool" where
  "cmd_wf N (CStmt b) = stmt_wf N b"
| "cmd_wf N (CExpr e) = expr_wf N e"

definition table_ok :: "nat \<Rightarrow> 'v hoc \<Rightarrow> bool" where
  "table_ok N s \<longleftrightarrow> N \<le> length (symtab s) \<and> ''PREC'' \<in> set (map s_name (symtab s))"

fun safeK :: "('s \<Rightarrow> bool) \<Rightarrow> ('a, 's) outcome \<Rightarrow> bool" where
  "safeK I (Ok x s) = I s"
| "safeK I (Panic m) = (m \<in> run_errors)"
| "safeK I (Exit c s) = False"
| "safeK I Hang = True"

named_theorems safes \<open>operations that meet only run-time errors\<close>

lemma safeK_bind [safes]: "safeK I m \<Longrightarrow> (\<And>x s. I s \<Longrightarrow> safeK I (f x s)) \<Longrightarrow> safeK I (bindK m f)"
  by (cases m) auto

lemma safeK_forK: "(\<And>i s. i \<in> set is \<Longrightarrow> I s \<Longrightarrow> safeK I (f i s)) \<Longrightarrow> I s \<Longrightarrow> safeK I (forK is f s)"
  by (induction "is" arbitrary: s) (auto intro: safeK_bind)

lemma safeK_iterK:
  assumes step: "\<And>a s. I s \<Longrightarrow> safeK I (f a s)" and start: "I s"
  shows "safeK I (iterK f a s)"
proof -
  have pres: "safeK I (loop_step f m)" if "safeK I m" "again m" for m
    using that by (cases m rule: again.cases) (auto simp: loop_step_def step)
  have "safeK I m" if "while_option again (loop_step f) (f a s) = Some m" for m
    using while_option_rule [where P = "safeK I", OF pres that step [OF start]] by blast
  moreover have "safeK I (leave_loop m)" if "safeK I m" for m
    using that by (cases m) (auto simp: leave_loop_def split: sum.splits)
  ultimately show ?thesis
    by (auto simp: iterK_def split: option.splits)
qed

lemma lookup_found: "n \<in> set (map s_name t) \<Longrightarrow> k = length t \<Longrightarrow> \<exists>p. lookup_from k n t = Some p"
proof -
  have "lookup_from k n t = None \<Longrightarrow> i < k \<Longrightarrow> s_name (t ! i) \<noteq> n" for i
    by (induction k) (auto split: if_splits simp: less_Suc_eq)
  then show "n \<in> set (map s_name t) \<Longrightarrow> k = length t \<Longrightarrow> ?thesis"
    by (cases "lookup_from k n t") (fastforce simp: in_set_conv_nth)+
qed

lemma names_upd: "(s_name \<circ> f) = s_name \<Longrightarrow> map s_name (t[k := f (t ! k)]) = map s_name t"
  by (cases "k < length t"; rule nth_equalityI) (auto simp: nth_list_update fun_eq_iff)

lemma table_ok_upd [simp]:
  "table_ok N (set_var k v s) = table_ok N s" "table_ok N (make_var k s) = table_ok N s"
  "table_ok N (s\<lparr>hin := i\<rparr>) = table_ok N s" "table_ok N (s\<lparr>hout := w\<rparr>) = table_ok N s"
  "table_ok N (s\<lparr>herrno := e\<rparr>) = table_ok N s"
proof -
  have "map s_name ((symtab s)[k := (symtab s ! k)\<lparr>s_val := v\<rparr>]) = map s_name (symtab s)"
    "map s_name ((symtab s)[k := (symtab s ! k)\<lparr>s_type := VAR\<rparr>]) = map s_name (symtab s)"
    using names_upd [of "\<lambda>y. y\<lparr>s_val := v\<rparr>" "symtab s" k] names_upd [of "\<lambda>y. y\<lparr>s_type := VAR\<rparr>" "symtab s" k]
    by (auto simp: fun_eq_iff)
  then show "table_ok N (set_var k v s) = table_ok N s" "table_ok N (make_var k s) = table_ok N s"
    by (simp_all only: table_ok_def set_var_def make_var_def) (simp_all add: table_ok_def)
qed (simp_all add: table_ok_def)

lemma run_errorsI [simp]:
  "''attempt to evaluate non-variable'' \<in> run_errors" "''undefined variable'' \<in> run_errors"
  "''assignment to non-variable'' \<in> run_errors" "''division by zero'' \<in> run_errors"
  "''floating point exception'' \<in> run_errors" "''argument out of domain'' \<in> run_errors"
  "''result out of range'' \<in> run_errors" "''gamma result out of range'' \<in> run_errors"
  "''non-number read into'' \<in> run_errors"
  by (simp_all add: run_errors_def)

lemma safe_values [safes]:
  assumes "table_ok N s"
  shows "k < N \<Longrightarrow> safeK (table_ok N) (verify k s)" "safeK (table_ok N) (errcheck d s)"
    "safeK (table_ok N) (lib_call r s)" "safeK (table_ok N) (long_mod A x y s)"
    "safeK (table_ok N) (divisor_check A b y s)" "k < N \<Longrightarrow> safeK (table_ok N) (read_var A k s)"
    "safeK (table_ok N) (print_val A w v s)" "safeK (table_ok N) (print_str z s)"
proof -
  have "N \<le> length (symtab s)" "\<exists>p. lookup ''PREC'' s = Some p"
    using assms lookup_found [of "''PREC''" "symtab s"] by (auto simp: table_ok_def lookup_def)
  with assms show "k < N \<Longrightarrow> safeK (table_ok N) (verify k s)" "safeK (table_ok N) (errcheck d s)"
    "safeK (table_ok N) (lib_call r s)" "safeK (table_ok N) (long_mod A x y s)"
    "safeK (table_ok N) (divisor_check A b y s)" "k < N \<Longrightarrow> safeK (table_ok N) (read_var A k s)"
    "safeK (table_ok N) (print_val A w v s)" "safeK (table_ok N) (print_str z s)"
    by (auto simp: verify_def sym_def errcheck_def lib_call_def long_mod_def divisor_check_def read_var_def
        print_val_def print_str_def split: option.splits merr.splits prod.splits)
qed

lemma safe_Ok [safes]: "I s \<Longrightarrow> safeK I (Ok x s)"
  by simp

lemma safe_if [safes]: "(b \<Longrightarrow> safeK I m) \<Longrightarrow> (\<not> b \<Longrightarrow> safeK I m') \<Longrightarrow> safeK I (if b then m else m')"
  by simp

lemma safe_sym [safes]:
  "k < N \<Longrightarrow> table_ok N s \<Longrightarrow> (\<And>y. safeK (table_ok N) (f y)) \<Longrightarrow> safeK (table_ok N) (sym k s f)"
  by (simp add: sym_def table_ok_def)

lemma safe_builtin [safes]: "table_ok N s \<Longrightarrow> safeK (table_ok N) (builtin A f x s)"
  unfolding builtin_def Gamma_def by (auto intro!: safes)

lemma safe_ops [safes]:
  assumes "table_ok N s"
  shows "safeK (table_ok N) (binop_val A b x y s)" "safeK (table_ok N) (asgop_val A c x y s)"
  using assms
  by (auto simp: binop_val_def arith_op_def Pow_def asgop_val_def intro!: safes split: binop.splits asgop.splits)

lemma safe_vars [safes]:
  assumes "table_ok N s" "k < N"
  shows "safeK (table_ok N) (assign_var A b k y s)" "safeK (table_ok N) (inc_var A c k s)"
  using assms by (auto simp: assign_var_def inc_var_def intro!: safes split: incop.splits)

lemma safe_expr [safes]: "expr_wf N e \<Longrightarrow> table_ok N s \<Longrightarrow> safeK (table_ok N) (expr_sem A e s)"
  by (induction e arbitrary: s) (auto intro!: safes)

lemma safe_item: "item_wf N i \<Longrightarrow> table_ok N s \<Longrightarrow> safeK (table_ok N) (item_sem A i s)"
  by (cases i) (auto intro!: safes)

lemma safe_loop [safes]:
  assumes "\<And>s. I s \<Longrightarrow> safeK I (test s)" "\<And>s. I s \<Longrightarrow> safeK I (body s)" "I s"
  shows "safeK I (loop_sem A test body s)"
  unfolding loop_sem_def using assms by (auto intro!: safes safeK_iterK)

lemma safe_stmt: "stmt_wf N b \<Longrightarrow> table_ok N s \<Longrightarrow> safeK (table_ok N) (stmt_sem A b s)"
proof (induction b arbitrary: s)
  case (SPrint ps)
  then show ?case by (auto simp: list_all_iff intro!: safeK_forK safe_item)
qed (auto intro!: safes)

lemma safe_cmd:
  assumes "cmd_wf N c" "table_ok N s"
  shows "safeK (table_ok N) (cmd_sem A c s)"
proof (cases c)
  case (CExpr e)
  have "table_ok N t" if "static_sym A u = (k, t)" "table_ok N u" for u k t
    using that by (auto simp: static_sym_def install_def table_ok_def split: option.splits)
  with assms CExpr show ?thesis
    by (auto simp: print_last_def intro!: safes split: prod.splits)
qed (use assms safe_stmt in auto)



end
