(* ===== verification/Spec2Isabelle.thy ===== *)
theory Spec2Isabelle
  imports Timers Vsprintf Mktime Open_Files Fork_Child Tty_Queue Mqueue Rwlock Hoc_Compiler
begin

text \<open>
  A verification library for the C programs of this repository: the Linux 0.11 kernel
  (\<^verbatim>\<open>src/linux-0.11\<close>), the message queues and read-write locks of the interprocess communication examples
  (\<^verbatim>\<open>src/unpv22e/my_pxmsg_mmap\<close>, \<^verbatim>\<open>src/unpv22e/my_rwlock\<close>), and the hoc calculator
  (\<^verbatim>\<open>src/hoc-soledad/src\<close>).

  \<^bold>\<open>How C is modelled.\<close> A C function is an Isabelle function from its arguments and the state to an
  \<open>outcome\<close> (theory \<open>Kernel_Prelude\<close>): it returns a value and a new state (\<open>Ok\<close>), stops in \<^verbatim>\<open>panic\<close> or
  \<^verbatim>\<open>execerror\<close> (\<open>Panic\<close>), ends the task (\<open>Exit\<close>), or never returns (\<open>Hang\<close>). Undefined behaviour is a
  \<open>Panic\<close> of its own. Structures are records, linked lists are tables of records with indices in the place of
  pointers, and integers whose width matters are words. Unbounded loops are \<open>iterK\<close>, which is \<open>Hang\<close> when
  the loop never ends, so they need no fuel. Global variables are one record that grows with the components:
  \<open>sched_st\<close> (tasks, timers), \<open>mm_st\<close> (physical memory and the map of frames), \<open>proc_st\<close>, \<open>fs_st\<close> (buffers,
  requests, inodes, super blocks, files) and \<open>exec_st\<close> (descriptor table). The operations of a component
  are polymorphic in what extends its record.

  \<^bold>\<open>The kernel.\<close>
  \<^item> \<open>Task_Data\<close>: \<^verbatim>\<open>include/linux/sched.h\<close>, \<^verbatim>\<open>signal.h\<close>; the task structure, the boot state and access to the running task.
  \<^item> \<open>Sched\<close>: \<^verbatim>\<open>schedule\<close> and the small system calls of \<^verbatim>\<open>kernel/sched.c\<close>. The task that runs next has the
    largest remaining time slice; counters are only recharged when none is left (C11).
  \<^item> \<open>Wait_Queue\<close>: \<^verbatim>\<open>sleep_on\<close>, \<^verbatim>\<open>interruptible_sleep_on\<close>, \<^verbatim>\<open>wake_up\<close>, cut at the call of \<^verbatim>\<open>schedule\<close> and
    interleaved by a step relation; the chain kept in kernel stacks reaches every sleeper (C10).
  \<^item> \<open>Timers\<close>: \<^verbatim>\<open>add_timer\<close>, \<^verbatim>\<open>do_timer\<close> and the floppy timers; the differences in the list add up to the
    times asked for, and due functions run in order (C14, C24).
  \<^item> \<open>Memory\<close>, \<open>Page_Tables\<close>, \<open>Page_Sharing\<close>, \<open>Mm_Properties\<close>: \<^verbatim>\<open>mm/memory.c\<close>. The invariant \<open>mm_inv h\<close> says that
    every count in \<^verbatim>\<open>mem_map\<close> is the number of page table entries that refer to the frame plus the \<open>h\<close>
    references held by the kernel. All operations keep it, and \<open>walk\<close>, the processor's translation, changes
    as it should (C6, C8, C12, C15, C17, C21, C34).
  \<^item> \<open>Vsprintf\<close>, \<open>Mktime\<close>: \<^verbatim>\<open>kernel/vsprintf.c\<close> and \<^verbatim>\<open>kernel/mktime.c\<close>; numbers print and read back, stay in
    their bounds, and dates are Gregorian days (C25, C26, C33, C36, C40).
  \<^item> \<open>Process\<close>, \<open>Sys_Calls\<close>, \<open>Kill_Wait\<close>: \<^verbatim>\<open>kernel/fork.c\<close>, \<^verbatim>\<open>sys.c\<close>, \<^verbatim>\<open>signal.c\<close>, \<^verbatim>\<open>exit.c\<close>; fresh process
    numbers, user memory made writable before the kernel writes it, no escalation of user ids, signal frames,
    exactly which tasks a signal reaches, and \<^verbatim>\<open>waitpid\<close> (C16, C18, C19, C27, C31, C32, C38, C39).
  \<^item> \<open>Fs_Data\<close>, \<open>Block_Dev\<close>: \<^verbatim>\<open>include/linux/fs.h\<close>, \<^verbatim>\<open>kernel/blk_drv\<close>; the request list refines sorted
    insertion, and the RAM disk gives back what was written (C13, C28).
  \<^item> \<open>Buffer_Cache\<close>: \<^verbatim>\<open>fs/buffer.c\<close>; the hash queues and the free ring stay well formed, and a block is cached
    at most once (C7, C20).
  \<^item> \<open>Inodes\<close>: \<^verbatim>\<open>fs/inode.c\<close>, \<^verbatim>\<open>bitmap.c\<close>, \<^verbatim>\<open>truncate.c\<close>, \<^verbatim>\<open>super.c\<close>; zone allocation and inodes on disk
    (C22, C23, C35).
  \<^item> \<open>File_Io\<close>, \<open>Namei\<close>, \<open>Open_Files\<close>: \<^verbatim>\<open>fs/file_dev.c\<close>, \<^verbatim>\<open>block_dev.c\<close>, \<^verbatim>\<open>char_dev.c\<close>, \<^verbatim>\<open>read_write.c\<close>, \<^verbatim>\<open>pipe.c\<close>,
    \<^verbatim>\<open>fcntl.c\<close>, \<^verbatim>\<open>ioctl.c\<close>, \<^verbatim>\<open>namei.c\<close>, \<^verbatim>\<open>open.c\<close>, \<^verbatim>\<open>stat.c\<close>, as definitions.
  \<^item> \<open>Ring_Buffer\<close>, \<open>Pipe_Fifo\<close>, \<open>Tty_Queue\<close>: the locale \<open>ring_buffer\<close> of a queue in a circular array, interpreted on
    the pages of pipes and on the queues of \<^verbatim>\<open>tty.h\<close>; reads and writes of a pipe refine a queue, and closed
    ends never block (C3, C29, C30).
  \<^item> \<open>Fork_Exec\<close>, \<open>Fork_Child\<close>: \<^verbatim>\<open>copy_process\<close>, \<^verbatim>\<open>do_exit\<close>, demand loading and \<^verbatim>\<open>fs/exec.c\<close>. \<^verbatim>\<open>fork\<close> joins the memory
    management, the task table and the file system: it makes a complete child or changes nothing (C1).

  \<^bold>\<open>Interprocess communication.\<close>
  \<^item> \<open>Mqueue\<close>: the message queue file refines a priority queue of messages; an execution that loses a
    wake-up is derived (C5, C37).
  \<^item> \<open>Rwlock\<close>: threads that call the lock are a step relation; in every reachable state a writer is alone and
    the counts are exact (C4).

  \<^bold>\<open>The calculator.\<close>
  \<^item> \<open>Hoc_Machine\<close>: all instructions of \<^verbatim>\<open>code.c\<close>, with \<^verbatim>\<open>symbol.c\<close> and \<^verbatim>\<open>math.c\<close>. Doubles and the C library are
    the record \<open>arith\<close>, an argument. The bound \<open>n\<close> of \<open>execute A n\<close> limits how deep \<^verbatim>\<open>execute\<close> calls itself.
  \<^item> \<open>Hoc_Compiler\<close>: the code that the actions of \<^verbatim>\<open>hoc.y\<close> install for statements and expressions, and their
    meaning without a machine. A session runs as the phrases mean (C2), and its code is type correct (C9).
    The bound is enough when it exceeds the nesting of loops and conditionals in each command.

  \<^bold>\<open>Bounds.\<close> Two recursions have a depth: \<open>execute\<close> above, and \<open>c_depth\<close> of the context \<open>ctx\<close>, which limits
    how deep the buffer cache and the inode layer call each other through \<^verbatim>\<open>sync_dev\<close>; the example contexts use 3,
    and the theorems ask for what they need. \<open>ctx\<close> also holds the parameters for code outside the model: what other
    tasks do while this one sleeps, device request functions, and terminal reads, writes and control calls.

  \<^bold>\<open>Not modelled.\<close> Boot code, system call entry and other assembly code; hard disk, floppy, keyboard, serial and
  console drivers and the terminal layer above its queues, which act on ports and video memory and enter the model as parameters
  of \<open>ctx\<close>; \<^verbatim>\<open>printk\<close> and other output; the i387 state; \<^verbatim>\<open>rd_load\<close>, \<^verbatim>\<open>floppy_on\<close>, \<^verbatim>\<open>sched_init\<close>; \<^verbatim>\<open>lib/malloc.c\<close>, which
  no modelled part calls. Of the message queues, opening and unlinking files. Of the calculator, the lexer and the
  generated parser, and the meaning of phrases with functions and procedures; their instructions are
  modelled. The earlier stages \<^verbatim>\<open>hoc1\<close> to \<^verbatim>\<open>hoc5\<close> are contained in \<^verbatim>\<open>src\<close>. The remaining programs of
  \<^verbatim>\<open>unpv22e\<close> and the exercises at the top of the repository are calls of the system with input and output.
\<close>

end
